(* ===== verification/Prelude.thy ===== *)
theory Prelude
  imports Main "HOL-Library.Word" "HOL-Library.Char_ord" "HOL-Library.List_Lexorder"
begin

text \<open>
  Shared material: the byte and result types, Go's map reads with a zero value,
  big-endian byte strings and the words they stand for, and the functions of Go's
  \<open>strings\<close> and \<open>strconv\<close> packages that the program calls. Strings are the byte
  strings of Go (a \<open>char\<close> is one byte of the UTF-8 text).
\<close>

unbundle bit_operations_syntax

named_theorems go_std "unfolding rules of the modelled standard library"
named_theorems frame_simps "which fields an operation leaves alone"

type_synonym byte = "8 word"
type_synonym bytes = "byte list"

section \<open>Maps with Go's zero value\<close>

text \<open>Reading a missing key of a Go map yields the zero value of the element type.\<close>

definition go_get :: "'v \<Rightarrow> ('k \<rightharpoonup> 'v) \<Rightarrow> 'k \<Rightarrow> 'v" where
  "go_get z m k = (case m k of None \<Rightarrow> z | Some v \<Rightarrow> v)"

lemma go_get_upd [simp]: "go_get z (m(k \<mapsto> v)) k' = (if k' = k then v else go_get z m k')"
  by (simp add: go_get_def)

lemma go_get_del [simp]: "go_get z (m(k := None)) k' = (if k' = k then z else go_get z m k')"
  by (simp add: go_get_def)

lemma go_get_empty [simp]: "go_get z Map.empty k = z"
  by (simp add: go_get_def)

section \<open>Errors as values\<close>

text \<open>A Go function with results \<open>(T, error)\<close> returns \<open>Inl\<close> of its error or \<open>Inr\<close> of the value.\<close>

definition res_bind :: "'e + 'a \<Rightarrow> ('a \<Rightarrow> 'e + 'b) \<Rightarrow> 'e + 'b" where
  "res_bind r f = (case r of Inl e \<Rightarrow> Inl e | Inr x \<Rightarrow> f x)"

lemma res_bind_Inl [simp]: "res_bind (Inl e) f = Inl e"
  by (simp add: res_bind_def)

lemma res_bind_Inr [simp]: "res_bind (Inr x) f = f x"
  by (simp add: res_bind_def)

definition is_ok :: "'e + 'a \<Rightarrow> bool" where
  "is_ok r = (case r of Inl _ \<Rightarrow> False | Inr _ \<Rightarrow> True)"

lemma is_ok_simps [simp]: "is_ok (Inr x)" "\<not> is_ok (Inl e)"
  by (simp_all add: is_ok_def)

lemma is_ok_iff: "is_ok r \<longleftrightarrow> (\<exists>x. r = Inr x)"
  by (cases r) auto

section \<open>Big-endian bytes and words\<close>

definition be_word :: "bytes \<Rightarrow> 'a::len word" where
  "be_word bs = foldl (\<lambda>w b. push_bit 8 w OR ucast b) 0 bs"

definition be_bytes :: "nat \<Rightarrow> 'a::len word \<Rightarrow> bytes" where
  "be_bytes n w = map (\<lambda>i. ucast (drop_bit (8 * (n - 1 - i)) w)) [0..<n]"

lemma be_word_Nil [simp]: "be_word [] = 0"
  by (simp add: be_word_def)

lemma be_word_snoc: "be_word (bs @ [b]) = push_bit 8 (be_word bs) OR ucast b"
  by (simp add: be_word_def)

lemma length_be_bytes [simp]: "length (be_bytes n w) = n"
  by (simp add: be_bytes_def)

lemma be_bytes_nth: "i < n \<Longrightarrow> be_bytes n w ! i = ucast (drop_bit (8 * (n - 1 - i)) w)"
  by (simp add: be_bytes_def)

lemma bit_be_word:
  "bit (be_word bs :: 'a::len word) k \<longleftrightarrow>
     k < LENGTH('a) \<and> k div 8 < length bs \<and> bit (bs ! (length bs - 1 - k div 8)) (k mod 8)"
proof (induction bs arbitrary: k rule: rev_induct)
  case Nil
  then show ?case by simp
next
  case (snoc b bs)
  show ?case
  proof (cases "k < 8")
    case True
    then show ?thesis
      by (auto simp: be_word_snoc bit_or_iff bit_push_bit_iff bit_unsigned_iff nth_append)
  next
    case False
    then obtain j where j: "k = 8 + j"
      using le_Suc_ex not_less by blast
    have idx: "length bs - Suc (j div 8) < length bs" if "j div 8 < length bs"
      using that by simp
    have dv: "(8 + j) div 8 = Suc (j div 8)" by simp
    show ?thesis using snoc[of j] j idx bit_imp_le_length[of b k]
      by (auto simp: be_word_snoc bit_or_iff bit_push_bit_iff bit_unsigned_iff nth_append dv)
  qed
qed

lemma be_word_bytes:
  "LENGTH('a) = 8 * n \<Longrightarrow> be_word (be_bytes n w) = (w :: 'a::len word)"
proof (rule bit_word_eqI)
  fix k assume "LENGTH('a) = 8 * n" "k < LENGTH('a)"
  then have d: "k div 8 < n" by auto
  then have "n - Suc (n - Suc (k div 8)) = k div 8" by simp
  then show "bit (be_word (be_bytes n w) :: 'a word) k = bit w k"
    using d \<open>k < LENGTH('a)\<close>
    by (auto simp: bit_be_word be_bytes_nth bit_unsigned_iff bit_drop_bit_eq)
qed

lemma be_bytes_word:
  assumes "8 * length bs \<le> LENGTH('a)"
  shows "be_bytes (length bs) (be_word bs :: 'a::len word) = bs"
proof (rule nth_equalityI)
  show "length (be_bytes (length bs) (be_word bs :: 'a word)) = length bs" by simp
next
  fix i assume "i < length (be_bytes (length bs) (be_word bs :: 'a word))"
  then have i: "i < length bs" by simp
  show "be_bytes (length bs) (be_word bs :: 'a word) ! i = bs ! i"
  proof (rule bit_word_eqI)
    fix k assume k: "k < LENGTH(8)"
    let ?m = "8 * (length bs - Suc i) + k"
    have "?m < 8 * length bs" using i k by simp
    moreover have "?m div 8 = length bs - Suc i" "?m mod 8 = k" using k by simp_all
    ultimately show "bit (be_bytes (length bs) (be_word bs :: 'a word) ! i) k = bit (bs ! i) k"
      using i k assms
      by (auto simp: be_bytes_nth bit_unsigned_iff bit_drop_bit_eq bit_be_word)
  qed
qed

lemma byte_less: "unat b < 256" for b :: byte
  using unsigned_less[of b, where ?'a = nat] by simp

end
