(* ===== verification/Netip.thy ===== *)
theory Netip
  imports GoStrings "HOL-Library.Product_Lexorder"
begin

text \<open>
  Go's \<open>net/netip\<close> as far as the program uses it: addresses with their family and zone,
  prefixes, parsing and printing, plus \<open>net.SplitHostPort\<close>. An address is the zero
  \<open>Addr{}\<close>, an IPv4 address or an IPv6 address with its zone (empty for none); an
  IPv4-mapped IPv6 address is an \<open>Addr6\<close>. \<open>Prefix.Bits\<close> is -1 for an invalid prefix.
\<close>

section \<open>Addresses\<close>

datatype addr = NoAddr | Addr4 "32 word" | Addr6 "128 word" string

fun addr_is_valid :: "addr \<Rightarrow> bool" where
  "addr_is_valid NoAddr = False"
| "addr_is_valid _ = True"

fun addr_is4 :: "addr \<Rightarrow> bool" where
  "addr_is4 (Addr4 _) = True"
| "addr_is4 _ = False"

fun addr_is6 :: "addr \<Rightarrow> bool" where
  "addr_is6 (Addr6 _ _) = True"
| "addr_is6 _ = False"

fun addr_is4in6 :: "addr \<Rightarrow> bool" where
  "addr_is4in6 (Addr6 w _) = (drop_bit 32 w = 0xffff)"
| "addr_is4in6 _ = False"

fun addr_bitlen :: "addr \<Rightarrow> nat" where
  "addr_bitlen NoAddr = 0"
| "addr_bitlen (Addr4 _) = 32"
| "addr_bitlen (Addr6 _ _) = 128"

fun addr_zone :: "addr \<Rightarrow> string" where
  "addr_zone (Addr6 _ z) = z"
| "addr_zone _ = []"

text \<open>\<open>Next\<close> overflows to the zero address at the last address of the family.\<close>

fun addr_next :: "addr \<Rightarrow> addr" where
  "addr_next NoAddr = NoAddr"
| "addr_next (Addr4 w) = (if w + 1 = 0 then NoAddr else Addr4 (w + 1))"
| "addr_next (Addr6 w z) = (if w + 1 = 0 then NoAddr else Addr6 (w + 1) z)"

definition addr_from4 :: "bytes \<Rightarrow> addr" where
  "addr_from4 bs = Addr4 (be_word bs)"

definition addr_from16 :: "bytes \<Rightarrow> addr" where
  "addr_from16 bs = Addr6 (be_word bs) []"

text \<open>\<open>As4\<close> panics on other addresses than IPv4 and IPv4-mapped ones; callers test first.\<close>

fun addr_as4 :: "addr \<Rightarrow> bytes" where
  "addr_as4 (Addr4 w) = be_bytes 4 w"
| "addr_as4 (Addr6 w _) = be_bytes 4 (ucast w :: 32 word)"
| "addr_as4 NoAddr = be_bytes 4 (0 :: 32 word)"

fun addr_as16 :: "addr \<Rightarrow> bytes" where
  "addr_as16 (Addr4 w) = be_bytes 16 (ucast w OR 0xffff00000000 :: 128 word)"
| "addr_as16 (Addr6 w _) = be_bytes 16 w"
| "addr_as16 NoAddr = be_bytes 16 (0 :: 128 word)"

text \<open>\<open>Addr.Compare\<close>: bit length, then value, then zone.\<close>

fun addr_key :: "addr \<Rightarrow> int \<times> int \<times> string" where
  "addr_key NoAddr = (0, 0, [])"
| "addr_key (Addr4 w) = (32, uint w, [])"
| "addr_key (Addr6 w z) = (128, uint w, z)"

lemma addr_key_inj: "addr_key a = addr_key b \<Longrightarrow> a = b"
  by (cases a; cases b) (auto simp: word_uint_eq_iff)

instantiation addr :: linorder
begin

definition less_eq_addr :: "addr \<Rightarrow> addr \<Rightarrow> bool" where
  "less_eq_addr a b \<longleftrightarrow> addr_key a \<le> addr_key b"

definition less_addr :: "addr \<Rightarrow> addr \<Rightarrow> bool" where
  "less_addr a b \<longleftrightarrow> addr_key a < addr_key b"

instance
  by standard (auto simp: less_eq_addr_def less_addr_def dest: addr_key_inj antisym)

end

lemma less_Addr4 [simp]: "Addr4 a < Addr4 b \<longleftrightarrow> a < b"
  by (simp add: less_addr_def word_less_alt)

lemma less_eq_Addr4 [simp]: "Addr4 a \<le> Addr4 b \<longleftrightarrow> a \<le> b"
  by (auto simp: less_eq_addr_def word_le_def)

lemma less_eq_Addr6 [simp]: "Addr6 a z \<le> Addr6 b z \<longleftrightarrow> a \<le> b"
  by (auto simp: less_eq_addr_def word_le_def)

section \<open>Prefixes\<close>

record prefix =
  px_addr :: addr
  px_bits :: int

definition no_prefix :: prefix where
  "no_prefix = \<lparr>px_addr = NoAddr, px_bits = -1\<rparr>"

definition prefix_is_valid :: "prefix \<Rightarrow> bool" where
  "prefix_is_valid p \<longleftrightarrow> 0 \<le> px_bits p"

fun addr_without_zone :: "addr \<Rightarrow> addr" where
  "addr_without_zone (Addr6 w _) = Addr6 w []"
| "addr_without_zone a = a"

lemma addr_without_zone_simps [simp]:
  "addr_zone (addr_without_zone a) = []"
  "addr_is_valid (addr_without_zone a) = addr_is_valid a"
  "addr_bitlen (addr_without_zone a) = addr_bitlen a"
  "addr_is4 (addr_without_zone a) = addr_is4 a"
  "addr_zone a = [] \<Longrightarrow> addr_without_zone a = a"
  by (cases a; simp)+

definition prefix_from :: "addr \<Rightarrow> int \<Rightarrow> prefix" where
  "prefix_from a b =
     \<lparr>px_addr = addr_without_zone a,
      px_bits = (if addr_is_valid a \<and> 0 \<le> b \<and> b \<le> int (addr_bitlen a) then b else -1)\<rparr>"

text \<open>The invariant of every prefix the library hands out.\<close>

definition prefix_wf :: "prefix \<Rightarrow> bool" where
  "prefix_wf p \<longleftrightarrow> addr_zone (px_addr p) = [] \<and>
     (px_bits p = -1 \<or> addr_is_valid (px_addr p) \<and> 0 \<le> px_bits p \<and>
                        px_bits p \<le> int (addr_bitlen (px_addr p)))"

definition host_mask :: "nat \<Rightarrow> int \<Rightarrow> 'a::len word" where
  "host_mask len b = mask (len - nat b)"

fun addr_masked :: "addr \<Rightarrow> int \<Rightarrow> addr" where
  "addr_masked NoAddr b = NoAddr"
| "addr_masked (Addr4 w) b = Addr4 (w AND NOT (host_mask 32 b))"
| "addr_masked (Addr6 w z) b = Addr6 (w AND NOT (host_mask 128 b)) []"

definition prefix_masked :: "prefix \<Rightarrow> prefix" where
  "prefix_masked p =
     (if prefix_is_valid p then prefix_from (addr_masked (px_addr p) (px_bits p)) (px_bits p)
      else no_prefix)"

fun prefix_contains :: "prefix \<Rightarrow> addr \<Rightarrow> bool" where
  "prefix_contains p a =
     (prefix_is_valid p \<and> addr_zone a = [] \<and>
      (case (px_addr p, a) of
         (Addr4 v, Addr4 w) \<Rightarrow> drop_bit (32 - nat (px_bits p)) (v XOR w) = 0
       | (Addr6 v _, Addr6 w _) \<Rightarrow> drop_bit (128 - nat (px_bits p)) (v XOR w) = 0
       | _ \<Rightarrow> False))"

declare prefix_contains.simps [simp del]

lemma prefix_from_wf [simp]: "prefix_wf (prefix_from a b)"
  by (cases a) (auto simp: prefix_wf_def prefix_from_def)

lemma prefix_masked_wf: "prefix_wf (prefix_masked p)"
  by (auto simp: prefix_masked_def) (simp add: prefix_wf_def no_prefix_def)

lemma no_prefix_invalid [simp]: "\<not> prefix_is_valid no_prefix"
  by (simp add: no_prefix_def prefix_is_valid_def)

lemma prefix_from_sel [simp]:
  "px_addr (prefix_from a b) = addr_without_zone a"
  by (simp add: prefix_from_def)

lemma all_ge_shift: "(\<forall>k\<ge>n. P k) \<longleftrightarrow> (\<forall>k. P (n + k :: nat))"
  by (metis le_add1 le_iff_add)

lemma xor_drop_bit_iff:
  "drop_bit n (v XOR w) = 0 \<longleftrightarrow> (\<forall>k\<ge>n. bit v k = bit w k)" for v w :: "'a::len word"
proof -
  have "bit (drop_bit n (v XOR w)) k = (bit v (n + k) \<noteq> bit w (n + k))" for k
    by (simp add: bit_drop_bit_eq bit_xor_iff del: drop_bit_xor)
  then have "drop_bit n (v XOR w) = 0 \<longleftrightarrow> (\<forall>k. bit v (n + k) = bit w (n + k))"
    by (simp only: bit_eq_iff[of "drop_bit n (v XOR w)" 0]) (auto dest: bit_imp_le_length)
  then show ?thesis by (simp only: all_ge_shift)
qed

lemma and_not_mask_iff:
  "v AND NOT (mask n) = w AND NOT (mask n) \<longleftrightarrow> (\<forall>k\<ge>n. bit v k = bit w k)" for v w :: "'a::len word"
proof -
  have b: "bit (u AND NOT (mask n)) k = (bit u k \<and> n \<le> k)" for u :: "'a word" and k
    using bit_imp_le_length[of u k] by (auto simp: bit_and_iff bit_not_iff bit_mask_iff)
  show ?thesis
    by (simp only: bit_eq_iff[of "v AND NOT (mask n)"] b) (auto dest: bit_imp_le_length)
qed

lemma xor_drop_bit_0:
  "drop_bit n (v XOR w) = 0 \<longleftrightarrow> v AND NOT (mask n) = w AND NOT (mask n)" for v w :: "'a::len word"
  by (simp only: xor_drop_bit_iff and_not_mask_iff)

end
