(* ===== verification/NetParse.thy ===== *)
theory NetParse
  imports Netip
begin

text \<open>
  Parsing and printing of addresses and prefixes as \<open>net/netip\<close> does it, and
  \<open>net.SplitHostPort\<close>. A parse error is \<open>None\<close>: the program only tests for it.
\<close>

section \<open>ParseAddr\<close>

text \<open>
  \<open>parseIPv4Fields\<close>: the previous byte, the value and digit count of the current octet,
  the octets so far, the rest of the text.
\<close>

fun parse4_fields :: "char option \<Rightarrow> nat \<Rightarrow> nat \<Rightarrow> bytes \<Rightarrow> string \<Rightarrow> bytes option" where
  "parse4_fields prev v dl fs [] = (if length fs < 3 then None else Some (fs @ [of_nat v]))"
| "parse4_fields prev v dl fs (c # s) =
     (if is_digit c then
        (if dl = 1 \<and> v = 0 then None
         else let v' = 10 * v + digit_val c
              in if 255 < v' then None else parse4_fields (Some c) v' (Suc dl) fs s)
      else if c = CHR ''.'' then
        (if prev = None \<or> s = [] \<or> prev = Some CHR ''.'' then None
         else if length fs = 3 then None
         else parse4_fields (Some c) 0 0 (fs @ [of_nat v]) s)
      else None)"

definition parse_ipv4 :: "string \<Rightarrow> addr option" where
  "parse_ipv4 s = map_option addr_from4 (parse4_fields None 0 0 [] s)"

definition hex_val :: "char \<Rightarrow> nat option" where
  "hex_val c =
     (let n = (of_char c :: nat)
      in if 48 \<le> n \<and> n \<le> 57 then Some (n - 48)
         else if 97 \<le> n \<and> n \<le> 102 then Some (n - 87)
         else if 65 \<le> n \<and> n \<le> 70 then Some (n - 55)
         else None)"

definition is_hex :: "char \<Rightarrow> bool" where
  "is_hex c \<longleftrightarrow> hex_val c \<noteq> None"

definition hex_num :: "string \<Rightarrow> nat" where
  "hex_num s = foldl (\<lambda>a c. 16 * a + the (hex_val c)) 0 s"

text \<open>
  The loop of \<open>parseIPv6\<close>: the 16-bit groups that still fit, the position of the
  ellipsis, the bytes so far, the rest of the text.
\<close>

fun parse6_loop ::
  "nat \<Rightarrow> nat option \<Rightarrow> bytes \<Rightarrow> string \<Rightarrow> (bytes \<times> nat option \<times> string) option" where
  "parse6_loop 0 ell acc s = Some (acc, ell, s)"
| "parse6_loop (Suc n) ell acc s =
     (let h = takeWhile is_hex s; r = dropWhile is_hex s
      in if h = [] \<or> 4 < length h then None
         else if r \<noteq> [] \<and> hd r = CHR ''.'' then
           (if ell = None \<and> length acc \<noteq> 12 then None
            else if 16 < length acc + 4 then None
            else case parse4_fields None 0 0 [] s of
                   None \<Rightarrow> None
                 | Some fs \<Rightarrow> Some (acc @ fs, ell, []))
         else
           let acc' = acc @ be_bytes 2 (of_nat (hex_num h) :: 16 word)
           in if r = [] then Some (acc', ell, [])
              else if hd r \<noteq> CHR '':'' \<or> length r = 1 then None
              else let s1 = tl r
                   in if hd s1 = CHR '':'' then
                        (if ell \<noteq> None then None
                         else let s2 = tl s1
                              in if s2 = [] then Some (acc', Some (length acc'), [])
                                 else parse6_loop n (Some (length acc')) acc' s2)
                      else parse6_loop n ell acc' s1)"

definition parse6_finish :: "string \<Rightarrow> bytes \<times> nat option \<times> string \<Rightarrow> addr option" where
  "parse6_finish zone r =
     (case r of (bs, ell, rest) \<Rightarrow>
        if rest \<noteq> [] then None
        else if length bs < 16 then
          (case ell of
             None \<Rightarrow> None
           | Some e \<Rightarrow>
               Some (Addr6 (be_word (take e bs @ replicate (16 - length bs) 0 @ drop e bs)) zone))
        else if ell \<noteq> None then None
        else Some (Addr6 (be_word bs) zone))"

definition parse_ipv6 :: "string \<Rightarrow> addr option" where
  "parse_ipv6 inp =
     (let (s, zone, bad) =
        (case index_byte CHR ''%'' inp of
           None \<Rightarrow> (inp, [], False)
         | Some i \<Rightarrow> (take i inp, drop (Suc i) inp, drop (Suc i) inp = []))
      in if bad then None
         else if has_prefix s ''::'' then
           (if length s = 2 then Some (Addr6 0 zone)
            else Option.bind (parse6_loop 8 (Some 0) [] (drop 2 s)) (parse6_finish zone))
         else Option.bind (parse6_loop 8 None [] s) (parse6_finish zone))"

definition parse_addr :: "string \<Rightarrow> addr option" where
  "parse_addr s =
     (case find (\<lambda>c. c \<in> set [CHR ''.'', CHR '':'', CHR ''%'']) s of
        None \<Rightarrow> None
      | Some c \<Rightarrow> if c = CHR ''.'' then parse_ipv4 s
                  else if c = CHR '':'' then parse_ipv6 s else None)"

section \<open>ParsePrefix, ParseAddrPort, SplitHostPort\<close>

definition parse_prefix :: "string \<Rightarrow> prefix option" where
  "parse_prefix s =
     (case last_index CHR ''/'' s of
        None \<Rightarrow> None
      | Some i \<Rightarrow>
          (case parse_addr (take i s) of
             None \<Rightarrow> None
           | Some a \<Rightarrow>
               let bs = drop (Suc i) s
               in if addr_zone a \<noteq> [] then None
                  else if 1 < length bs \<and> \<not> (is_digit (hd bs) \<and> hd bs \<noteq> CHR ''0'') then None
                  else case atoi bs of
                         None \<Rightarrow> None
                       | Some b \<Rightarrow> if b < 0 \<or> int (addr_bitlen a) < b then None
                                   else Some (prefix_from a b)))"

definition parse_addr_port :: "string \<Rightarrow> (addr \<times> nat) option" where
  "parse_addr_port s =
     (case last_index CHR '':'' s of
        None \<Rightarrow> None
      | Some i \<Rightarrow>
          let ip = take i s; port = drop (Suc i) s
          in if ip = [] \<or> port = [] then None
             else if hd ip = CHR ''['' then
               (if length ip < 2 \<or> last ip \<noteq> CHR '']'' then None
                else case (parse_uint16 port, parse_addr (butlast (tl ip))) of
                       (Some n, Some a) \<Rightarrow> if addr_is4 a then None else Some (a, n)
                     | _ \<Rightarrow> None)
             else case (parse_uint16 port, parse_addr ip) of
                    (Some n, Some a) \<Rightarrow> if addr_is6 a then None else Some (a, n)
                  | _ \<Rightarrow> None)"

definition split_host_port :: "string \<Rightarrow> (string \<times> string) option" where
  "split_host_port s =
     (case last_index CHR '':'' s of
        None \<Rightarrow> None
      | Some i \<Rightarrow>
          if hd s = CHR ''['' then
            (case index_byte CHR '']'' s of
               None \<Rightarrow> None
             | Some e \<Rightarrow>
                 if Suc e \<noteq> i then None
                 else if CHR ''['' \<in> set (drop 1 s) \<or> CHR '']'' \<in> set (drop (Suc e) s) then None
                 else Some (take (e - 1) (drop 1 s), drop (Suc i) s))
          else if CHR '':'' \<in> set (take i s) then None
          else if CHR ''['' \<in> set s \<or> CHR '']'' \<in> set s then None
          else Some (take i s, drop (Suc i) s))"

section \<open>Printing\<close>

definition dotted :: "32 word \<Rightarrow> string" where
  "dotted w =
     (case map (\<lambda>b. nat_str (unat b)) (be_bytes 4 w) of
        [a, b, c, d] \<Rightarrow> a @ ''.'' @ b @ ''.'' @ c @ ''.'' @ d
      | _ \<Rightarrow> [])"

definition hex_char :: "nat \<Rightarrow> char" where
  "hex_char n = (if n < 10 then char_of (48 + n) else char_of (87 + n))"

fun hex_str :: "nat \<Rightarrow> string" where
  "hex_str n = (if n < 16 then [hex_char n] else hex_str (n div 16) @ [hex_char (n mod 16)])"

declare hex_str.simps [simp del]

definition groups6 :: "128 word \<Rightarrow> nat list" where
  "groups6 w = map (\<lambda>i. unat (ucast (drop_bit (16 * (7 - i)) w) :: 16 word)) [0..<8]"

text \<open>The first longest run of at least two zero groups, as (start, end).\<close>

definition zero_run :: "nat list \<Rightarrow> nat \<Rightarrow> nat" where
  "zero_run gs i = length (takeWhile (\<lambda>g. g = 0) (drop i gs))"

definition longest_zero_run :: "nat list \<Rightarrow> (nat \<times> nat) option" where
  "longest_zero_run gs =
     foldl (\<lambda>best i. let l = zero_run gs i
                      in if 2 \<le> l \<and> (case best of None \<Rightarrow> True | Some (s, e) \<Rightarrow> e - s < l)
                         then Some (i, i + l) else best)
           None [0..<8]"

fun join_groups :: "nat list \<Rightarrow> string" where
  "join_groups [] = []"
| "join_groups [g] = hex_str g"
| "join_groups (g # gs) = hex_str g @ CHR '':'' # join_groups gs"

definition string6 :: "128 word \<Rightarrow> string" where
  "string6 w =
     (let gs = groups6 w
      in case longest_zero_run gs of
           None \<Rightarrow> join_groups gs
         | Some (s, e) \<Rightarrow> join_groups (take s gs) @ ''::'' @ join_groups (drop e gs))"

fun addr_string :: "addr \<Rightarrow> string" where
  "addr_string NoAddr = ''invalid IP''"
| "addr_string (Addr4 w) = dotted w"
| "addr_string (Addr6 w z) =
     (if drop_bit 32 w = 0xffff then ''::ffff:'' @ dotted (ucast w) else string6 w)
     @ (if z = [] then [] else CHR ''%'' # z)"

definition prefix_string :: "prefix \<Rightarrow> string" where
  "prefix_string p =
     (if prefix_is_valid p then addr_string (px_addr p) @ CHR ''/'' # itoa (px_bits p)
      else ''invalid Prefix'')"

section \<open>Facts\<close>

lemma parse_addr_valid: "parse_addr s = Some a \<Longrightarrow> addr_is_valid a"
  by (auto simp: parse_addr_def parse_ipv4_def parse_ipv6_def addr_from4_def parse6_finish_def Let_def
           split: option.splits if_splits bind_splits prod.splits)

lemma parse_prefix_wf: "parse_prefix s = Some p \<Longrightarrow> prefix_wf p \<and> prefix_is_valid p"
  using parse_addr_valid
  by (auto simp: parse_prefix_def Let_def prefix_is_valid_def prefix_from_def prefix_wf_def
           split: option.splits if_splits)

lemma parse_addr_port_has_port:
  "parse_addr_port s = Some r \<Longrightarrow> \<exists>i. last_index CHR '':'' s = Some i \<and> drop (Suc i) s \<noteq> []"
  by (auto simp: parse_addr_port_def Let_def split: option.splits if_splits)

section \<open>ParseIP\<close>

text \<open>\<open>net.ParseIP\<close> takes no zone; \<open>To4\<close> reads an IPv4-mapped address as IPv4.\<close>

definition parse_ip :: "string \<Rightarrow> addr option" where
  "parse_ip s = (case parse_addr s of None \<Rightarrow> None | Some a \<Rightarrow> if addr_zone a \<noteq> [] then None else Some a)"

fun to4 :: "addr \<Rightarrow> string option" where
  "to4 (Addr4 w) = Some (addr_string (Addr4 w))"
| "to4 (Addr6 w z) = (if addr_is4in6 (Addr6 w z) then Some (addr_string (Addr4 (ucast w))) else None)"
| "to4 NoAddr = None"

end
