(* ===== verification/ServerAddr.thy ===== *)
theory ServerAddr
  imports NetParse
begin

text \<open>
  The address helpers of the server (\<open>cmd/poc-server/main.go\<close>): \<open>lastIPOfPrefix\<close>,
  \<open>dstIP\<close> and \<open>ipVersion\<close>, with the facts about byte arrays they need.
\<close>

section \<open>lastIPOfPrefix\<close>

text \<open>One iteration of the loop: \<open>bytes[last - i/8] |= 1 << (i % 8)\<close>.\<close>

definition or_bit :: "nat \<Rightarrow> bytes \<Rightarrow> nat \<Rightarrow> bytes" where
  "or_bit l bs i = bs[l - i div 8 := bs ! (l - i div 8) OR push_bit (i mod 8) 1]"

text \<open>
  \<open>None\<close> is the index panic of an invalid prefix: its \<open>Bits\<close> is -1, so the loop would
  run to i = 128 and index -1.
\<close>

definition lastIPOfPrefix :: "prefix \<Rightarrow> addr option" where
  "lastIPOfPrefix p =
     (let p = prefix_masked p; a = px_addr p; bits = px_bits p
      in if bits < 0 then None
         else if addr_is4 a then
           Some (addr_from4 (foldl (or_bit 3) (addr_as4 a) [0..<nat (32 - bits)]))
         else
           Some (addr_from16 (foldl (or_bit 15) (addr_as16 a) [0..<nat (128 - bits)])))"

lemma length_or_bit [simp]: "length (or_bit l bs i) = length bs"
  by (simp add: or_bit_def)

lemma length_or_bits [simp]: "length (foldl (or_bit l) bs is) = length bs"
  by (induction "is" arbitrary: bs) auto

lemma be_word_or_bit:
  assumes "length bs = Suc l" and "LENGTH('a) = 8 * Suc l" and "i < 8 * Suc l"
  shows "be_word (or_bit l bs i) = (be_word bs OR push_bit i 1 :: 'a::len word)"
proof (rule bit_word_eqI)
  fix k assume k: "k < LENGTH('a)"
  have kd: "k div 8 \<le> l" and idiv: "i div 8 \<le> l" using k assms by auto
  have same: "(l - i div 8 = l - k div 8) = (i div 8 = k div 8)" using kd idiv by auto
  have pos: "i div 8 = k div 8 \<Longrightarrow> (i mod 8 = k mod 8) = (i = k)"
    by (metis div_mult_mod_eq)
  have m8: "i mod 8 < 8" "k mod 8 < 8" by simp_all
  have one: "bit (2 ^ j :: 8 word) n = (n = j \<and> n < 8)" for j n
    by (auto simp: bit_exp_iff)
  have one': "bit (2 ^ i :: 'a word) k = (k = i)"
    using k by (auto simp: bit_exp_iff)
  show "bit (be_word (or_bit l bs i) :: 'a word) k = bit (be_word bs OR push_bit i 1 :: 'a word) k"
  proof (cases "i div 8 = k div 8")
    case True
    with assms k kd m8 pos show ?thesis
      by (auto simp: bit_be_word or_bit_def bit_or_iff one one')
  next
    case False
    with assms k kd same show ?thesis
      by (auto simp: bit_be_word or_bit_def bit_or_iff one')
  qed
qed

lemma or_push_bit_mask: "mask n OR push_bit n 1 = (mask (Suc n) :: 'a::len word)"
  by (rule bit_word_eqI) (auto simp: bit_or_iff bit_mask_iff bit_exp_iff)

lemma be_word_or_bits:
  assumes "length bs = Suc l" and "LENGTH('a) = 8 * Suc l" and "n \<le> 8 * Suc l"
  shows "be_word (foldl (or_bit l) bs [0..<n]) = (be_word bs OR mask n :: 'a::len word)"
  using assms(3)
proof (induction n)
  case 0
  then show ?case by simp
next
  case (Suc n)
  have "be_word (foldl (or_bit l) bs [0..<Suc n]) =
        (be_word (foldl (or_bit l) bs [0..<n]) OR push_bit n 1 :: 'a word)"
    using Suc.prems assms(1,2) by (simp add: be_word_or_bit)
  also have "\<dots> = (be_word bs OR mask n) OR push_bit n 1" using Suc by simp
  also have "\<dots> = be_word bs OR mask (Suc n)" by (simp only: or.assoc or_push_bit_mask)
  finally show ?case .
qed

lemma lastIP_Addr4:
  assumes "px_addr p = Addr4 w" and "0 \<le> px_bits p" and "px_bits p \<le> 32"
  shows "lastIPOfPrefix p = Some (Addr4 (w OR host_mask 32 (px_bits p)))"
proof -
  let ?n = "nat (32 - px_bits p)" and ?v = "w AND NOT (host_mask 32 (px_bits p))"
  have n: "?n = 32 - nat (px_bits p)" "?n \<le> 8 * Suc 3" using assms by auto
  have "be_word (foldl (or_bit 3) (be_bytes 4 ?v) [0..<?n]) = (be_word (be_bytes 4 ?v) OR mask ?n :: 32 word)"
    by (rule be_word_or_bits) (use n in simp_all)
  also have "\<dots> = ?v OR mask ?n" by (simp add: be_word_bytes)
  also have "\<dots> = w OR mask ?n"
    unfolding n(1) host_mask_def by (simp add: or.commute bit.disj_conj_distrib)
  finally show ?thesis using assms n
    by (simp add: lastIPOfPrefix_def Let_def prefix_masked_def prefix_is_valid_def prefix_from_def
        addr_from4_def host_mask_def)
qed

lemma lastIP_Addr6:
  assumes "px_addr p = Addr6 w z" and "0 \<le> px_bits p" and "px_bits p \<le> 128"
  shows "lastIPOfPrefix p = Some (Addr6 (w OR host_mask 128 (px_bits p)) [])"
proof -
  let ?n = "nat (128 - px_bits p)" and ?v = "w AND NOT (host_mask 128 (px_bits p))"
  have n: "?n = 128 - nat (px_bits p)" "?n \<le> 8 * Suc 15" using assms by auto
  have "be_word (foldl (or_bit 15) (be_bytes 16 ?v) [0..<?n]) = (be_word (be_bytes 16 ?v) OR mask ?n :: 128 word)"
    by (rule be_word_or_bits) (use n in simp_all)
  also have "\<dots> = ?v OR mask ?n" by (simp add: be_word_bytes)
  also have "\<dots> = w OR mask ?n"
    unfolding n(1) host_mask_def by (simp add: or.commute bit.disj_conj_distrib)
  finally show ?thesis using assms n
    by (simp add: lastIPOfPrefix_def Let_def prefix_masked_def prefix_is_valid_def prefix_from_def
        addr_from16_def host_mask_def)
qed

lemma bits_subset_le: "(\<And>k. bit b k \<Longrightarrow> bit a k) \<Longrightarrow> b \<le> a" for a b :: "'a::len word"
proof -
  assume "\<And>k. bit b k \<Longrightarrow> bit a k"
  then have "a AND b = b" by (intro bit_word_eqI) (auto simp: bit_and_iff)
  then show ?thesis by (metis word_and_le2)
qed

lemma or_mask_same_high: "drop_bit n (w XOR (w OR mask n)) = 0" for w :: "'a::len word"
  by (simp only: xor_drop_bit_iff) (simp add: bit_or_iff bit_mask_iff)

lemma same_high_le: "drop_bit n (w XOR b) = 0 \<Longrightarrow> b \<le> w OR mask n" for w b :: "'a::len word"
proof (rule bits_subset_le)
  fix k assume "drop_bit n (w XOR b) = 0" "bit b k"
  then show "bit (w OR mask n) k"
    using bit_imp_le_length[of b k]
    by (cases "n \<le> k") (auto simp: bit_or_iff bit_mask_iff xor_drop_bit_iff simp del: drop_bit_xor)
qed

text \<open>The addresses of a masked prefix are the interval from its network to its last address.\<close>

lemma drop_bit_word_mono: "v \<le> w \<Longrightarrow> drop_bit n v \<le> drop_bit n w" for v w :: "'a::len word"
  by (simp only: word_le_nat_alt unat_drop_bit_eq drop_bit_eq_div[of n "unat v"] drop_bit_eq_div[of n "unat w"]
      div_le_mono)

lemma between_same_high:
  fixes w v :: "'a::len word"
  assumes "w \<le> v" "v \<le> w OR mask n"
  shows "drop_bit n (w XOR v) = 0"
proof -
  have "drop_bit n (w OR mask n) = drop_bit n w"
    by (rule bit_word_eqI) (auto simp: bit_drop_bit_eq bit_or_iff bit_mask_iff)
  with drop_bit_word_mono[OF assms(1), of n] drop_bit_word_mono[OF assms(2), of n]
  have "drop_bit n v = drop_bit n w" by simp
  then show ?thesis by simp
qed

lemma masked_range_iff:
  assumes "w AND NOT (mask n) = (w :: 'a::len word)"
  shows "drop_bit n (w XOR v) = 0 \<longleftrightarrow> w \<le> v \<and> v \<le> w OR mask n"
proof
  assume h: "drop_bit n (w XOR v) = 0"
  then have "w = v AND NOT (mask n)" using assms by (simp only: xor_drop_bit_0)
  then show "w \<le> v \<and> v \<le> w OR mask n" using h same_high_le word_and_le2 by blast
next
  assume "w \<le> v \<and> v \<le> w OR mask n"
  then show "drop_bit n (w XOR v) = 0" using between_same_high by blast
qed

lemma word_succ_facts:
  assumes "(w :: 'a::len word) < b"
  shows "w + 1 \<noteq> 0" "unat (w + 1) = unat w + 1" "w + 1 \<le> v \<longleftrightarrow> w < v"
proof -
  show n0: "w + 1 \<noteq> 0"
  proof
    assume "w + 1 = 0"
    then have "w = -1" by (simp add: eq_neg_iff_add_eq_0)
    with assms show False by (simp add: word_order.extremum_strict not_less)
  qed
  show u: "unat (w + 1) = unat w + 1"
    using n0 by (metis unatSuc add.commute Suc_eq_plus1)
  show "w + 1 \<le> v \<longleftrightarrow> w < v"
    by (simp add: word_le_nat_alt word_less_nat_alt u Suc_le_eq)
qed

section \<open>dstIP and ipVersion\<close>

definition byte_at :: "bytes \<Rightarrow> nat \<Rightarrow> byte" where
  "byte_at bs i = (if i < length bs then bs ! i else 0)"

definition slice :: "nat \<Rightarrow> nat \<Rightarrow> 'a list \<Rightarrow> 'a list" where
  "slice i j xs = take (j - i) (drop i xs)"

lemma length_slice [simp]: "j \<le> length xs \<Longrightarrow> i \<le> j \<Longrightarrow> length (slice i j xs) = j - i"
  by (simp add: slice_def)

lemma nth_slice: "i + k < j \<Longrightarrow> j \<le> length xs \<Longrightarrow> slice i j xs ! k = xs ! (i + k)"
  by (simp add: slice_def)

definition ip_version :: "bytes \<Rightarrow> byte" where
  "ip_version b = (if b = [] then 0 else drop_bit 4 (hd b))"

definition dstIP :: "bytes \<Rightarrow> addr option" where
  "dstIP pkt =
     (if length pkt < 1 then None
      else if drop_bit 4 (pkt ! 0) = 4 then
        (if length pkt < 20 then None
         else Some (addr_from4 [pkt ! 16, pkt ! 17, pkt ! 18, pkt ! 19]))
      else if drop_bit 4 (pkt ! 0) = 6 then
        (if length pkt < 40 then None else Some (addr_from16 (slice 24 40 pkt)))
      else None)"

lemma dstIP_Some_version:
  "dstIP pkt = Some a \<Longrightarrow>
     (ip_version pkt = 4 \<and> 20 \<le> length pkt \<and> addr_is4 a) \<or>
     (ip_version pkt = 6 \<and> 40 \<le> length pkt \<and> addr_is6 a)"
  by (cases pkt) (auto simp: dstIP_def ip_version_def addr_from4_def addr_from16_def split: if_splits)

text \<open>
  The last address of a prefix is in the prefix and no address of the prefix is above
  it, for IPv4 and IPv6: the byte loop of \<open>lastIPOfPrefix\<close> computes the broadcast address.
\<close>

theorem lastIP_is_greatest:
  assumes "prefix_wf p" and "prefix_is_valid p"
  shows "\<exists>a. lastIPOfPrefix p = Some a \<and> prefix_contains p a \<and>
             (\<forall>b. prefix_contains p b \<longrightarrow> b \<le> a)"
proof (cases "px_addr p")
  case NoAddr
  with assms show ?thesis by (simp add: prefix_wf_def prefix_is_valid_def)
next
  case (Addr4 w)
  with assms have "lastIPOfPrefix p = Some (Addr4 (w OR host_mask 32 (px_bits p)))"
    by (intro lastIP_Addr4) (auto simp: prefix_wf_def prefix_is_valid_def)
  moreover have "prefix_contains p (Addr4 (w OR host_mask 32 (px_bits p)))"
    using Addr4 assms or_mask_same_high[of _ w] by (simp add: prefix_contains.simps host_mask_def del: drop_bit_xor)
  moreover have "b \<le> Addr4 (w OR host_mask 32 (px_bits p))" if "prefix_contains p b" for b
    using that Addr4 same_high_le[of _ w] by (cases b) (auto simp: prefix_contains.simps host_mask_def simp del: drop_bit_xor)
  ultimately show ?thesis by blast
next
  case (Addr6 w z)
  with assms have "lastIPOfPrefix p = Some (Addr6 (w OR host_mask 128 (px_bits p)) [])"
    by (intro lastIP_Addr6) (auto simp: prefix_wf_def prefix_is_valid_def)
  moreover have "prefix_contains p (Addr6 (w OR host_mask 128 (px_bits p)) [])"
    using Addr6 assms or_mask_same_high[of _ w] by (simp add: prefix_contains.simps host_mask_def del: drop_bit_xor)
  moreover have "b \<le> Addr6 (w OR host_mask 128 (px_bits p)) []" if "prefix_contains p b" for b
    using that Addr6 same_high_le[of _ w] by (cases b) (auto simp: prefix_contains.simps host_mask_def simp del: drop_bit_xor)
  ultimately show ?thesis by blast
qed

theorem lastIP_is_greatest_witness:
  "\<exists>a. lastIPOfPrefix (prefix_from (Addr4 0x0a080000) 24) = Some a \<and>
       prefix_contains (prefix_from (Addr4 0x0a080000) 24) a \<and>
       (\<forall>b. prefix_contains (prefix_from (Addr4 0x0a080000) 24) b \<longrightarrow> b \<le> a)"
  by (rule lastIP_is_greatest) (simp_all add: prefix_from_def prefix_is_valid_def prefix_wf_def)

end
