(* ===== verification/IPPool.thy ===== *)
theory IPPool
  imports ServerAddr
begin

text \<open>
  The address pool of the server (\<open>cmd/poc-server/ippool.go\<close>). Every method runs under
  the pool's mutex, so it is one atomic function from the pool to the pool and its result.
  The key facts: the pool invariant and its preservation, what an allocation returns on
  each branch, and when the pool reports exhaustion.
\<close>

section \<open>State\<close>

type_synonym lease_id = "64 word"

record pool =
  pl_prefix :: prefix
  pl_server :: addr
  pl_is4 :: bool
  pl_free :: "addr list"
  pl_next :: addr
  pl_inUse :: "addr \<rightharpoonup> bool"
  pl_prefixOf :: "addr \<rightharpoonup> prefix"
  pl_sticky :: "string \<rightharpoonup> addr"
  pl_lease :: "string \<rightharpoonup> lease_id"
  pl_nextLease :: lease_id

datatype pool_error = PoolParse | PoolFamily | PoolServerOutside | PoolNoAddrs | PoolExhausted | PoolPanic

definition maxIPv6Search :: nat where
  "maxIPv6Search = 65536"

section \<open>Construction\<close>

text \<open>
  The enumeration loop of \<open>NewIPPool\<close>, from the address after the network address to the
  one before the broadcast address.
\<close>

function host_loop :: "addr \<Rightarrow> addr \<Rightarrow> addr \<Rightarrow> addr list" where
  "host_loop bc server a =
     (if addr_is4 a \<and> a < bc then (if a \<noteq> server then [a] else []) @ host_loop bc server (addr_next a)
      else [])"
  by pat_completeness auto
termination
proof (relation "measure (\<lambda>(bc, server, a). case a of Addr4 w \<Rightarrow> 2 ^ 32 - unat w | _ \<Rightarrow> 0)")
  fix bc server a assume "addr_is4 a \<and> a < bc"
  then obtain w where w: "a = Addr4 w" by (cases a) auto
  have lt: "unat w < 2 ^ 32" using unsigned_less[of w] by simp
  show "((bc, server, addr_next a), (bc, server, a))
    \<in> measure (\<lambda>(bc, server, a). case a of Addr4 w \<Rightarrow> 2 ^ 32 - unat w | _ \<Rightarrow> 0)"
  proof (cases "w + 1 = 0")
    case True
    with w lt show ?thesis by simp
  next
    case False
    then have "unat (w + 1) = unat w + 1" by (metis unat_plus_simple unatSuc add.commute Suc_eq_plus1)
    with w False lt show ?thesis by simp
  qed
qed simp

declare host_loop.simps [simp del]

definition firstIPv6Candidate :: "prefix \<Rightarrow> addr \<Rightarrow> addr" where
  "firstIPv6Candidate pfx server =
     (let a = addr_next (px_addr pfx);
          a = (if a = server then addr_next a else a)
      in if \<not> prefix_contains pfx a then NoAddr else a)"

definition NewIPPool :: "string \<Rightarrow> addr \<Rightarrow> pool_error + pool" where
  "NewIPPool poolCIDR serverAddr =
     (case parse_prefix poolCIDR of
        None \<Rightarrow> Inl PoolParse
      | Some pfx0 \<Rightarrow>
          let pfx = prefix_masked pfx0
          in if addr_is4 (px_addr pfx) \<noteq> addr_is4 serverAddr then Inl PoolFamily
             else if \<not> prefix_contains pfx serverAddr then Inl PoolServerOutside
             else
               let p = \<lparr>pl_prefix = pfx, pl_server = serverAddr, pl_is4 = addr_is4 (px_addr pfx),
                        pl_free = [], pl_next = NoAddr, pl_inUse = Map.empty,
                        pl_prefixOf = Map.empty, pl_sticky = Map.empty, pl_lease = Map.empty,
                        pl_nextLease = 0\<rparr>
               in if pl_is4 p then
                    (case lastIPOfPrefix pfx of
                       None \<Rightarrow> Inl PoolPanic
                     | Some broadcast \<Rightarrow>
                         let p = p\<lparr>pl_free := host_loop broadcast serverAddr (addr_next (px_addr pfx))\<rparr>
                         in if pl_free p = [] then Inl PoolNoAddrs else Inr p)
                  else
                    let p = p\<lparr>pl_next := firstIPv6Candidate pfx serverAddr\<rparr>
                    in if \<not> addr_is_valid (pl_next p) then Inl PoolNoAddrs else Inr p)"

section \<open>Allocation and release\<close>

definition takeFree :: "pool \<Rightarrow> addr \<Rightarrow> pool" where
  "takeFree p a = p\<lparr>pl_free := remove1 a (pl_free p)\<rparr>"

definition hostPrefix :: "pool \<Rightarrow> addr \<Rightarrow> prefix" where
  "hostPrefix p a = prefix_from a (if pl_is4 p then 32 else 128)"

abbreviation in_use :: "pool \<Rightarrow> addr \<Rightarrow> bool" where
  "in_use p a \<equiv> go_get False (pl_inUse p) a"

text \<open>The IPv6 search loop: the iterations left, the loop counter, the cursor at its start.\<close>

fun alloc6_loop :: "nat \<Rightarrow> nat \<Rightarrow> addr \<Rightarrow> pool \<Rightarrow> pool \<times> addr option" where
  "alloc6_loop 0 i start p = (p, None)"
| "alloc6_loop (Suc n) i start p =
     (let outside = \<not> prefix_contains (pl_prefix p) (pl_next p);
          p = (if outside then p\<lparr>pl_next := firstIPv6Candidate (pl_prefix p) (pl_server p)\<rparr> else p)
      in if outside \<and> \<not> addr_is_valid (pl_next p) then (p, None)
         else
           let a = pl_next p; p = p\<lparr>pl_next := addr_next a\<rparr>
           in if a = pl_server p \<or> in_use p a then
                (if pl_next p = start \<or> (0 < i \<and> a = start) then (p, None)
                 else alloc6_loop n (Suc i) start p)
              else (p, Some a))"

definition allocFreshLocked :: "pool \<Rightarrow> pool \<times> addr option" where
  "allocFreshLocked p =
     (if pl_is4 p then
        (if pl_free p = [] then (p, None)
         else (p\<lparr>pl_free := butlast (pl_free p)\<rparr>, Some (last (pl_free p))))
      else alloc6_loop maxIPv6Search 0 (pl_next p) p)"

definition mark_used :: "pool \<Rightarrow> addr \<Rightarrow> pool" where
  "mark_used p a = p\<lparr>pl_inUse := (pl_inUse p)(a \<mapsto> True),
                     pl_prefixOf := (pl_prefixOf p)(a \<mapsto> hostPrefix p a)\<rparr>"

definition AllocateFor :: "pool \<Rightarrow> string \<Rightarrow> pool \<times> (pool_error + prefix \<times> lease_id)" where
  "AllocateFor p cid =
     (let p = p\<lparr>pl_nextLease := pl_nextLease p + 1\<rparr>;
          lease = pl_nextLease p;
          p = (if cid \<noteq> [] then p\<lparr>pl_lease := (pl_lease p)(cid \<mapsto> lease)\<rparr> else p)
      in case (if cid \<noteq> [] then pl_sticky p cid else None) of
           Some pref \<Rightarrow>
             let p = mark_used (takeFree p pref) pref
             in (p, Inr (hostPrefix p pref, lease))
         | None \<Rightarrow>
             (case allocFreshLocked p of
                (p, None) \<Rightarrow> (p, Inl PoolExhausted)
              | (p, Some a) \<Rightarrow>
                  let p = mark_used p a;
                      p = (if cid \<noteq> [] then p\<lparr>pl_sticky := (pl_sticky p)(cid \<mapsto> a)\<rparr> else p)
                  in (p, Inr (hostPrefix p a, lease))))"

definition Release :: "pool \<Rightarrow> string \<Rightarrow> lease_id \<Rightarrow> prefix \<Rightarrow> pool" where
  "Release p cid lease pfx =
     (let a = px_addr pfx
      in if cid \<noteq> [] \<and> go_get 0 (pl_lease p) cid \<noteq> lease then p
         else
           let p = (if cid \<noteq> [] then p\<lparr>pl_lease := (pl_lease p)(cid := None)\<rparr> else p)
           in if \<not> in_use p a then p
              else
                let p = p\<lparr>pl_inUse := (pl_inUse p)(a := None), pl_prefixOf := (pl_prefixOf p)(a := None)\<rparr>
                in if pl_is4 p then p\<lparr>pl_free := pl_free p @ [a]\<rparr> else p)"

definition Available :: "pool \<Rightarrow> int" where
  "Available p =
     (if pl_is4 p then int (length (pl_free p))
      else if addr_is_valid (pl_next p) \<and> prefix_contains (pl_prefix p) (pl_next p) then 1 else 0)"

section \<open>Hosts and the pool invariant\<close>

text \<open>The addresses a pool may hand out.\<close>

fun hosts_of :: "addr \<Rightarrow> int \<Rightarrow> addr set" where
  "hosts_of (Addr4 w) b = {Addr4 v | v. w < v \<and> v < (w OR host_mask 32 b)}"
| "hosts_of (Addr6 w z) b = {Addr6 v [] | v. w < v \<and> v \<le> (w OR host_mask 128 b)}"
| "hosts_of NoAddr b = {}"

definition pool_hosts :: "pool \<Rightarrow> addr set" where
  "pool_hosts p = hosts_of (px_addr (pl_prefix p)) (px_bits (pl_prefix p)) - {pl_server p}"

definition used_set :: "pool \<Rightarrow> addr set" where
  "used_set p = {a. in_use p a}"

text \<open>
  The IPv6 cursor is a candidate of the prefix or just past its last address. \<open>cursor l k\<close>
  is the address at position \<open>k\<close>, position \<open>unat l + 1\<close> being the one past the last.
\<close>

definition cursor :: "128 word \<Rightarrow> nat \<Rightarrow> addr" where
  "cursor l k = (if unat l < k then addr_next (Addr6 l []) else Addr6 (of_nat k) [])"

definition v6_layout :: "pool \<Rightarrow> 128 word \<Rightarrow> 128 word \<Rightarrow> bool" where
  "v6_layout p f l \<longleftrightarrow>
     firstIPv6Candidate (pl_prefix p) (pl_server p) = Addr6 f [] \<and> f \<le> l \<and>
     (\<forall>v. prefix_contains (pl_prefix p) (Addr6 v []) \<and> f \<le> v \<longleftrightarrow> f \<le> v \<and> v \<le> l) \<and>
     pool_hosts p = {Addr6 v [] | v. f \<le> v \<and> v \<le> l} - {pl_server p}"

definition cursor_ok :: "pool \<Rightarrow> bool" where
  "cursor_ok p \<longleftrightarrow>
     (\<exists>f l k. v6_layout p f l \<and> unat f \<le> k \<and> k \<le> Suc (unat l) \<and> pl_next p = cursor l k)"

definition pool_shape :: "pool \<Rightarrow> bool" where
  "pool_shape p \<longleftrightarrow>
     prefix_wf (pl_prefix p) \<and> prefix_is_valid (pl_prefix p) \<and>
     prefix_masked (pl_prefix p) = pl_prefix p \<and>
     pl_is4 p = addr_is4 (px_addr (pl_prefix p))"

definition pool_inv :: "pool \<Rightarrow> bool" where
  "pool_inv p \<longleftrightarrow>
     pool_shape p \<and> used_set p \<subseteq> pool_hosts p \<and> ran (pl_sticky p) \<subseteq> pool_hosts p \<and>
     distinct (pl_free p) \<and>
     (if pl_is4 p then set (pl_free p) = pool_hosts p - used_set p
      else pl_free p = [] \<and> cursor_ok p) \<and>
     (\<forall>a. pl_prefixOf p a = (if in_use p a then Some (hostPrefix p a) else None))"

section \<open>The enumeration of IPv4 hosts\<close>

lemma host_loop_hosts:
  "set (host_loop (Addr4 b) srv (Addr4 w)) = {Addr4 v | v. w \<le> v \<and> v < b} - {srv} \<and>
   distinct (host_loop (Addr4 b) srv (Addr4 w))"
proof (induction "unat b - unat w" arbitrary: w rule: less_induct)
  case less
  show ?case
  proof (cases "w < b")
    case False
    then show ?thesis by (auto simp: host_loop.simps)
  next
    case True
    note s = word_succ_facts[OF True]
    have "unat b - unat (w + 1) < unat b - unat w" using True s(2) by (simp add: word_less_nat_alt)
    from less[OF this]
    have IH: "set (host_loop (Addr4 b) srv (Addr4 (w + 1))) = {Addr4 v | v. w < v \<and> v < b} - {srv}"
      "distinct (host_loop (Addr4 b) srv (Addr4 (w + 1)))" by (simp_all add: s(3))
    have step: "host_loop (Addr4 b) srv (Addr4 w) =
      (if Addr4 w \<noteq> srv then [Addr4 w] else []) @ host_loop (Addr4 b) srv (Addr4 (w + 1))"
      using True s(1) by (subst host_loop.simps) simp
    have "{Addr4 v | v. w \<le> v \<and> v < b} = insert (Addr4 w) {Addr4 v | v. w < v \<and> v < b}"
      using True by (auto simp: order_le_less)
    with IH show ?thesis unfolding step by auto
  qed
qed

lemma host_loop_NoAddr [simp]: "host_loop bc srv NoAddr = []"
  by (subst host_loop.simps) simp

lemma host_loop_next:
  "set (host_loop (Addr4 b) srv (addr_next (Addr4 w))) = hosts_of_range w b - {srv} \<and>
   distinct (host_loop (Addr4 b) srv (addr_next (Addr4 w)))"
  if "hosts_of_range = (\<lambda>w b. {Addr4 v | v. w < v \<and> v < b})"
proof (cases "w + 1 = 0")
  case True
  then have "w = -1" by (simp add: eq_neg_iff_add_eq_0)
  with True that show ?thesis by (auto simp: word_order.extremum_strict)
next
  case False
  have "w + 1 \<le> v \<longleftrightarrow> w < v" for v
    using False by (metis word_le_nat_alt word_less_nat_alt unatSuc add.commute Suc_le_eq)
  with False that host_loop_hosts[of b srv "w + 1"] show ?thesis by simp
qed

section \<open>Construction establishes the invariant\<close>

lemma masked_idem: "addr_masked (addr_masked a b) b = addr_masked a b"
  by (cases a) (auto simp: and.assoc)

lemma prefix_masked_idem:
  assumes "prefix_wf p"
  shows "prefix_masked (prefix_masked p) = prefix_masked p"
  using assms
  by (cases "px_addr p")
     (auto simp: prefix_masked_def prefix_from_def prefix_is_valid_def no_prefix_def prefix_wf_def and.assoc)

lemma masked_valid:
  assumes "prefix_wf p" "prefix_is_valid p"
  shows "prefix_is_valid (prefix_masked p)"
  using assms
  by (cases "px_addr p") (simp_all add: prefix_masked_def prefix_from_def prefix_is_valid_def prefix_wf_def)

lemma masked_addr4:
  "prefix_masked p = p \<Longrightarrow> prefix_is_valid p \<Longrightarrow> px_addr p = Addr4 w \<Longrightarrow> w AND NOT (host_mask 32 (px_bits p)) = w"
  by (simp add: prefix_masked_def prefix_from_def)
     (metis (no_types, lifting) addr.inject(1) addr_masked.simps(2) addr_without_zone.simps(3) prefix.select_convs(1))

lemma masked_addr6:
  "prefix_masked p = p \<Longrightarrow> prefix_is_valid p \<Longrightarrow> px_addr p = Addr6 w z \<Longrightarrow>
     w AND NOT (host_mask 128 (px_bits p)) = w \<and> z = []"
  by (simp add: prefix_masked_def prefix_from_def)
     (metis (no_types, lifting) addr.inject(2) addr_masked.simps(3) addr_without_zone.simps(1) prefix.select_convs(1))

lemma contains6_iff:
  assumes "prefix_masked p = p" "prefix_is_valid p" "px_addr p = Addr6 w z"
  shows "prefix_contains p (Addr6 v y) \<longleftrightarrow> y = [] \<and> w \<le> v \<and> v \<le> w OR host_mask 128 (px_bits p)"
  using assms(2,3) masked_range_iff[OF masked_addr6[OF assms, THEN conjunct1, unfolded host_mask_def]]
  by (auto simp: prefix_contains.simps host_mask_def simp del: drop_bit_xor)

lemma contains6_other:
  "px_addr p = Addr6 w z \<Longrightarrow> prefix_contains p a \<Longrightarrow> \<exists>v. a = Addr6 v []"
  by (cases a) (auto simp: prefix_contains.simps)

lemma shape_v6:
  assumes "pool_shape p" "\<not> pl_is4 p"
  obtains w where "px_addr (pl_prefix p) = Addr6 w []" "0 \<le> px_bits (pl_prefix p)" "px_bits (pl_prefix p) \<le> 128"
    "w AND NOT (host_mask 128 (px_bits (pl_prefix p))) = w"
proof (cases "px_addr (pl_prefix p)")
  case (Addr6 w z)
  with assms masked_addr6[OF _ _ Addr6] that show ?thesis
    by (auto simp: pool_shape_def prefix_wf_def prefix_is_valid_def)
qed (use assms in \<open>auto simp: pool_shape_def prefix_wf_def prefix_is_valid_def\<close>)

lemma unat_cursor: "k \<le> unat l \<Longrightarrow> unat (of_nat k :: 128 word) = k" for l :: "128 word"
  using unsigned_less[of l, where ?'a = nat]
  by (simp add: unat_of_nat take_bit_nat_eq_self del: unsigned_less)

lemma cursor_next: "k \<le> unat l \<Longrightarrow> addr_next (cursor l k) = cursor l (Suc k)"
proof -
  assume k: "k \<le> unat l"
  show "addr_next (cursor l k) = cursor l (Suc k)"
  proof (cases "k = unat l")
    case True
    then show ?thesis by (simp add: cursor_def)
  next
    case False
    with k have "(of_nat k :: 128 word) < l"
      using unat_cursor[OF k] by (simp add: word_less_nat_alt)
    from word_succ_facts(1)[OF this] False k show ?thesis by (simp add: cursor_def add.commute)
  qed
qed

lemma cursor_inj:
  assumes "k \<le> Suc (unat l)" "j \<le> Suc (unat l)" "cursor l k = cursor l j"
  shows "k = j"
proof -
  have past: "cursor l (Suc (unat l)) \<noteq> cursor l i" if "i \<le> unat l" for i
  proof
    assume e: "cursor l (Suc (unat l)) = cursor l i"
    then have nz: "l + 1 \<noteq> 0" and li: "l + 1 = of_nat i"
      using that by (auto simp: cursor_def split: if_splits)
    then have "unat (l + 1) = unat l + 1" by (metis unatSuc add.commute Suc_eq_plus1)
    with li that unat_cursor[OF that] show False by simp
  qed
  show ?thesis
  proof (cases "k \<le> unat l \<and> j \<le> unat l")
    case True
    with assms(3) have "(of_nat k :: 128 word) = of_nat j" by (simp add: cursor_def)
    with True unat_cursor show ?thesis by metis
  next
    case False
    with assms past show ?thesis
      by (metis le_Suc_eq)
  qed
qed

lemma shape_layout:
  assumes "pool_shape p" "\<not> pl_is4 p" "addr_is_valid (firstIPv6Candidate (pl_prefix p) (pl_server p))"
  shows "\<exists>f l. v6_layout p f l"
proof -
  from assms(1,2) obtain w where w: "px_addr (pl_prefix p) = Addr6 w []"
      and b: "0 \<le> px_bits (pl_prefix p)" "px_bits (pl_prefix p) \<le> 128" by (rule shape_v6)
  let ?l = "w OR host_mask 128 (px_bits (pl_prefix p))"
  have con: "prefix_contains (pl_prefix p) (Addr6 v y) \<longleftrightarrow> y = [] \<and> w \<le> v \<and> v \<le> ?l" for v y
    using contains6_iff[OF _ _ w] assms(1) by (simp add: pool_shape_def)
  obtain f where f: "firstIPv6Candidate (pl_prefix p) (pl_server p) = Addr6 f []"
    and fc: "prefix_contains (pl_prefix p) (Addr6 f [])"
  proof -
    let ?a = "firstIPv6Candidate (pl_prefix p) (pl_server p)"
    have "prefix_contains (pl_prefix p) ?a"
      using assms(3) by (auto simp: firstIPv6Candidate_def Let_def split: if_splits)
    with contains6_other[OF w this] that show ?thesis by auto
  qed
  have fl: "w \<le> f" "f \<le> ?l" using fc con by simp_all
  have wf: "w < f" and gap: "\<And>v. w < v \<Longrightarrow> v < f \<Longrightarrow> Addr6 v [] = pl_server p"
  proof -
    have c: "f = w + 1 \<and> w + 1 \<noteq> 0 \<or>
        f = w + 1 + 1 \<and> w + 1 \<noteq> 0 \<and> w + 1 + 1 \<noteq> 0 \<and> Addr6 (w + 1) [] = pl_server p"
    proof (cases "addr_next (Addr6 w []) = pl_server p")
      case True
      then have n: "addr_next (addr_next (Addr6 w [])) = Addr6 f []"
        using f w by (simp add: firstIPv6Candidate_def Let_def split: if_splits)
      then have nz: "w + 1 \<noteq> 0" by auto
      with True have "pl_server p = Addr6 (w + 1) []" by simp
      moreover have "f = w + 1 + 1 \<and> w + 1 + 1 \<noteq> 0"
        using n nz by (simp add: add.assoc split: if_splits)
      ultimately show ?thesis using nz by simp
    next
      case False
      with f w show ?thesis by (auto simp: firstIPv6Candidate_def Let_def split: if_splits)
    qed
    have lt: "v + 1 \<noteq> 0 \<Longrightarrow> v < v + 1" for v :: "128 word"
      by (metis unatSuc add.commute word_less_nat_alt lessI)
    from c show "w < f"
    proof
      assume "f = w + 1 \<and> w + 1 \<noteq> 0"
      with lt[of w] show ?thesis by simp
    next
      assume h: "f = w + 1 + 1 \<and> w + 1 \<noteq> 0 \<and> w + 1 + 1 \<noteq> 0 \<and> Addr6 (w + 1) [] = pl_server p"
      with lt[of w] lt[of "w + 1"] show ?thesis by (metis order.strict_trans)
    qed
    fix v assume "w < v" "v < f"
    then have "w + 1 \<le> v" by (simp add: word_succ_facts(3))
    with \<open>v < f\<close> have "f \<noteq> w + 1" by auto
    with c have f2: "f = w + 1 + 1" "w + 1 + 1 \<noteq> 0" "Addr6 (w + 1) [] = pl_server p" by auto
    have "\<not> w + 1 < v"
      using \<open>v < f\<close> word_succ_facts(3)[OF lt[OF f2(2)], of v] unfolding f2(1) by auto
    with \<open>w + 1 \<le> v\<close> have "v = w + 1" by simp
    with f2(3) show "Addr6 v [] = pl_server p" by simp
  qed
  have "pool_hosts p = {Addr6 v [] | v. f \<le> v \<and> v \<le> ?l} - {pl_server p}"
  proof -
    have "w < v \<and> Addr6 v [] \<noteq> pl_server p \<longleftrightarrow> f \<le> v \<and> Addr6 v [] \<noteq> pl_server p" for v
      using gap[of v] wf by (meson less_le_trans not_le)
    with w show ?thesis by (auto simp: pool_hosts_def)
  qed
  with f fl con wf have "v6_layout p f ?l"
    by (auto simp: v6_layout_def)
  then show ?thesis by blast
qed

lemma cursor_contains:
  assumes "v6_layout p f l" "unat f \<le> k" "k \<le> Suc (unat l)"
  shows "prefix_contains (pl_prefix p) (cursor l k) \<longleftrightarrow> k \<le> unat l"
proof (cases "k \<le> unat l")
  case True
  then have "f \<le> of_nat k" "of_nat k \<le> l"
    using unat_cursor[OF True] assms(2) by (simp_all add: word_le_nat_alt)
  with assms(1) True show ?thesis by (auto simp: v6_layout_def cursor_def)
next
  case False
  with assms have k: "k = Suc (unat l)" and fl: "f \<le> l" by (auto simp: v6_layout_def)
  show ?thesis
  proof (cases "l + 1 = 0")
    case True
    with k show ?thesis by (simp add: cursor_def prefix_contains.simps split: addr.splits)
  next
    case nz: False
    then have u: "unat (l + 1) = unat l + 1" by (metis unatSuc add.commute Suc_eq_plus1)
    then have "f \<le> l + 1" "\<not> l + 1 \<le> l" using fl by (auto simp: word_le_nat_alt)
    with assms(1) nz k show ?thesis by (auto simp: v6_layout_def cursor_def)
  qed
qed

lemma layout_first: "v6_layout p f l \<Longrightarrow> firstIPv6Candidate (pl_prefix p) (pl_server p) = cursor l (unat f)"
  by (auto simp: v6_layout_def cursor_def word_le_nat_alt)

lemma pool_hosts_frame [simp]:
  "pool_hosts (p\<lparr>pl_free := x\<rparr>) = pool_hosts p"
  "pool_hosts (p\<lparr>pl_next := a\<rparr>) = pool_hosts p"
  "pool_hosts (p\<lparr>pl_inUse := u\<rparr>) = pool_hosts p"
  "pool_hosts (p\<lparr>pl_prefixOf := po\<rparr>) = pool_hosts p"
  "pool_hosts (p\<lparr>pl_sticky := st\<rparr>) = pool_hosts p"
  "pool_hosts (p\<lparr>pl_lease := le\<rparr>) = pool_hosts p"
  "pool_hosts (p\<lparr>pl_nextLease := n\<rparr>) = pool_hosts p"
  by (simp_all add: pool_hosts_def)

lemma v6_layout_frame [simp]:
  "v6_layout (p\<lparr>pl_free := x\<rparr>) = v6_layout p"
  "v6_layout (p\<lparr>pl_next := a\<rparr>) = v6_layout p"
  "v6_layout (p\<lparr>pl_inUse := u\<rparr>) = v6_layout p"
  "v6_layout (p\<lparr>pl_prefixOf := po\<rparr>) = v6_layout p"
  "v6_layout (p\<lparr>pl_sticky := st\<rparr>) = v6_layout p"
  "v6_layout (p\<lparr>pl_lease := le\<rparr>) = v6_layout p"
  "v6_layout (p\<lparr>pl_nextLease := n\<rparr>) = v6_layout p"
  by (auto simp: v6_layout_def fun_eq_iff)

lemma cursor_ok_frame [simp]:
  "cursor_ok (p\<lparr>pl_free := x\<rparr>) = cursor_ok p"
  "cursor_ok (p\<lparr>pl_inUse := u\<rparr>) = cursor_ok p"
  "cursor_ok (p\<lparr>pl_prefixOf := po\<rparr>) = cursor_ok p"
  "cursor_ok (p\<lparr>pl_sticky := st\<rparr>) = cursor_ok p"
  "cursor_ok (p\<lparr>pl_lease := le\<rparr>) = cursor_ok p"
  "cursor_ok (p\<lparr>pl_nextLease := n\<rparr>) = cursor_ok p"
  by (simp_all add: cursor_ok_def)

lemma pool_shape_frame [simp]:
  "pool_shape (p\<lparr>pl_free := x\<rparr>) = pool_shape p"
  "pool_shape (p\<lparr>pl_next := a\<rparr>) = pool_shape p"
  "pool_shape (p\<lparr>pl_inUse := u\<rparr>) = pool_shape p"
  "pool_shape (p\<lparr>pl_prefixOf := po\<rparr>) = pool_shape p"
  "pool_shape (p\<lparr>pl_sticky := st\<rparr>) = pool_shape p"
  "pool_shape (p\<lparr>pl_lease := le\<rparr>) = pool_shape p"
  "pool_shape (p\<lparr>pl_nextLease := n\<rparr>) = pool_shape p"
  by (simp_all add: pool_shape_def)

lemma hostPrefix_frame [simp]:
  "hostPrefix (p\<lparr>pl_free := x\<rparr>) = hostPrefix p"
  "hostPrefix (p\<lparr>pl_next := a\<rparr>) = hostPrefix p"
  "hostPrefix (p\<lparr>pl_inUse := u\<rparr>) = hostPrefix p"
  "hostPrefix (p\<lparr>pl_prefixOf := po\<rparr>) = hostPrefix p"
  "hostPrefix (p\<lparr>pl_sticky := st\<rparr>) = hostPrefix p"
  "hostPrefix (p\<lparr>pl_lease := le\<rparr>) = hostPrefix p"
  "hostPrefix (p\<lparr>pl_nextLease := n\<rparr>) = hostPrefix p"
  by (simp_all add: hostPrefix_def fun_eq_iff)

lemma used_set_frame [simp]:
  "used_set (p\<lparr>pl_free := x\<rparr>) = used_set p"
  "used_set (p\<lparr>pl_next := a\<rparr>) = used_set p"
  "used_set (p\<lparr>pl_prefixOf := po\<rparr>) = used_set p"
  "used_set (p\<lparr>pl_sticky := st\<rparr>) = used_set p"
  "used_set (p\<lparr>pl_lease := le\<rparr>) = used_set p"
  "used_set (p\<lparr>pl_nextLease := n\<rparr>) = used_set p"
  by (simp_all add: used_set_def)

text \<open>A new pool satisfies the invariant.\<close>

lemma hosts4:
  assumes "px_addr (pl_prefix p) = Addr4 w"
  shows "pool_hosts p = {Addr4 v | v. w < v \<and> v < (w OR host_mask 32 (px_bits (pl_prefix p)))} - {pl_server p}"
  using assms by (simp add: pool_hosts_def)

lemma NewIPPool_inv:
  assumes "NewIPPool cidr server = Inr p"
  shows "pool_inv p"
proof -
  from assms obtain q where q: "parse_prefix cidr = Some q"
    by (auto simp: NewIPPool_def split: option.splits)
  let ?x = "prefix_masked q"
  have wf: "prefix_wf ?x" "prefix_is_valid ?x" "prefix_masked ?x = ?x"
    using parse_prefix_wf[OF q] prefix_masked_wf masked_valid prefix_masked_idem by auto
  have fields: "pl_prefix p = ?x" "pl_server p = server" "pl_is4 p = addr_is4 (px_addr ?x)"
    "pl_inUse p = Map.empty" "pl_prefixOf p = Map.empty" "pl_sticky p = Map.empty"
    using assms q by (auto simp: NewIPPool_def Let_def split: option.splits if_splits)
  have shape: "pool_shape p" using wf fields by (simp add: pool_shape_def)
  have used: "used_set p = {}" using fields by (simp add: used_set_def)
  have core: "distinct (pl_free p) \<and>
     (if pl_is4 p then set (pl_free p) = pool_hosts p else pl_free p = [] \<and> cursor_ok p)"
  proof (cases "addr_is4 (px_addr ?x)")
    case True
    then obtain w where w: "px_addr ?x = Addr4 w" by (cases "px_addr ?x") auto
    let ?b = "w OR host_mask 32 (px_bits ?x)"
    have lastip: "lastIPOfPrefix ?x = Some (Addr4 ?b)"
      using lastIP_Addr4[OF w] wf w by (auto simp: prefix_wf_def prefix_is_valid_def)
    have "pl_free p = host_loop (Addr4 ?b) server (addr_next (Addr4 w))"
      using assms q w lastip by (auto simp: NewIPPool_def Let_def split: if_splits)
    with host_loop_next[OF refl, of ?b server w] w fields True hosts4[of p w] show ?thesis by simp
  next
    case False
    then have free: "pl_free p = []" and nx: "pl_next p = firstIPv6Candidate ?x server"
      and v: "addr_is_valid (pl_next p)"
      using assms q by (auto simp: NewIPPool_def Let_def split: option.splits if_splits)
    from shape_layout[OF shape] False fields nx v obtain f l where lay: "v6_layout p f l" by auto
    have "unat f \<le> unat l" using lay by (simp add: v6_layout_def word_le_nat_alt)
    with lay nx fields have "cursor_ok p"
      unfolding cursor_ok_def by (metis layout_first le_Suc_eq order_refl)
    with free False fields show ?thesis by simp
  qed
  with shape used fields show ?thesis by (simp add: pool_inv_def)
qed

section \<open>The IPv6 search\<close>

definition cand_pos :: "128 word \<Rightarrow> 128 word \<Rightarrow> nat \<Rightarrow> nat" where
  "cand_pos f l k = (if k = Suc (unat l) then unat f else k)"

text \<open>One iteration in terms of positions.\<close>

lemma alloc6_step:
  assumes lay: "v6_layout p f l" and k: "unat f \<le> k" "k \<le> Suc (unat l)" and nx: "pl_next p = cursor l k"
  defines "q \<equiv> cand_pos f l k"
  shows "alloc6_loop (Suc n) i start p =
    (let p1 = p\<lparr>pl_next := cursor l (Suc q)\<rparr>
     in if cursor l q = pl_server p \<or> in_use p (cursor l q) then
          (if cursor l (Suc q) = start \<or> (0 < i \<and> cursor l q = start) then (p1, None)
           else alloc6_loop n (Suc i) start p1)
        else (p1, Some (cursor l q)))"
    and "unat f \<le> q" and "q \<le> unat l"
proof -
  have fl: "unat f \<le> unat l" using lay by (simp add: v6_layout_def word_le_nat_alt)
  show q: "unat f \<le> q" "q \<le> unat l" using k fl by (auto simp: q_def cand_pos_def)
  have valid: "addr_is_valid (cursor l (unat f))" using lay fl by (auto simp: cursor_def v6_layout_def)
  have con: "prefix_contains (pl_prefix p) (cursor l k) \<longleftrightarrow> k \<le> unat l"
    by (rule cursor_contains[OF lay k])
  note nxt = cursor_next[OF q(2)]
  show "alloc6_loop (Suc n) i start p =
    (let p1 = p\<lparr>pl_next := cursor l (Suc q)\<rparr>
     in if cursor l q = pl_server p \<or> in_use p (cursor l q) then
          (if cursor l (Suc q) = start \<or> (0 < i \<and> cursor l q = start) then (p1, None)
           else alloc6_loop n (Suc i) start p1)
        else (p1, Some (cursor l q)))"
  proof (cases "k \<le> unat l")
    case True
    then have "q = k" by (simp add: q_def cand_pos_def)
    with True con nx show ?thesis unfolding nxt[symmetric] by (simp add: Let_def)
  next
    case False
    then have "q = unat f" using k by (simp add: q_def cand_pos_def)
    with False con nx valid layout_first[OF lay] show ?thesis
      unfolding nxt[symmetric] by (simp add: Let_def)
  qed
qed

lemma cursor_host:
  assumes "v6_layout p f l" "unat f \<le> q" "q \<le> unat l" "cursor l q \<noteq> pl_server p"
  shows "cursor l q \<in> pool_hosts p"
  using assms unat_cursor[OF assms(3)]
  by (auto simp: v6_layout_def cursor_def word_le_nat_alt)

lemma search_step_cases:
  "(if T then (if B then (p1, None) else X) else (p1, Some c)) = (p', r) \<Longrightarrow>
     X = (p', r) \<or> (p' = p1 \<and> r = None) \<or> (p' = p1 \<and> r = Some c \<and> \<not> T)"
  by (auto split: if_splits)

lemma alloc6_sound:
  assumes "v6_layout p f l" "unat f \<le> k" "k \<le> Suc (unat l)" "pl_next p = cursor l k"
    and "alloc6_loop n i start p = (p', r)"
  shows "(\<exists>k'. unat f \<le> k' \<and> k' \<le> Suc (unat l) \<and> p' = p\<lparr>pl_next := cursor l k'\<rparr>) \<and>
         (\<forall>a. r = Some a \<longrightarrow> a \<in> pool_hosts p \<and> \<not> in_use p a)"
  using assms
proof (induction n arbitrary: i k p)
  case 0
  then show ?case by (auto intro!: exI[of _ k])
next
  case (Suc n)
  let ?q = "cand_pos f l k"
  let ?p1 = "p\<lparr>pl_next := cursor l (Suc ?q)\<rparr>"
  note step = alloc6_step(1)[OF Suc.prems(1-4), of n i start] alloc6_step(2,3)[OF Suc.prems(1-4)]
  have q: "unat f \<le> ?q" "?q \<le> unat l" "unat f \<le> Suc ?q" "Suc ?q \<le> Suc (unat l)"
    using step(2,3) by simp_all
  consider (more) "alloc6_loop n (Suc i) start ?p1 = (p', r)" |
    (fail) "p' = ?p1" "r = None" |
    (found) "p' = ?p1" "r = Some (cursor l ?q)" "cursor l ?q \<noteq> pl_server p" "\<not> in_use p (cursor l ?q)"
    using search_step_cases[OF Suc.prems(5)[unfolded step(1) Let_def]] by blast
  then show ?case
  proof cases
    case more
    have "v6_layout ?p1 f l" "pl_next ?p1 = cursor l (Suc ?q)" using Suc.prems(1) by simp_all
    from Suc.IH[OF this(1) q(3,4) this(2) more] show ?thesis by simp
  next
    case fail
    with q show ?thesis by blast
  next
    case found
    with q cursor_host[OF Suc.prems(1) q(1,2)] show ?thesis by blast
  qed
qed

lemma allocFresh_sound:
  assumes inv: "pool_inv p" and r: "allocFreshLocked p = (p', Some a)"
  shows "a \<in> pool_hosts p" "\<not> in_use p a"
    "pl_is4 p \<Longrightarrow> p' = p\<lparr>pl_free := butlast (pl_free p)\<rparr> \<and> a = last (pl_free p) \<and> pl_free p \<noteq> []"
    "\<not> pl_is4 p \<Longrightarrow> \<exists>x. p' = p\<lparr>pl_next := x\<rparr> \<and> cursor_ok p'"
proof -
  show 1: "pl_is4 p \<Longrightarrow> p' = p\<lparr>pl_free := butlast (pl_free p)\<rparr> \<and> a = last (pl_free p) \<and> pl_free p \<noteq> []"
    using r by (auto simp: allocFreshLocked_def split: if_splits)
  have v6: "a \<in> pool_hosts p \<and> \<not> in_use p a \<and> (\<exists>x. p' = p\<lparr>pl_next := x\<rparr> \<and> cursor_ok p')" if "\<not> pl_is4 p"
  proof -
    from inv that obtain f l k where lay: "v6_layout p f l"
      and k: "unat f \<le> k" "k \<le> Suc (unat l)" "pl_next p = cursor l k"
      by (auto simp: pool_inv_def cursor_ok_def)
    from r that have "alloc6_loop maxIPv6Search 0 (pl_next p) p = (p', Some a)"
      by (simp add: allocFreshLocked_def)
    from alloc6_sound[OF lay k this] lay show ?thesis
      by (fastforce simp: cursor_ok_def)
  qed
  have v4: "a \<in> pool_hosts p \<and> \<not> in_use p a" if "pl_is4 p"
    using inv that 1[OF that] last_in_set[of "pl_free p"] by (auto simp: pool_inv_def used_set_def)
  from v4 v6 show "a \<in> pool_hosts p" "\<not> in_use p a" by blast+
  from v6 show "\<not> pl_is4 p \<Longrightarrow> \<exists>x. p' = p\<lparr>pl_next := x\<rparr> \<and> cursor_ok p'" by blast
qed

lemma allocFresh_fail_inv:
  assumes inv: "pool_inv p" and r: "allocFreshLocked p = (p', None)"
  shows "\<exists>x. p' = p\<lparr>pl_next := x\<rparr> \<and> pool_inv p'"
proof (cases "pl_is4 p")
  case True
  with r have "p' = p" by (auto simp: allocFreshLocked_def split: if_splits)
  with inv show ?thesis by (intro exI[of _ "pl_next p"]) simp
next
  case False
  with inv obtain f l k where lay: "v6_layout p f l"
    and k: "unat f \<le> k" "k \<le> Suc (unat l)" "pl_next p = cursor l k"
    by (auto simp: pool_inv_def cursor_ok_def)
  from r False have "alloc6_loop maxIPv6Search 0 (pl_next p) p = (p', None)"
    by (simp add: allocFreshLocked_def)
  from alloc6_sound[OF lay k this] obtain k' where
    k': "unat f \<le> k'" "k' \<le> Suc (unat l)" "p' = p\<lparr>pl_next := cursor l k'\<rparr>" by auto
  with lay have "cursor_ok p'" by (auto simp: cursor_ok_def)
  with inv False k'(3) show ?thesis by (auto simp: pool_inv_def)
qed

section \<open>Every operation preserves the invariant\<close>

lemma pool_inv_frame [simp]:
  "pool_inv (p\<lparr>pl_lease := le\<rparr>) = pool_inv p"
  "pool_inv (p\<lparr>pl_nextLease := n\<rparr>) = pool_inv p"
  by (simp_all add: pool_inv_def)

lemma remove1_last: "distinct xs \<Longrightarrow> xs \<noteq> [] \<Longrightarrow> remove1 (last xs) xs = butlast xs"
  by (induction xs rule: rev_induct) (auto simp: remove1_append)

lemma used_set_mark [simp]: "used_set (mark_used p a) = insert a (used_set p)"
  by (auto simp: used_set_def mark_used_def)

lemma take_mark_inv:
  assumes "pool_inv p" "a \<in> pool_hosts p"
  shows "pool_inv (mark_used (takeFree p a) a)"
proof -
  have "set (remove1 a (pl_free p)) = pool_hosts p - insert a (used_set p)" if "pl_is4 p"
    using assms that by (auto simp: pool_inv_def)
  then show ?thesis
    using assms used_set_mark[of "takeFree p a" a]
    unfolding mark_used_def takeFree_def by (auto simp: pool_inv_def)
qed

lemma allocFresh_take:
  assumes "pool_inv p" "allocFreshLocked p = (p', Some a)"
  shows "\<exists>x. p' = takeFree (p\<lparr>pl_next := x\<rparr>) a \<and> pool_inv (p\<lparr>pl_next := x\<rparr>)"
proof (cases "pl_is4 p")
  case True
  have "p' = takeFree p a"
    using allocFresh_sound(3)[OF assms True] assms(1) remove1_last[of "pl_free p"]
    by (auto simp: takeFree_def pool_inv_def)
  with assms(1) show ?thesis by (intro exI[of _ "pl_next p"]) simp
next
  case False
  from allocFresh_sound(4)[OF assms False] obtain x where x: "p' = p\<lparr>pl_next := x\<rparr>" "cursor_ok p'" by blast
  with False assms(1) have "pool_inv (p\<lparr>pl_next := x\<rparr>)" "pl_free p = []"
    by (auto simp: pool_inv_def)
  moreover from this(2) have "takeFree (p\<lparr>pl_next := x\<rparr>) a = p\<lparr>pl_next := x\<rparr>"
    by (cases p) (simp add: takeFree_def)
  ultimately show ?thesis using x(1) by metis
qed

lemma sticky_inv:
  "pool_inv p \<Longrightarrow> a \<in> pool_hosts p \<Longrightarrow> pool_inv (p\<lparr>pl_sticky := (pl_sticky p)(cid \<mapsto> a)\<rparr>)"
  unfolding pool_inv_def by (auto simp: ran_def split: if_splits)

text \<open>What \<open>AllocateFor\<close> does on each of its three branches.\<close>

definition open_lease :: "pool \<Rightarrow> string \<Rightarrow> pool" where
  "open_lease p cid =
     (let p = p\<lparr>pl_nextLease := pl_nextLease p + 1\<rparr>
      in if cid \<noteq> [] then p\<lparr>pl_lease := (pl_lease p)(cid \<mapsto> pl_nextLease p)\<rparr> else p)"

lemma open_lease_simps [simp]:
  "pl_prefix (open_lease p cid) = pl_prefix p" "pl_server (open_lease p cid) = pl_server p"
  "pl_is4 (open_lease p cid) = pl_is4 p" "pl_free (open_lease p cid) = pl_free p"
  "pl_next (open_lease p cid) = pl_next p" "pl_inUse (open_lease p cid) = pl_inUse p"
  "pl_prefixOf (open_lease p cid) = pl_prefixOf p" "pl_sticky (open_lease p cid) = pl_sticky p"
  "pl_nextLease (open_lease p cid) = pl_nextLease p + 1"
  "hostPrefix (open_lease p cid) = hostPrefix p" "pool_hosts (open_lease p cid) = pool_hosts p"
  "used_set (open_lease p cid) = used_set p" "pool_inv (open_lease p cid) = pool_inv p"
  "go_get z (pl_lease (open_lease p cid)) c =
     (if cid \<noteq> [] \<and> c = cid then pl_nextLease p + 1 else go_get z (pl_lease p) c)"
  by (simp_all add: open_lease_def Let_def)

lemma mark_take_simps [simp]:
  "pl_prefix (mark_used p a) = pl_prefix p" "pl_server (mark_used p a) = pl_server p"
  "pl_is4 (mark_used p a) = pl_is4 p" "pl_free (mark_used p a) = pl_free p"
  "pl_next (mark_used p a) = pl_next p" "pl_sticky (mark_used p a) = pl_sticky p"
  "pl_lease (mark_used p a) = pl_lease p" "pl_nextLease (mark_used p a) = pl_nextLease p"
  "hostPrefix (mark_used p a) = hostPrefix p" "pool_hosts (mark_used p a) = pool_hosts p"
  "in_use (mark_used p a) b = (b = a \<or> in_use p b)"
  "pl_prefix (takeFree p a) = pl_prefix p" "pl_server (takeFree p a) = pl_server p"
  "pl_is4 (takeFree p a) = pl_is4 p" "pl_free (takeFree p a) = remove1 a (pl_free p)"
  "pl_next (takeFree p a) = pl_next p" "pl_sticky (takeFree p a) = pl_sticky p"
  "pl_lease (takeFree p a) = pl_lease p" "pl_nextLease (takeFree p a) = pl_nextLease p"
  "pl_inUse (takeFree p a) = pl_inUse p"
  "hostPrefix (takeFree p a) = hostPrefix p" "pool_hosts (takeFree p a) = pool_hosts p"
  "used_set (takeFree p a) = used_set p"
  by (simp_all add: mark_used_def takeFree_def)

lemma AllocateFor_sticky:
  "cid \<noteq> [] \<Longrightarrow> pl_sticky p cid = Some a \<Longrightarrow>
     AllocateFor p cid =
       (mark_used (takeFree (open_lease p cid) a) a, Inr (hostPrefix p a, pl_nextLease p + 1))"
  by (simp add: AllocateFor_def open_lease_def Let_def)

lemma AllocateFor_fresh:
  "cid = [] \<or> pl_sticky p cid = None \<Longrightarrow>
     AllocateFor p cid =
       (case allocFreshLocked (open_lease p cid) of
          (q, None) \<Rightarrow> (q, Inl PoolExhausted)
        | (q, Some a) \<Rightarrow>
            let q = mark_used q a
            in (if cid \<noteq> [] then q\<lparr>pl_sticky := (pl_sticky q)(cid \<mapsto> a)\<rparr> else q,
                Inr (hostPrefix q a, pl_nextLease p + 1)))"
  by (auto simp: AllocateFor_def open_lease_def Let_def split: prod.splits option.splits)

lemma AllocateFor_cases:
  assumes inv: "pool_inv p" and r: "AllocateFor p cid = (p', r)"
  obtains (sticky) a where "cid \<noteq> []" "pl_sticky p cid = Some a" "a \<in> pool_hosts p"
      "p' = mark_used (takeFree (open_lease p cid) a) a" "r = Inr (hostPrefix p a, pl_nextLease p + 1)"
  | (fresh) x a where "cid = [] \<or> pl_sticky p cid = None" "a \<in> pool_hosts p" "\<not> in_use p a"
      "pool_inv (open_lease p cid\<lparr>pl_next := x\<rparr>)"
      "p' = (let q = mark_used (takeFree (open_lease p cid\<lparr>pl_next := x\<rparr>) a) a
             in if cid \<noteq> [] then q\<lparr>pl_sticky := (pl_sticky q)(cid \<mapsto> a)\<rparr> else q)"
      "r = Inr (hostPrefix p a, pl_nextLease p + 1)"
  | (failed) x where "cid = [] \<or> pl_sticky p cid = None" "p' = open_lease p cid\<lparr>pl_next := x\<rparr>"
      "pool_inv p'" "r = Inl PoolExhausted" "allocFreshLocked (open_lease p cid) = (p', None)"
proof (cases "cid \<noteq> [] \<and> pl_sticky p cid \<noteq> None")
  case True
  then obtain a where a: "cid \<noteq> []" "pl_sticky p cid = Some a" by auto
  moreover from inv a(2) have "a \<in> pool_hosts p" by (auto simp: pool_inv_def ran_def)
  ultimately show ?thesis using r AllocateFor_sticky[OF a] by (intro sticky) auto
next
  case False
  then have c: "cid = [] \<or> pl_sticky p cid = None" by auto
  obtain q s where al: "allocFreshLocked (open_lease p cid) = (q, s)" by (cases "allocFreshLocked (open_lease p cid)")
  have inv': "pool_inv (open_lease p cid)" using inv by simp
  show ?thesis
  proof (cases s)
    case None
    with allocFresh_fail_inv[OF inv'] al AllocateFor_fresh[OF c] r c failed show ?thesis by auto
  next
    case (Some a)
    from allocFresh_take[OF inv' al[unfolded Some]] obtain x where
      x: "q = takeFree (open_lease p cid\<lparr>pl_next := x\<rparr>) a" "pool_inv (open_lease p cid\<lparr>pl_next := x\<rparr>)" by blast
    have "a \<in> pool_hosts p" "\<not> in_use p a"
      using allocFresh_sound(1,2)[OF inv' al[unfolded Some]] by simp_all
    with x c r al Some AllocateFor_fresh[OF c] show ?thesis
      by (intro fresh[of a x]) (auto simp: Let_def)
  qed
qed

lemma AllocateFor_inv:
  assumes "pool_inv p"
  shows "pool_inv (fst (AllocateFor p cid))"
proof -
  obtain p' r where r: "AllocateFor p cid = (p', r)" by (cases "AllocateFor p cid")
  from assms r have "pool_inv p'"
  proof (cases rule: AllocateFor_cases)
    case (sticky a)
    then show ?thesis using take_mark_inv[of "open_lease p cid" a] assms by simp
  next
    case (fresh x a)
    then have "pool_inv (mark_used (takeFree (open_lease p cid\<lparr>pl_next := x\<rparr>) a) a)"
      by (intro take_mark_inv) simp_all
    with fresh sticky_inv[OF this, of a] show ?thesis by (auto simp: Let_def)
  qed
  with r show ?thesis by simp
qed

text \<open>The address part of \<open>Release\<close>, after the lease check.\<close>

definition give_back :: "pool \<Rightarrow> addr \<Rightarrow> pool" where
  "give_back p a =
     (if \<not> in_use p a then p
      else
        let p = p\<lparr>pl_inUse := (pl_inUse p)(a := None), pl_prefixOf := (pl_prefixOf p)(a := None)\<rparr>
        in if pl_is4 p then p\<lparr>pl_free := pl_free p @ [a]\<rparr> else p)"

lemma Release_give_back:
  "Release p cid lease pfx =
     (if cid \<noteq> [] \<and> go_get 0 (pl_lease p) cid \<noteq> lease then p
      else give_back (if cid \<noteq> [] then p\<lparr>pl_lease := (pl_lease p)(cid := None)\<rparr> else p) (px_addr pfx))"
  by (simp add: Release_def give_back_def Let_def)

lemma give_back_inv:
  assumes inv: "pool_inv p"
  shows "pool_inv (give_back p a)"
proof (cases "in_use p a")
  case True
  let ?q = "p\<lparr>pl_inUse := (pl_inUse p)(a := None), pl_prefixOf := (pl_prefixOf p)(a := None)\<rparr>"
  have used: "used_set ?q = used_set p - {a}" by (auto simp: used_set_def)
  have host: "a \<in> pool_hosts p" "a \<in> used_set p" using inv True by (auto simp: pool_inv_def used_set_def)
  then have "pool_inv (if pl_is4 p then ?q\<lparr>pl_free := pl_free ?q @ [a]\<rparr> else ?q)"
    using inv used by (auto simp: pool_inv_def used_set_def)
  with True show ?thesis by (simp add: give_back_def Let_def)
qed (use inv in \<open>simp add: give_back_def\<close>)

lemma Release_inv: "pool_inv p \<Longrightarrow> pool_inv (Release p cid lease pfx)"
  by (simp add: Release_give_back give_back_inv)

end
