(* ===== verification/IPPoolSearch.thy ===== *)
theory IPPoolSearch
  imports IPPool
begin

text \<open>
  Completeness of the IPv6 search of \<open>allocFreshLocked\<close>: when it gives up, it has either
  seen every host of the prefix taken or spent its 65536 iterations on that many distinct
  taken addresses. The walk is followed in positions between the first candidate \<open>F\<close> and
  the last address \<open>L\<close>: it starts at \<open>s\<close>, runs to \<open>L\<close>, wraps to \<open>F\<close> and comes back to
  \<open>s\<close>. Position \<open>L + 1\<close> is the cursor past the end.
\<close>

section \<open>The walk in positions\<close>

definition cpos :: "nat \<Rightarrow> nat \<Rightarrow> nat \<Rightarrow> nat" where
  "cpos F L k = (if k = Suc L then F else k)"

text \<open>The positions visited when the walk from \<open>s\<close> stands before \<open>k\<close>.\<close>

definition walked :: "nat \<Rightarrow> nat \<Rightarrow> nat \<Rightarrow> nat \<Rightarrow> nat set" where
  "walked F L s k = (if s < k then {s..<k} else {s..L} \<union> {F..<k})"

text \<open>
  The loop invariant after \<open>i\<close> iterations from cursor \<open>s0\<close>: nothing visited yet, or \<open>i\<close>
  distinct taken positions visited, the walk being before or after its wrap.
\<close>

definition search_inv :: "nat \<Rightarrow> nat \<Rightarrow> (nat \<Rightarrow> bool) \<Rightarrow> nat \<Rightarrow> nat \<Rightarrow> nat \<Rightarrow> bool" where
  "search_inv F L T s0 i k \<longleftrightarrow>
     (i = 0 \<and> k = s0) \<or>
     (0 < i \<and> k \<noteq> s0 \<and>
      (cpos F L s0 < k \<and> k \<le> Suc L \<or> F < k \<and> k < cpos F L s0 \<and> s0 = cpos F L s0) \<and>
      card (walked F L (cpos F L s0) k) = i \<and> (\<forall>q \<in> walked F L (cpos F L s0) k. T q))"

definition all_taken :: "nat \<Rightarrow> nat \<Rightarrow> (nat \<Rightarrow> bool) \<Rightarrow> bool" where
  "all_taken F L T \<longleftrightarrow> (\<forall>q. F \<le> q \<and> q \<le> L \<longrightarrow> T q)"

lemma finite_walked [simp]: "finite (walked F L s k)"
  by (simp add: walked_def)

lemma walked_ahead: "s < k \<Longrightarrow> walked F L s (Suc k) = insert k (walked F L s k) \<and> k \<notin> walked F L s k"
  by (auto simp: walked_def)

lemma walked_wrapped:
  "k < s \<Longrightarrow> F \<le> k \<Longrightarrow> Suc k \<noteq> s \<Longrightarrow>
     walked F L s (Suc k) = insert k (walked F L s k) \<and> k \<notin> walked F L s k"
  by (auto simp: walked_def)

text \<open>How the invariant advances by one visited position.\<close>

lemma search_inv_advance:
  assumes "walked F L s k' = insert q W" "q \<notin> W" "finite W" "card W = i" "\<forall>x \<in> W. T x" "T q"
    and "s = cpos F L s0" "k' \<noteq> s0" "s < k' \<and> k' \<le> Suc L \<or> F < k' \<and> k' < s \<and> s0 = s"
  shows "search_inv F L T s0 (Suc i) k'"
proof -
  have "card (walked F L s k') = Suc i" using assms(1-4) by simp
  moreover have "\<forall>x \<in> walked F L s k'. T x" using assms(1,5,6) by simp
  ultimately show ?thesis using assms(8,9) unfolding search_inv_def assms(7)[symmetric] by blast
qed

definition step_goal :: "nat \<Rightarrow> nat \<Rightarrow> (nat \<Rightarrow> bool) \<Rightarrow> nat \<Rightarrow> nat \<Rightarrow> nat \<Rightarrow> bool" where
  "step_goal F L T s0 i q \<longleftrightarrow>
     (Suc q = s0 \<or> (0 < i \<and> q = s0) \<longrightarrow> all_taken F L T) \<and>
     (Suc q \<noteq> s0 \<and> \<not> (0 < i \<and> q = s0) \<longrightarrow> search_inv F L T s0 (Suc i) (Suc q))"

lemma step_start:
  assumes "F \<le> L" "F \<le> s0" "s0 \<le> Suc L" "T (cpos F L s0)"
  shows "step_goal F L T s0 0 (cpos F L s0)"
proof -
  let ?s = "cpos F L s0"
  have s: "F \<le> ?s" "?s \<le> L" "s0 = ?s \<or> s0 = Suc L \<and> ?s = F" using assms by (auto simp: cpos_def)
  have w: "walked F L ?s (Suc ?s) = {?s}" by (auto simp: walked_def)
  have "all_taken F L T" if "Suc ?s = s0"
    using that s assms(4) by (auto simp: all_taken_def)
  moreover have "search_inv F L T s0 (Suc 0) (Suc ?s)" if "Suc ?s \<noteq> s0"
    using that s w assms(4) by (auto simp: search_inv_def)
  ultimately show ?thesis by (auto simp: step_goal_def)
qed

lemma step_ahead:
  assumes s: "F \<le> s" "s \<le> L" "s = cpos F L s0" "s0 = s \<or> s0 = Suc L \<and> s = F"
    and k: "s < k" "k \<le> L" "k \<noteq> s0" and i: "0 < i" "card (walked F L s k) = i"
    and t: "\<forall>q \<in> walked F L s k. T q" "T k"
  shows "step_goal F L T s0 i k"
proof -
  note w = walked_ahead[OF k(1), of F L]
  have "all_taken F L T" if "Suc k = s0"
  proof -
    have "s0 = Suc L" "s = F" "k = L" using that s(4) k by auto
    then have "x = k \<or> x \<in> walked F L s k" if "F \<le> x" "x \<le> L" for x
      using that k(1) by (auto simp: walked_def)
    then show ?thesis using t by (auto simp: all_taken_def)
  qed
  moreover have "search_inv F L T s0 (Suc i) (Suc k)" if "Suc k \<noteq> s0"
    by (rule search_inv_advance[OF conjunct1[OF w] conjunct2[OF w] finite_walked i(2) t s(3) that])
       (use k in simp)
  ultimately show ?thesis using k(3) by (auto simp: step_goal_def)
qed

lemma step_wrap:
  assumes s: "F \<le> s" "s \<le> L" "s = cpos F L s0" "s0 = s"
    and i: "0 < i" "card (walked F L s (Suc L)) = i"
    and t: "\<forall>q \<in> walked F L s (Suc L). T q" "T F"
  shows "step_goal F L T s0 i F"
proof -
  have w: "walked F L s (Suc L) = {s..L}" using s(1,2) by (auto simp: walked_def)
  have "all_taken F L T" if "s = F \<or> Suc F = s"
    unfolding all_taken_def
  proof (intro allI impI)
    fix x assume "F \<le> x \<and> x \<le> L"
    then have "x = F \<or> x \<in> walked F L s (Suc L)" using that w by auto
    then show "T x" using t by auto
  qed
  moreover have "search_inv F L T s0 (Suc i) (Suc F)" if "Suc F \<noteq> s0" "F \<noteq> s0"
  proof -
    have Fs: "Suc F < s" using that s(1,4) by auto
    then have w2: "walked F L s (Suc F) = insert F {s..L}" "F \<notin> {s..L}"
      by (auto simp: walked_def)
    show ?thesis
      by (rule search_inv_advance[OF w2(1) w2(2) _ i(2)[unfolded w] t(1)[unfolded w] t(2) s(3) that(1)])
         (use Fs s(4) in simp_all)
  qed
  ultimately show ?thesis using s(4) i(1) by (auto simp: step_goal_def)
qed

lemma step_wrapped:
  assumes s: "s \<le> L" "s = cpos F L s0" "s0 = s" and k: "F < k" "k < s"
    and i: "0 < i" "card (walked F L s k) = i" and t: "\<forall>q \<in> walked F L s k. T q" "T k"
  shows "step_goal F L T s0 i k"
proof -
  have "all_taken F L T" if "Suc k = s0"
  proof -
    have "x = k \<or> x \<in> walked F L s k" if "F \<le> x" "x \<le> L" for x
      using that \<open>Suc k = s0\<close> s(3) k by (auto simp: walked_def)
    then show ?thesis using t by (auto simp: all_taken_def)
  qed
  moreover have "search_inv F L T s0 (Suc i) (Suc k)" if "Suc k \<noteq> s0"
  proof -
    have "Suc k \<noteq> s" using that s(3) by simp
    note w = walked_wrapped[OF k(2) less_imp_le[OF k(1)] this, of L]
    show ?thesis
      by (rule search_inv_advance[OF conjunct1[OF w] conjunct2[OF w] finite_walked i(2) t s(2) that])
         (use k s(3) \<open>Suc k \<noteq> s\<close> in simp)
  qed
  ultimately show ?thesis using s(3) k(2) by (auto simp: step_goal_def)
qed

lemma search_step:
  assumes FL: "F \<le> L" and s0: "F \<le> s0" "s0 \<le> Suc L"
    and I: "search_inv F L T s0 i k" and t: "T (cpos F L k)"
  shows "step_goal F L T s0 i (cpos F L k)"
proof -
  define s where "s = cpos F L s0"
  have s: "F \<le> s" "s \<le> L" "s = cpos F L s0" "s0 = s \<or> s0 = Suc L \<and> s = F"
    using FL s0 by (auto simp: s_def cpos_def)
  from I consider "i = 0" "k = s0" |
    (ahead) "0 < i" "k \<noteq> s0" "s < k" "k \<le> Suc L" "card (walked F L s k) = i" "\<forall>q \<in> walked F L s k. T q" |
    (wrapped) "0 < i" "F < k" "k < s" "s0 = s" "card (walked F L s k) = i" "\<forall>q \<in> walked F L s k. T q"
    unfolding search_inv_def s_def by blast
  then show ?thesis
  proof cases
    case 1
    with step_start[OF FL s0] t show ?thesis by simp
  next
    case ahead
    show ?thesis
    proof (cases "k = Suc L")
      case True
      with ahead(2) s(4) have "s0 = s" by auto
      moreover have "cpos F L k = F" using True by (simp add: cpos_def)
      ultimately show ?thesis
        using step_wrap[OF s(1-3) _ ahead(1)] ahead(5,6) t unfolding True by metis
    next
      case False
      then have "cpos F L k = k" "k \<le> L" using ahead(4) by (auto simp: cpos_def)
      then show ?thesis
        using step_ahead[OF s ahead(3) _ ahead(2) ahead(1,5,6)] t by metis
    qed
  next
    case wrapped
    then have "cpos F L k = k" using s(2) by (auto simp: cpos_def)
    then show ?thesis
      using step_wrapped[OF s(2,3) wrapped(4,2,3,1,5,6)] t by metis
  qed
qed

section \<open>The search loop\<close>

definition taken_at :: "pool \<Rightarrow> 128 word \<Rightarrow> nat \<Rightarrow> bool" where
  "taken_at p l q \<longleftrightarrow> cursor l q = pl_server p \<or> in_use p (cursor l q)"

lemma cand_cpos: "cand_pos f l k = cpos (unat f) (unat l) k"
  by (simp add: cand_pos_def cpos_def)

lemma taken_at_frame [simp]: "taken_at (p\<lparr>pl_next := x\<rparr>) = taken_at p"
  by (simp add: taken_at_def fun_eq_iff)

lemma search_inv_count:
  assumes "search_inv F L T s0 i k" "F \<le> L" "F \<le> s0" "s0 \<le> Suc L"
  shows "\<exists>V \<subseteq> {F..L}. card V = i \<and> (\<forall>q \<in> V. T q)"
proof (cases "i = 0")
  case True
  then show ?thesis by (intro exI[of _ "{}"]) auto
next
  case False
  have sub: "walked F L (cpos F L s0) k \<subseteq> {F..L}"
    using assms False by (auto simp: walked_def search_inv_def cpos_def split: if_splits)
  from assms(1) False have "card (walked F L (cpos F L s0) k) = i \<and> (\<forall>q \<in> walked F L (cpos F L s0) k. T q)"
    by (auto simp: search_inv_def)
  with sub show ?thesis by blast
qed

lemma search_fails:
  assumes lay: "v6_layout p f l" and s0: "unat f \<le> s0" "s0 \<le> Suc (unat l)"
    and k: "unat f \<le> k" "k \<le> Suc (unat l)" "pl_next p = cursor l k"
    and I: "search_inv (unat f) (unat l) (taken_at p l) s0 i k"
    and r: "alloc6_loop n i (cursor l s0) p = (p', None)"
  shows "all_taken (unat f) (unat l) (taken_at p l) \<or>
         (\<exists>V \<subseteq> {unat f..unat l}. card V = i + n \<and> (\<forall>q \<in> V. taken_at p l q))"
  using lay k I r
proof (induction n arbitrary: i k p)
  case 0
  have "unat f \<le> unat l" using 0 by (simp add: v6_layout_def word_le_nat_alt)
  with search_inv_count[OF 0(5) this s0] show ?case by simp
next
  case (Suc n)
  have fl: "unat f \<le> unat l" using Suc.prems(1) by (simp add: v6_layout_def word_le_nat_alt)
  let ?q = "cand_pos f l k" and ?p1 = "p\<lparr>pl_next := cursor l (Suc (cand_pos f l k))\<rparr>"
  note step = alloc6_step(1)[OF Suc.prems(1-4), of n i "cursor l s0"]
  have q: "unat f \<le> ?q" "?q \<le> unat l" using alloc6_step(2,3)[OF Suc.prems(1-4)] .
  have t: "taken_at p l ?q" and
    next_iter: "\<not> (cursor l (Suc ?q) = cursor l s0 \<or> 0 < i \<and> cursor l ?q = cursor l s0) \<Longrightarrow>
      alloc6_loop n (Suc i) (cursor l s0) ?p1 = (p', None)"
    using Suc.prems(6) unfolding step Let_def taken_at_def by (auto split: if_split_asm)
  have eqs: "cursor l (Suc ?q) = cursor l s0 \<longleftrightarrow> Suc ?q = s0" "cursor l ?q = cursor l s0 \<longleftrightarrow> ?q = s0"
    using cursor_inj[of "Suc ?q" l s0] cursor_inj[of ?q l s0] q s0 by auto
  have goal: "step_goal (unat f) (unat l) (taken_at p l) s0 i ?q"
    using search_step[OF fl s0 Suc.prems(5)] t by (simp add: cand_cpos)
  show ?case
  proof (cases "Suc ?q = s0 \<or> 0 < i \<and> ?q = s0")
    case True
    with goal show ?thesis by (auto simp: step_goal_def)
  next
    case False
    with goal have I': "search_inv (unat f) (unat l) (taken_at ?p1 l) s0 (Suc i) (Suc ?q)"
      by (auto simp: step_goal_def)
    have pre: "v6_layout ?p1 f l" "unat f \<le> Suc ?q" "Suc ?q \<le> Suc (unat l)" "pl_next ?p1 = cursor l (Suc ?q)"
      using Suc.prems(1) q by simp_all
    from Suc.IH[OF pre I' next_iter] False eqs show ?thesis by auto
  qed
qed

text \<open>A failed allocation: every host is in use, or at least 65535 addresses are.\<close>

lemma alloc_fail_full:
  assumes inv: "pool_inv p" and r: "allocFreshLocked p = (p', None)"
  shows "pool_hosts p \<subseteq> used_set p \<or>
         (\<not> pl_is4 p \<and> (\<exists>V \<subseteq> used_set p. finite V \<and> maxIPv6Search \<le> Suc (card V)))"
proof (cases "pl_is4 p")
  case True
  with inv r show ?thesis by (auto simp: pool_inv_def allocFreshLocked_def split: if_splits)
next
  case False
  with inv obtain f l k where lay: "v6_layout p f l"
    and k: "unat f \<le> k" "k \<le> Suc (unat l)" "pl_next p = cursor l k"
    by (auto simp: pool_inv_def cursor_ok_def)
  from r False k(3) have r': "alloc6_loop maxIPv6Search 0 (cursor l k) p = (p', None)"
    by (simp add: allocFreshLocked_def)
  have I: "search_inv (unat f) (unat l) (taken_at p l) k 0 k" by (simp add: search_inv_def)
  from search_fails[OF lay k(1,2) k I r']
  consider (all) "all_taken (unat f) (unat l) (taken_at p l)" |
    (many) V where "V \<subseteq> {unat f..unat l}" "card V = maxIPv6Search" "\<forall>q \<in> V. taken_at p l q" by auto
  then show ?thesis
  proof cases
    case all
    have "a \<in> used_set p" if a: "a \<in> pool_hosts p" for a
    proof -
      from a lay obtain v where v: "a = Addr6 v []" "f \<le> v" "v \<le> l" "a \<noteq> pl_server p"
        by (auto simp: v6_layout_def)
      then have "cursor l (unat v) = a" "taken_at p l (unat v)"
        using all by (auto simp: cursor_def all_taken_def word_le_nat_alt)
      with v show ?thesis by (auto simp: taken_at_def used_set_def)
    qed
    then show ?thesis by blast
  next
    case many
    let ?W = "cursor l ` V - {pl_server p}"
    have fin: "finite V" using many(1) finite_subset by blast
    have "inj_on (cursor l) V"
      using many(1) cursor_inj by (auto simp: inj_on_def) (meson atLeastAtMost_iff le_SucI subsetD)
    then have "card (cursor l ` V) = maxIPv6Search" using many(2) card_image by metis
    then have "maxIPv6Search \<le> Suc (card ?W)"
      using fin by (metis card_Diff_singleton_if card_Suc_Diff1 finite_imageI le_refl le_SucI)
    moreover have "?W \<subseteq> used_set p" using many(3) by (auto simp: taken_at_def used_set_def)
    ultimately show ?thesis using False fin by (metis finite_Diff finite_imageI)
  qed
qed

end
