(* ===== verification/IPPoolProps.thy ===== *)
theory IPPoolProps
  imports IPPoolSearch
begin

text \<open>
  The properties of the address pool over arbitrary sequences of its two operations, in any
  interleaving of clients (the mutex makes each call atomic). A pool in use is one that
  \<open>NewIPPool\<close> built and any sequence of calls has changed.
\<close>

section \<open>Sequences of operations\<close>

datatype pool_op = OpAllocate string | OpRelease string lease_id prefix

fun pool_step :: "pool \<Rightarrow> pool_op \<Rightarrow> pool" where
  "pool_step p (OpAllocate cid) = fst (AllocateFor p cid)"
| "pool_step p (OpRelease cid lease pfx) = Release p cid lease pfx"

definition pool_run :: "pool \<Rightarrow> pool_op list \<Rightarrow> pool" where
  "pool_run p ops = foldl pool_step p ops"

lemma pool_run_simps [simp]:
  "pool_run p [] = p" "pool_run p (x # xs) = pool_run (pool_step p x) xs"
  "pool_run p (xs @ [x]) = pool_step (pool_run p xs) x"
  by (simp_all add: pool_run_def)

lemma pool_step_inv: "pool_inv p \<Longrightarrow> pool_inv (pool_step p x)"
  by (cases x) (simp_all add: AllocateFor_inv Release_inv)

lemma pool_run_inv: "pool_inv p \<Longrightarrow> pool_inv (pool_run p ops)"
  by (induction ops arbitrary: p) (simp_all add: pool_step_inv)

text \<open>The configuration of the pool never changes, and a sticky address is never forgotten.\<close>

definition same_config :: "pool \<Rightarrow> pool \<Rightarrow> bool" where
  "same_config p q \<longleftrightarrow> pl_prefix q = pl_prefix p \<and> pl_server q = pl_server p \<and> pl_is4 q = pl_is4 p"

lemma give_back_simps [simp]:
  "pl_prefix (give_back p a) = pl_prefix p" "pl_server (give_back p a) = pl_server p"
  "pl_is4 (give_back p a) = pl_is4 p" "pl_sticky (give_back p a) = pl_sticky p"
  "pl_nextLease (give_back p a) = pl_nextLease p" "pl_lease (give_back p a) = pl_lease p"
  by (simp_all add: give_back_def Let_def)

lemma pool_step_config: "pool_inv p \<Longrightarrow> same_config p (pool_step p x)"
proof (cases x)
  case (OpAllocate cid)
  assume inv: "pool_inv p"
  obtain p' r where r: "AllocateFor p cid = (p', r)" by (cases "AllocateFor p cid")
  from inv r have "same_config p p'"
    by (cases rule: AllocateFor_cases) (auto simp: same_config_def Let_def)
  with r OpAllocate show ?thesis by simp
next
  case (OpRelease cid lease pfx)
  then show ?thesis by (auto simp: same_config_def Release_give_back)
qed

lemma pool_step_sticky:
  assumes "pool_inv p" "pl_sticky p cid = Some a"
  shows "pl_sticky (pool_step p x) cid = Some a"
proof (cases x)
  case (OpAllocate c)
  obtain p' r where r: "AllocateFor p c = (p', r)" by (cases "AllocateFor p c")
  from assms(1) r have "pl_sticky p' cid = Some a"
    by (cases rule: AllocateFor_cases) (use assms(2) in \<open>auto simp: Let_def\<close>)
  with r OpAllocate show ?thesis by simp
next
  case (OpRelease c lease pfx)
  with assms show ?thesis by (simp add: Release_give_back)
qed

lemma pool_run_sticky:
  "pool_inv p \<Longrightarrow> pl_sticky p cid = Some a \<Longrightarrow> pl_sticky (pool_run p ops) cid = Some a"
  by (induction ops arbitrary: p) (simp_all add: pool_step_inv pool_step_sticky)

lemma pool_run_config: "pool_inv p \<Longrightarrow> same_config p (pool_run p ops)"
proof (induction ops arbitrary: p)
  case (Cons x xs)
  from Cons.IH[OF pool_step_inv[OF Cons.prems]] pool_step_config[OF Cons.prems]
  show ?case by (auto simp: same_config_def)
qed (simp add: same_config_def)

lemma pool_hosts_config: "same_config p q \<Longrightarrow> pool_hosts q = pool_hosts p"
  by (simp add: same_config_def pool_hosts_def)

lemma AllocateFor_ok_sticky:
  assumes "pool_inv p" "AllocateFor p cid = (p', Inr (pfx, lease))" "cid \<noteq> []"
  shows "\<exists>a. pl_sticky p' cid = Some a \<and> pfx = hostPrefix p a"
  using assms(1,2) by (cases rule: AllocateFor_cases) (use assms(3) in \<open>auto simp: Let_def\<close>)

lemma AllocateFor_lease:
  assumes "pool_inv p" "AllocateFor p cid = (p', Inr (pfx, lease))"
  shows "lease = pl_nextLease p + 1" "pl_nextLease p' = lease"
    "cid \<noteq> [] \<Longrightarrow> go_get 0 (pl_lease p') cid = lease"
  using assms by (cases rule: AllocateFor_cases; auto simp: Let_def)+

lemma pool_step_nextLease:
  assumes "pool_inv p"
  shows "pl_nextLease (pool_step p x) = pl_nextLease p \<or> pl_nextLease (pool_step p x) = pl_nextLease p + 1"
proof (cases x)
  case (OpAllocate c)
  obtain p' r where r: "AllocateFor p c = (p', r)" by (cases "AllocateFor p c")
  from assms r have "pl_nextLease p' = pl_nextLease p + 1"
    by (cases rule: AllocateFor_cases) (auto simp: Let_def)
  with r OpAllocate show ?thesis by simp
qed (simp add: Release_give_back)

lemma pool_run_nextLease:
  "pool_inv p \<Longrightarrow> \<exists>m \<le> length ops. pl_nextLease (pool_run p ops) = pl_nextLease p + of_nat m"
proof (induction ops arbitrary: p)
  case (Cons x xs)
  from Cons.IH[OF pool_step_inv[OF Cons.prems]] obtain m where
    m: "m \<le> length xs" "pl_nextLease (pool_run (pool_step p x) xs) = pl_nextLease (pool_step p x) + of_nat m" by blast
  from pool_step_nextLease[OF Cons.prems] show ?case
  proof
    assume "pl_nextLease (pool_step p x) = pl_nextLease p"
    with m show ?thesis by (intro exI[of _ m]) simp
  next
    assume "pl_nextLease (pool_step p x) = pl_nextLease p + 1"
    with m show ?thesis by (intro exI[of _ "Suc m"]) (simp add: add.assoc add.commute)
  qed
qed simp

lemma hostPrefix_addr: "a \<in> pool_hosts p \<Longrightarrow> px_addr (hostPrefix p a) = a"
  by (cases "px_addr (pl_prefix p)") (auto simp: hostPrefix_def pool_hosts_def)

lemma hostPrefix_bits:
  assumes "pool_shape p" "a \<in> pool_hosts p"
  shows "px_bits (hostPrefix p a) = (if pl_is4 p then 32 else 128)"
  using assms
  by (cases "px_addr (pl_prefix p)")
     (auto simp: hostPrefix_def prefix_from_def pool_hosts_def pool_shape_def)

lemma host_in_prefix:
  assumes "pool_shape p" "a \<in> pool_hosts p"
  shows "prefix_contains (pl_prefix p) a"
proof (cases "px_addr (pl_prefix p)")
  case NoAddr
  with assms show ?thesis by (simp add: pool_hosts_def)
next
  case (Addr4 w)
  let ?n = "32 - nat (px_bits (pl_prefix p))"
  from assms(1) Addr4 have m: "w AND NOT (mask ?n) = w" and v: "prefix_is_valid (pl_prefix p)"
    using masked_addr4 by (auto simp: pool_shape_def host_mask_def)
  from assms(2) Addr4 obtain x where x: "a = Addr4 x" "w < x" "x < w OR mask ?n"
    by (auto simp: pool_hosts_def host_mask_def)
  then have "drop_bit ?n (w XOR x) = 0" by (simp only: masked_range_iff[OF m] less_imp_le)
  with x v Addr4 show ?thesis by (simp add: prefix_contains.simps del: drop_bit_xor)
next
  case (Addr6 w z)
  from assms(1) Addr6 have c: "prefix_contains (pl_prefix p) (Addr6 v y) \<longleftrightarrow>
      y = [] \<and> w \<le> v \<and> v \<le> w OR host_mask 128 (px_bits (pl_prefix p))" for v y
    using contains6_iff[of "pl_prefix p" w z] by (simp add: pool_shape_def)
  from assms(2) Addr6 show ?thesis by (auto simp: pool_hosts_def c)
qed


section \<open>A pool in use\<close>

lemma NewIPPool_empty:
  assumes "NewIPPool cidr srv = Inr p"
  shows "pl_nextLease p = 0" "pl_inUse p = Map.empty" "pl_sticky p = Map.empty" "pl_lease p = Map.empty"
  using assms by (auto simp: NewIPPool_def Let_def split: option.splits if_splits)

lemma built_run_inv: "NewIPPool cidr srv = Inr p0 \<Longrightarrow> pool_inv (pool_run p0 ops)"
  by (rule pool_run_inv) (rule NewIPPool_inv)

lemma built_run_config: "NewIPPool cidr srv = Inr p0 \<Longrightarrow> same_config p0 (pool_run p0 ops)"
  by (rule pool_run_config) (rule NewIPPool_inv)

lemma built_run_hosts: "NewIPPool cidr srv = Inr p0 \<Longrightarrow> pool_hosts (pool_run p0 ops) = pool_hosts p0"
  by (rule pool_hosts_config) (rule built_run_config)

lemma finite_hosts: "finite (pool_hosts p)"
proof (cases "px_addr (pl_prefix p)")
  case (Addr4 w)
  have "pool_hosts p \<subseteq> range Addr4" using Addr4 by (auto simp: pool_hosts_def)
  then show ?thesis by (rule finite_subset) simp
next
  case (Addr6 w z)
  have "pool_hosts p \<subseteq> range (\<lambda>v. Addr6 v [])" using Addr6 by (auto simp: pool_hosts_def)
  then show ?thesis by (rule finite_subset) simp
qed (simp add: pool_hosts_def)

lemma hosts_not_server: "pl_server p \<notin> pool_hosts p"
  by (simp add: pool_hosts_def)

lemma AllocateFor_ok_addr:
  assumes "pool_inv p" "AllocateFor p cid = (p', Inr (pfx, lease))"
  shows "\<exists>a. a \<in> pool_hosts p \<and> pfx = hostPrefix p a \<and> used_set p' = insert a (used_set p)"
  using assms
proof (cases rule: AllocateFor_cases)
  case (sticky a)
  then show ?thesis by (intro exI[of _ a]) simp
next
  case (fresh x a)
  have "used_set p' = insert a (used_set p)"
    unfolding fresh(5) Let_def by (cases cid) simp_all
  with fresh(2,6) show ?thesis by blast
next
  case (failed x)
  then show ?thesis by simp
qed

section \<open>Concrete pools\<close>

definition the_pool :: "string \<Rightarrow> addr \<Rightarrow> pool" where
  "the_pool cidr srv = (case NewIPPool cidr srv of Inr p \<Rightarrow> p | Inl _ \<Rightarrow> undefined)"

lemma the_pool: "is_ok (NewIPPool cidr srv) \<Longrightarrow> NewIPPool cidr srv = Inr (the_pool cidr srv)"
  by (auto simp: the_pool_def is_ok_iff)

abbreviation small_pool :: pool where
  "small_pool \<equiv> the_pool ''10.8.0.0/29'' (Addr4 0x0a080001)"

lemma small_pool: "NewIPPool ''10.8.0.0/29'' (Addr4 0x0a080001) = Inr small_pool"
  by (rule the_pool) code_simp

section \<open>Soundness of the bookkeeping\<close>

text \<open>
  C6. Whatever calls a pool has served, the addresses in use are hosts of its prefix, never the
  server's own address; in an IPv4 pool the free list and the addresses in use partition the
  hosts, with no address twice in the free list, so \<open>Available\<close> is the number of hosts
  that nobody holds.
\<close>

theorem pool_partition:
  assumes "NewIPPool cidr srv = Inr p0"
  shows "used_set (pool_run p0 ops) \<subseteq> pool_hosts p0 \<and> pl_server p0 \<notin> pool_hosts p0 \<and>
    (pl_is4 p0 \<longrightarrow>
       distinct (pl_free (pool_run p0 ops)) \<and>
       set (pl_free (pool_run p0 ops)) = pool_hosts p0 - used_set (pool_run p0 ops) \<and>
       Available (pool_run p0 ops) =
         int (card (pool_hosts p0)) - int (card (used_set (pool_run p0 ops))))"
proof -
  let ?p = "pool_run p0 ops"
  have inv: "pool_inv ?p" using assms by (rule built_run_inv)
  have h: "pool_hosts ?p = pool_hosts p0" and i4: "pl_is4 ?p = pl_is4 p0"
    using built_run_hosts[OF assms] built_run_config[OF assms] by (simp_all add: same_config_def)
  have u: "used_set ?p \<subseteq> pool_hosts p0" using inv h by (simp add: pool_inv_def)
  have f: "distinct (pl_free ?p)" "set (pl_free ?p) = pool_hosts p0 - used_set ?p" if "pl_is4 p0"
    using inv h i4 that by (simp_all add: pool_inv_def)
  have "Available ?p = int (card (pool_hosts p0)) - int (card (used_set ?p))" if "pl_is4 p0"
  proof -
    have "length (pl_free ?p) = card (pool_hosts p0 - used_set ?p)"
      using f[OF that] distinct_card by metis
    also have "\<dots> = card (pool_hosts p0) - card (used_set ?p)"
      using u finite_hosts finite_subset by (intro card_Diff_subset) blast+
    finally show ?thesis
      using i4 that card_mono[OF finite_hosts u] by (simp add: Available_def of_nat_diff)
  qed
  with u f hosts_not_server show ?thesis by blast
qed

theorem pool_partition_witness:
  "Available (pool_run small_pool [OpAllocate ''a'', OpAllocate ''b'']) =
     int (card (pool_hosts small_pool)) -
     int (card (used_set (pool_run small_pool [OpAllocate ''a'', OpAllocate ''b''])))"
proof -
  have "pl_is4 small_pool" by code_simp
  with pool_partition[OF small_pool] show ?thesis by blast
qed

text \<open>
  C1. A successful allocation returns a single-address prefix (/32 or /128) of a host of the
  pool's prefix other than the server, marks it in use and disturbs no other address; if the
  address was in use already, then the caller has an identity and it is the address that
  identity was given before.
\<close>

theorem allocation_sound:
  assumes "NewIPPool cidr srv = Inr p0"
    and "AllocateFor (pool_run p0 ops) cid = (p', Inr (pfx, lease))"
  shows "px_addr pfx \<in> pool_hosts p0 \<and> prefix_contains (pl_prefix p0) (px_addr pfx) \<and>
    px_addr pfx \<noteq> pl_server p0 \<and> px_bits pfx = (if pl_is4 p0 then 32 else 128) \<and>
    used_set p' = insert (px_addr pfx) (used_set (pool_run p0 ops)) \<and>
    (in_use (pool_run p0 ops) (px_addr pfx) \<longrightarrow>
       cid \<noteq> [] \<and> pl_sticky (pool_run p0 ops) cid = Some (px_addr pfx))"
proof -
  let ?p = "pool_run p0 ops"
  have inv: "pool_inv ?p" using assms(1) by (rule built_run_inv)
  have c: "pl_prefix ?p = pl_prefix p0" "pl_server ?p = pl_server p0" "pl_is4 ?p = pl_is4 p0"
    using built_run_config[OF assms(1)] by (simp_all add: same_config_def)
  have h: "pool_hosts ?p = pool_hosts p0" using assms(1) by (rule built_run_hosts)
  from AllocateFor_ok_addr[OF inv assms(2)] obtain a where
    a: "a \<in> pool_hosts ?p" "pfx = hostPrefix ?p a" "used_set p' = insert a (used_set ?p)" by blast
  have sh: "pool_shape ?p" using inv by (simp add: pool_inv_def)
  have ad: "px_addr pfx = a" using a hostPrefix_addr by simp
  have st: "cid \<noteq> [] \<and> pl_sticky ?p cid = Some a" if "in_use ?p a"
    using inv assms(2)
  proof (cases rule: AllocateFor_cases)
    case (sticky b)
    then have "hostPrefix ?p a = hostPrefix ?p b" using a by simp
    with sticky a have "a = b" using hostPrefix_addr by metis
    with sticky show ?thesis by simp
  next
    case (fresh x b)
    then have "hostPrefix ?p a = hostPrefix ?p b" using a by simp
    with fresh a have "a = b" using hostPrefix_addr by metis
    with fresh(3) that show ?thesis by simp
  qed simp
  from a ad st c h host_in_prefix[OF sh a(1)] hostPrefix_bits[OF sh a(1)] hosts_not_server[of p0]
  show ?thesis by auto
qed

theorem allocation_sound_witness:
  "prefix_contains (pl_prefix small_pool) (Addr4 0x0a080006)"
proof -
  have "AllocateFor (pool_run small_pool []) ''a'' =
      (fst (AllocateFor small_pool ''a''), Inr (prefix_from (Addr4 0x0a080006) 32, 1))"
    unfolding pool_run_simps by (rule prod_eqI, simp) (simp, code_simp)
  from allocation_sound[OF small_pool this] show ?thesis by (simp add: prefix_from_def)
qed

text \<open>
  A client identity keeps its address: once an allocation for it has succeeded, every later
  allocation for it succeeds, whatever calls come in between, and returns the same prefix.
\<close>

theorem sticky_address_stable:
  assumes "NewIPPool cidr srv = Inr p0" and "cid \<noteq> []"
    and "AllocateFor (pool_run p0 ops) cid = (p1, Inr (pfx, l1))"
  shows "\<exists>p2 l2. AllocateFor (pool_run p1 ops') cid = (p2, Inr (pfx, l2))"
proof -
  have inv: "pool_inv (pool_run p0 ops)" using assms(1) by (rule built_run_inv)
  have p1: "p1 = pool_step (pool_run p0 ops) (OpAllocate cid)" using assms(3) by simp
  have inv1: "pool_inv p1" unfolding p1 by (rule pool_step_inv[OF inv])
  from AllocateFor_ok_sticky[OF inv assms(3,2)] obtain a where
    a: "pl_sticky p1 cid = Some a" "pfx = hostPrefix (pool_run p0 ops) a" by blast
  have s: "pl_sticky (pool_run p1 ops') cid = Some a" using inv1 a(1) by (rule pool_run_sticky)
  have "hostPrefix (pool_run p1 ops') a = pfx"
    using pool_run_config[OF inv1, of ops'] pool_step_config[OF inv, of "OpAllocate cid"] a(2)
    by (simp add: p1 same_config_def hostPrefix_def)
  with AllocateFor_sticky[OF assms(2) s] show ?thesis by auto
qed

theorem sticky_address_stable_witness:
  "\<exists>p1 p2 pfx l1 l2. AllocateFor small_pool ''a'' = (p1, Inr (pfx, l1)) \<and>
     AllocateFor (pool_run p1 [OpRelease ''a'' l1 pfx, OpAllocate ''b'']) ''a'' = (p2, Inr (pfx, l2))"
proof -
  have "is_ok (snd (AllocateFor small_pool ''a''))" by code_simp
  then obtain p1 pfx l1 where r: "AllocateFor small_pool ''a'' = (p1, Inr (pfx, l1))"
    by (cases "AllocateFor small_pool ''a''") (auto simp: is_ok_iff)
  have "AllocateFor (pool_run small_pool []) ''a'' = (p1, Inr (pfx, l1))" using r by simp
  from sticky_address_stable[OF small_pool _ this, of "[OpRelease ''a'' l1 pfx, OpAllocate ''b'']"]
  show ?thesis using r by (metis list.distinct(1))
qed

section \<open>Leases\<close>

lemma unat_lease_bound:
  assumes "pool_inv p" "unat (pl_nextLease p) + length ops < 2 ^ 64"
  shows "unat (pl_nextLease (pool_run p ops)) \<le> unat (pl_nextLease p) + length ops \<and>
         unat (pl_nextLease p) \<le> unat (pl_nextLease (pool_run p ops))"
proof -
  from pool_run_nextLease[OF assms(1)] obtain m where
    m: "m \<le> length ops" "pl_nextLease (pool_run p ops) = pl_nextLease p + of_nat m" by blast
  have "unat (of_nat m :: 64 word) = m"
    using m(1) assms(2) by (simp add: unat_of_nat take_bit_nat_eq_self)
  moreover have "unat (pl_nextLease p + of_nat m) = unat (pl_nextLease p) + unat (of_nat m :: 64 word)"
    using m(1) assms(2) calculation by (subst unat_add_lem[THEN iffD1]) simp_all
  ultimately show ?thesis using m by simp
qed

text \<open>The lease an identity has now, if any, was issued after the \<open>n\<close>-th allocation.\<close>

definition lease_after :: "nat \<Rightarrow> string \<Rightarrow> pool \<Rightarrow> bool" where
  "lease_after n cid p \<longleftrightarrow> (\<forall>v. pl_lease p cid = Some v \<longrightarrow> n < unat v)"

lemma AllocateFor_lease_map:
  assumes "pool_inv p"
  shows "pl_lease (fst (AllocateFor p c)) = pl_lease (open_lease p c)"
proof -
  obtain p' r where r: "AllocateFor p c = (p', r)" by (cases "AllocateFor p c")
  from assms r have "pl_lease p' = pl_lease (open_lease p c)"
  proof (cases rule: AllocateFor_cases)
    case (fresh x a)
    show ?thesis unfolding fresh(5) Let_def by (cases c) simp_all
  qed simp_all
  with r show ?thesis by simp
qed

lemma lease_after_step:
  assumes inv: "pool_inv p" and la: "lease_after n cid p"
    and n: "n \<le> unat (pl_nextLease p)" "unat (pl_nextLease p) + 1 < 2 ^ 64"
  shows "lease_after n cid (pool_step p x)"
proof (cases x)
  case (OpAllocate c)
  have "unat (pl_nextLease p + 1) = unat (pl_nextLease p) + 1"
    using n(2) by (subst unat_add_lem[THEN iffD1]) simp_all
  with la n(1) show ?thesis
    by (simp add: OpAllocate lease_after_def AllocateFor_lease_map[OF inv] open_lease_def Let_def)
next
  case (OpRelease c lease pfx)
  have "pl_lease (Release p c lease pfx) cid \<in> {None, pl_lease p cid}"
    by (simp add: Release_def Let_def)
  with la show ?thesis by (auto simp: OpRelease lease_after_def)
qed

lemma lease_after_run:
  "pool_inv p \<Longrightarrow> lease_after n cid p \<Longrightarrow> n \<le> unat (pl_nextLease p) \<Longrightarrow>
   unat (pl_nextLease p) + length ops < 2 ^ 64 \<Longrightarrow> lease_after n cid (pool_run p ops)"
proof (induction ops arbitrary: p)
  case (Cons x xs)
  have b: "unat (pl_nextLease (pool_step p x)) \<le> unat (pl_nextLease p) + 1"
    "unat (pl_nextLease p) \<le> unat (pl_nextLease (pool_step p x))"
    using unat_lease_bound[of p "[x]"] Cons.prems by simp_all
  have la: "lease_after n cid (pool_step p x)"
    using lease_after_step[OF Cons.prems(1-3)] Cons.prems(4) by simp
  show ?case
    using Cons.IH[OF pool_step_inv[OF Cons.prems(1)] la] b Cons.prems(3,4) by simp
qed simp

lemma stale_release_noop:
  assumes "lease_after (unat l) cid p" "cid \<noteq> []" "l \<noteq> 0"
  shows "Release p cid l pfx = p"
  using assms by (auto simp: Release_def Let_def lease_after_def go_get_def split: option.splits)

text \<open>
  C8. A session that was superseded cannot take the address of its successor away: after the
  same identity has been given a newer lease, releasing with the older one changes nothing,
  whatever calls come before, between and after. The bound on the number of calls keeps the
  64-bit lease counter from wrapping.
\<close>

theorem stale_release_ignored:
  assumes "NewIPPool cidr srv = Inr p0" and "cid \<noteq> []"
    and "AllocateFor (pool_run p0 ops) cid = (p1, Inr (pfx1, l1))"
    and "AllocateFor (pool_run p1 ops') cid = (p2, Inr (pfx2, l2))"
    and "length ops + length ops' + length ops'' + 2 < 2 ^ 64"
  shows "Release (pool_run p2 ops'') cid l1 pfx = pool_run p2 ops''"
proof -
  let ?p = "pool_run p0 ops" and ?q = "pool_run p1 ops'"
  have n0: "pl_nextLease p0 = 0" using assms(1) by (rule NewIPPool_empty)
  have inv: "pool_inv ?p" using assms(1) by (rule built_run_inv)
  have inv1: "pool_inv p1" using AllocateFor_inv[OF inv, of cid] assms(3) by simp
  have invq: "pool_inv ?q" using inv1 by (rule pool_run_inv)
  have inv2: "pool_inv p2" using AllocateFor_inv[OF invq, of cid] assms(4) by simp
  have "unat (pl_nextLease ?p) \<le> length ops"
    using unat_lease_bound[OF NewIPPool_inv[OF assms(1)], of ops] n0 assms(5) by simp
  moreover have l1: "l1 = pl_nextLease ?p + 1" "pl_nextLease p1 = l1"
    using AllocateFor_lease[OF inv assms(3)] by simp_all
  ultimately have u1: "unat l1 = unat (pl_nextLease ?p) + 1" "unat l1 \<le> length ops + 1"
    using assms(5) unat_add_lem[of "pl_nextLease ?p" 1] by simp_all
  have uq: "unat (pl_nextLease ?q) \<le> length ops + 1 + length ops'" "unat l1 \<le> unat (pl_nextLease ?q)"
    using unat_lease_bound[OF inv1, of ops'] u1 l1(2) assms(5) by simp_all
  have l2: "l2 = pl_nextLease ?q + 1" "pl_nextLease p2 = l2"
    using AllocateFor_lease[OF invq assms(4)] by simp_all
  have u2: "unat l2 = unat (pl_nextLease ?q) + 1"
    using l2(1) uq(1) assms(5) unat_add_lem[of "pl_nextLease ?q" 1] by simp
  have "pl_lease p2 = pl_lease (open_lease ?q cid)"
    using AllocateFor_lease_map[OF invq, of cid] assms(4) by simp
  then have "pl_lease p2 cid = Some l2" using assms(2) l2(1) by (simp add: open_lease_def Let_def)
  then have "lease_after (unat l1) cid p2" using u2 uq(2) by (simp add: lease_after_def)
  then have "lease_after (unat l1) cid (pool_run p2 ops'')"
    using inv2 u2 uq l2(2) assms(5) by (intro lease_after_run) simp_all
  moreover have "l1 \<noteq> 0" using u1(1) by auto
  ultimately show ?thesis using assms(2) by (intro stale_release_noop)
qed

lemma AllocateFor_ok:
  "is_ok (snd (AllocateFor p cid)) \<Longrightarrow>
   \<exists>pfx l. AllocateFor p cid = (fst (AllocateFor p cid), Inr (pfx, l))"
  by (cases "AllocateFor p cid") (auto simp: is_ok_iff)

theorem stale_release_ignored_witness:
  "\<exists>p1 p2 pfx1 pfx2 l1 l2. AllocateFor small_pool ''a'' = (p1, Inr (pfx1, l1)) \<and>
     AllocateFor p1 ''a'' = (p2, Inr (pfx2, l2)) \<and> Release p2 ''a'' l1 pfx1 = p2"
proof -
  let ?p1 = "fst (AllocateFor small_pool ''a'')"
  have ok: "is_ok (snd (AllocateFor small_pool ''a''))" "is_ok (snd (AllocateFor ?p1 ''a''))"
    by code_simp+
  from AllocateFor_ok[OF ok(1)] obtain pfx1 l1 where
    r1: "AllocateFor (pool_run small_pool []) ''a'' = (?p1, Inr (pfx1, l1))"
    unfolding pool_run_simps by blast
  from AllocateFor_ok[OF ok(2)] obtain pfx2 l2 where
    r2: "AllocateFor (pool_run ?p1 []) ''a'' = (fst (AllocateFor ?p1 ''a''), Inr (pfx2, l2))"
    unfolding pool_run_simps by blast
  note r = r1 r2
  from stale_release_ignored[OF small_pool _ r, of "[]" pfx1]
  have "Release (fst (AllocateFor ?p1 ''a'')) ''a'' l1 pfx1 = fst (AllocateFor ?p1 ''a'')" by simp
  with r show ?thesis unfolding pool_run_simps by blast
qed

text \<open>
  Release undoes an allocation: a client that was given an address nobody held and gives it
  back at once leaves the pool with the same addresses in use and, for IPv4, the same free
  addresses.
\<close>

theorem release_undoes_allocation:
  assumes "NewIPPool cidr srv = Inr p0"
    and "AllocateFor (pool_run p0 ops) cid = (p1, Inr (pfx, lease))"
    and "\<not> in_use (pool_run p0 ops) (px_addr pfx)"
  shows "used_set (Release p1 cid lease pfx) = used_set (pool_run p0 ops) \<and>
    (pl_is4 p0 \<longrightarrow> set (pl_free (Release p1 cid lease pfx)) = set (pl_free (pool_run p0 ops)))"
proof -
  let ?p = "pool_run p0 ops" and ?q = "Release p1 cid lease pfx"
  have inv: "pool_inv ?p" using assms(1) by (rule built_run_inv)
  have inv1: "pool_inv p1" using AllocateFor_inv[OF inv, of cid] assms(2) by simp
  have cur: "cid \<noteq> [] \<Longrightarrow> go_get 0 (pl_lease p1) cid = lease"
    using AllocateFor_lease(3)[OF inv assms(2)] .
  have u1: "used_set p1 = insert (px_addr pfx) (used_set ?p)"
    using AllocateFor_ok_addr[OF inv assms(2)] hostPrefix_addr by auto
  then have m: "in_use p1 (px_addr pfx)" by (auto simp: used_set_def)
  have uq: "used_set ?q = used_set p1 - {px_addr pfx}"
    using cur m by (auto simp: Release_def Let_def used_set_def split: if_splits)
  then have u: "used_set ?q = used_set ?p" using u1 assms(3) by (auto simp: used_set_def)
  have "same_config ?p (pool_step (pool_step ?p (OpAllocate cid)) (OpRelease cid lease pfx))"
    using pool_run_config[OF inv, of "[OpAllocate cid, OpRelease cid lease pfx]"] by simp
  then have c: "same_config ?p ?q" using assms(2) by simp
  have "pool_inv ?q" using inv1 by (rule Release_inv)
  then have "set (pl_free ?q) = set (pl_free ?p)" if "pl_is4 p0"
    using inv u c pool_hosts_config[OF c] built_run_config[OF assms(1), of ops] that
    by (simp add: pool_inv_def same_config_def)
  with u show ?thesis by blast
qed

theorem release_undoes_allocation_witness:
  "\<exists>p1 pfx l. AllocateFor small_pool ''a'' = (p1, Inr (pfx, l)) \<and>
     used_set (Release p1 ''a'' l pfx) = used_set small_pool"
proof -
  have e: "pool_run small_pool [] = small_pool" by simp
  have "is_ok (snd (AllocateFor small_pool ''a''))" by code_simp
  from AllocateFor_ok[OF this] obtain pfx l where
    r: "AllocateFor (pool_run small_pool []) ''a'' = (fst (AllocateFor small_pool ''a''), Inr (pfx, l))"
    unfolding e by blast
  have "pl_inUse small_pool = Map.empty" using small_pool by (rule NewIPPool_empty)
  then have "\<not> in_use (pool_run small_pool []) (px_addr pfx)" unfolding e by simp
  from release_undoes_allocation[OF small_pool r this] r show ?thesis unfolding e by blast
qed

section \<open>Exhaustion\<close>

text \<open>
  C15. An allocation fails only when the pool is exhausted and the identity has no address of
  its own: every host of an IPv4 pool is in use; the IPv6 search gives up only when every host
  is in use or at least 65535 of them are (the loop bound, less the server's own address).
\<close>

theorem allocation_fails_only_if_exhausted:
  assumes "NewIPPool cidr srv = Inr p0"
    and "AllocateFor (pool_run p0 ops) cid = (p', Inl e)"
  shows "e = PoolExhausted \<and> (cid = [] \<or> pl_sticky (pool_run p0 ops) cid = None) \<and>
    used_set p' = used_set (pool_run p0 ops) \<and>
    (used_set (pool_run p0 ops) = pool_hosts p0 \<or>
     \<not> pl_is4 p0 \<and> 65535 \<le> card (used_set (pool_run p0 ops)))"
proof -
  let ?p = "pool_run p0 ops"
  have inv: "pool_inv ?p" using assms(1) by (rule built_run_inv)
  have h: "pool_hosts ?p = pool_hosts p0" using assms(1) by (rule built_run_hosts)
  have i4: "pl_is4 ?p = pl_is4 p0" using built_run_config[OF assms(1)] by (simp add: same_config_def)
  have u: "used_set ?p \<subseteq> pool_hosts p0" using inv h by (simp add: pool_inv_def)
  then have fin: "finite (used_set ?p)" using finite_hosts finite_subset by blast
  from inv assms(2) show ?thesis
  proof (cases rule: AllocateFor_cases)
    case (failed x)
    have "used_set p' = used_set ?p" unfolding failed(2) by simp
    moreover from alloc_fail_full[OF _ failed(5)] inv
    have "pool_hosts ?p \<subseteq> used_set ?p \<or>
      \<not> pl_is4 ?p \<and> (\<exists>V\<subseteq>used_set ?p. finite V \<and> maxIPv6Search \<le> Suc (card V))" by simp
    moreover have "65535 \<le> card (used_set ?p)"
      if "V \<subseteq> used_set ?p" "maxIPv6Search \<le> Suc (card V)" for V
      using card_mono[OF fin that(1)] that(2) by (simp add: maxIPv6Search_def)
    ultimately show ?thesis using failed(1,4) u h i4 by auto
  qed simp_all
qed

theorem allocation_fails_only_if_exhausted_witness:
  "used_set (pool_run (the_pool ''10.8.0.0/30'' (Addr4 0x0a080001)) [OpAllocate ''a'']) =
   pool_hosts (the_pool ''10.8.0.0/30'' (Addr4 0x0a080001))"
proof -
  let ?p = "the_pool ''10.8.0.0/30'' (Addr4 0x0a080001)"
  have ok: "NewIPPool ''10.8.0.0/30'' (Addr4 0x0a080001) = Inr ?p" by (rule the_pool) code_simp
  have "snd (AllocateFor (pool_run ?p [OpAllocate ''a'']) ''b'') = Inl PoolExhausted" by code_simp
  then have f: "AllocateFor (pool_run ?p [OpAllocate ''a'']) ''b'' =
      (fst (AllocateFor (pool_run ?p [OpAllocate ''a'']) ''b''), Inl PoolExhausted)"
    by (simp add: prod_eq_iff)
  have "pl_is4 ?p" by code_simp
  with allocation_fails_only_if_exhausted[OF ok f] show ?thesis by blast
qed

section \<open>A sticky address may be held by someone else\<close>

lemma allocFresh_last: "pl_is4 p \<Longrightarrow> pl_free p = xs @ [a] \<Longrightarrow> allocFreshLocked p = (p\<lparr>pl_free := xs\<rparr>, Some a)"
  by (simp add: allocFreshLocked_def)

lemma Release_free:
  assumes "cid \<noteq> []" "go_get 0 (pl_lease p) cid = l" "in_use p (px_addr pfx)" "pl_is4 p"
  shows "pl_free (Release p cid l pfx) = pl_free p @ [px_addr pfx]"
  using assms by (simp add: Release_def Let_def)

text \<open>
  The sticky rule defeats exclusivity. In an IPv4 pool, a client that leaves has its address
  put at the end of the free list, where the next fresh allocation takes it; when the first
  client comes back it is given the same address by its sticky entry, with no check that it is
  in use: two identities hold one address at the same time.
\<close>

theorem sticky_collision:
  assumes "NewIPPool cidr srv = Inr p0" and "pl_is4 p0"
    and "c1 \<noteq> []" and "c2 \<noteq> []" and "c1 \<noteq> c2"
    and "pl_sticky (pool_run p0 ops) c2 = None"
    and "AllocateFor (pool_run p0 ops) c1 = (p1, Inr (pfx, l1))"
    and "AllocateFor (Release p1 c1 l1 pfx) c2 = (p2, r2)"
  shows "r2 = Inr (pfx, l1 + 1) \<and> in_use p2 (px_addr pfx) \<and>
         (\<exists>p3. AllocateFor p2 c1 = (p3, Inr (pfx, l1 + 2)))"
proof -
  let ?p = "pool_run p0 ops" and ?q = "Release p1 c1 l1 pfx"
  have inv: "pool_inv ?p" using assms(1) by (rule built_run_inv)
  have cf: "same_config ?p ?q" "same_config ?p p1"
    using pool_run_config[OF inv, of "[OpAllocate c1, OpRelease c1 l1 pfx]"]
      pool_step_config[OF inv, of "OpAllocate c1"] assms(7) by simp_all
  have inv1: "pool_inv p1" using AllocateFor_inv[OF inv, of c1] assms(7) by simp
  have invq: "pool_inv ?q" using inv1 by (rule Release_inv)
  have i4: "pl_is4 ?p" "pl_is4 p1" "pl_is4 ?q"
    using assms(2,7) cf built_run_config[OF assms(1), of ops] by (simp_all add: same_config_def)
  from AllocateFor_ok_addr[OF inv assms(7)] obtain a where
    a: "a \<in> pool_hosts ?p" "pfx = hostPrefix ?p a" "used_set p1 = insert a (used_set ?p)" by blast
  have ad: "px_addr pfx = a" using a hostPrefix_addr by simp
  have m: "in_use p1 a" using a(3) by (auto simp: used_set_def)
  have l: "l1 = pl_nextLease ?p + 1" "pl_nextLease p1 = l1" "go_get 0 (pl_lease p1) c1 = l1"
    using AllocateFor_lease[OF inv assms(7)] assms(3) by simp_all
  from AllocateFor_ok_sticky[OF inv assms(7,3)] a(2) hostPrefix_addr[OF a(1)] inv1
  have s1: "pl_sticky p1 c1 = Some a"
    using hostPrefix_addr pool_hosts_config[OF cf(2)] unfolding pool_inv_def by (metis ranI subsetD)
  have fq: "pl_free ?q = pl_free p1 @ [a]"
    using Release_free[OF assms(3) l(3) _ i4(2), of pfx] m ad by simp
  have sq: "pl_sticky ?q = pl_sticky p1" "pl_nextLease ?q = l1"
    using l(2) by (simp_all add: Release_give_back)
  have s2: "pl_sticky p1 c2 = None"
    using inv assms(7)
    by (cases rule: AllocateFor_cases) (use assms(5,6) in \<open>auto simp: Let_def\<close>)
  have al: "allocFreshLocked (open_lease ?q c2) = (open_lease ?q c2\<lparr>pl_free := pl_free p1\<rparr>, Some a)"
    using i4(3) fq by (intro allocFresh_last) simp_all
  have hq: "hostPrefix ?q a = pfx"
    using cf(1) assms(7) a(2) by (simp add: same_config_def hostPrefix_def)
  have fr: "AllocateFor ?q c2 =
    (let q = mark_used (open_lease ?q c2\<lparr>pl_free := pl_free p1\<rparr>) a
     in (q\<lparr>pl_sticky := (pl_sticky q)(c2 \<mapsto> a)\<rparr>, Inr (pfx, l1 + 1)))"
    using AllocateFor_fresh[of c2 ?q] al sq s2 assms(4) hq by (simp add: Let_def)
  then have r2: "r2 = Inr (pfx, l1 + 1)" using assms(8) by (simp add: Let_def)
  have p2: "p2 = (mark_used (open_lease ?q c2\<lparr>pl_free := pl_free p1\<rparr>) a)
      \<lparr>pl_sticky := (pl_sticky ?q)(c2 \<mapsto> a)\<rparr>"
    using fr assms(8) by (simp add: Let_def)
  have p2f: "in_use p2 a" "pl_sticky p2 c1 = Some a" "pl_nextLease p2 = l1 + 1" "hostPrefix p2 a = pfx"
    unfolding p2 using s1 sq assms(5) hq by simp_all
  have "AllocateFor p2 c1 = (mark_used (takeFree (open_lease p2 c1) a) a, Inr (pfx, l1 + 2))"
    using AllocateFor_sticky[OF assms(3) p2f(2)] p2f(3,4) by simp
  with r2 p2f(1) ad show ?thesis by blast
qed

theorem sticky_collision_witness:
  "\<exists>p1 p2 p3 pfx l1 l2 l3.
     AllocateFor small_pool ''a'' = (p1, Inr (pfx, l1)) \<and>
     AllocateFor (Release p1 ''a'' l1 pfx) ''b'' = (p2, Inr (pfx, l2)) \<and>
     in_use p2 (px_addr pfx) \<and> AllocateFor p2 ''a'' = (p3, Inr (pfx, l3))"
proof -
  have e: "pool_run small_pool [] = small_pool" by simp
  have "is_ok (snd (AllocateFor small_pool ''a''))" by code_simp
  from AllocateFor_ok[OF this] obtain pfx l1 where
    r: "AllocateFor (pool_run small_pool []) ''a'' = (fst (AllocateFor small_pool ''a''), Inr (pfx, l1))"
    unfolding e by blast
  have i4: "pl_is4 small_pool" by code_simp
  have s: "pl_sticky (pool_run small_pool []) ''b'' = None"
    unfolding e using NewIPPool_empty(3)[OF small_pool] by simp
  obtain p2 r2 where r2: "AllocateFor (Release (fst (AllocateFor small_pool ''a'')) ''a'' l1 pfx) ''b'' = (p2, r2)"
    by (cases "AllocateFor (Release (fst (AllocateFor small_pool ''a'')) ''a'' l1 pfx) ''b''")
  from sticky_collision[OF small_pool i4 _ _ _ s r r2] r r2 show ?thesis unfolding e by fastforce
qed

section \<open>Construction\<close>

lemma NewIPPool_no_panic: "NewIPPool cidr srv \<noteq> Inl PoolPanic"
proof (cases "parse_prefix cidr")
  case (Some pfx0)
  let ?p = "prefix_masked pfx0"
  have wf: "prefix_wf ?p" "prefix_is_valid ?p"
    using parse_prefix_wf[OF Some] prefix_masked_wf masked_valid by auto
  have "lastIPOfPrefix ?p \<noteq> None" if "addr_is4 (px_addr ?p)"
  proof -
    from that obtain w where w: "px_addr ?p = Addr4 w" by (cases "px_addr ?p") auto
    with wf lastIP_Addr4[OF w] show ?thesis by (simp add: prefix_wf_def prefix_is_valid_def)
  qed
  then show ?thesis by (auto simp: NewIPPool_def Some Let_def split: option.splits)
qed (simp add: NewIPPool_def)

lemma addr_next_neq: "addr_is_valid (addr_next a) \<Longrightarrow> addr_next a \<noteq> a"
  by (cases a) auto

lemma firstIPv6Candidate_facts:
  assumes "addr_is_valid (firstIPv6Candidate pfx srv)"
  shows "firstIPv6Candidate pfx srv \<noteq> srv" "prefix_contains pfx (firstIPv6Candidate pfx srv)"
proof -
  show "firstIPv6Candidate pfx srv \<noteq> srv"
    using assms addr_next_neq by (auto simp: firstIPv6Candidate_def Let_def split: if_splits)
  show "prefix_contains pfx (firstIPv6Candidate pfx srv)"
    using assms by (auto simp: firstIPv6Candidate_def Let_def split: if_splits)
qed

lemma NewIPPool_nonempty:
  assumes "NewIPPool cidr srv = Inr p"
  shows "pool_hosts p \<noteq> {} \<and> 0 < Available p"
proof (cases "pl_is4 p")
  case True
  with assms have "pl_free p \<noteq> []"
    by (auto simp: NewIPPool_def Let_def split: option.splits if_splits)
  with True NewIPPool_inv[OF assms] show ?thesis
    by (cases "pl_free p") (auto simp: pool_inv_def Available_def)
next
  case False
  with assms have nx: "pl_next p = firstIPv6Candidate (pl_prefix p) (pl_server p)" "addr_is_valid (pl_next p)"
    by (auto simp: NewIPPool_def Let_def split: option.splits if_splits)
  from False NewIPPool_inv[OF assms] obtain f l where "v6_layout p f l"
    by (auto simp: pool_inv_def cursor_ok_def)
  with nx firstIPv6Candidate_facts[of "pl_prefix p" "pl_server p"] have "pl_next p \<in> pool_hosts p"
    by (auto simp: v6_layout_def)
  with nx False firstIPv6Candidate_facts[of "pl_prefix p" "pl_server p"] show ?thesis
    by (auto simp: Available_def)
qed

text \<open>
  \<open>NewIPPool\<close> never indexes out of range: the broadcast address of an IPv4 pool prefix
  always exists; and a pool it builds serves its first client.
\<close>

theorem NewIPPool_serves:
  "NewIPPool cidr srv \<noteq> Inl PoolPanic \<and>
   (case NewIPPool cidr srv of
      Inr p \<Rightarrow> 0 < Available p \<and> is_ok (snd (AllocateFor p cid))
    | Inl _ \<Rightarrow> True)"
proof (cases "NewIPPool cidr srv")
  case (Inr p)
  have inv: "pool_inv p" using Inr by (rule NewIPPool_inv)
  have u: "used_set p = {}" using NewIPPool_empty(2)[OF Inr] by (simp add: used_set_def)
  obtain p' r where r: "AllocateFor p cid = (p', r)" by (cases "AllocateFor p cid")
  from inv r have "is_ok r"
  proof (cases rule: AllocateFor_cases)
    case (failed x)
    with alloc_fail_full[OF _ failed(5)] inv u NewIPPool_nonempty[OF Inr] show ?thesis
      by (auto simp: maxIPv6Search_def)
  qed simp_all
  with r Inr NewIPPool_nonempty[OF Inr] show ?thesis by simp
qed (use NewIPPool_no_panic in auto)

end
