(* ===== verification/LeasePool.thy ===== *)
theory LeasePool
  imports Netip
begin

text \<open>
  The contract between the session handler and the address pool: what an allocation and a
  release do to the set of addresses in use, to the current lease of a client and to the
  address bound to it. The client side, proved once here, is that every address in use is
  backed by an outstanding grant whose lease is current, so that a server whose sessions have
  all released holds no address.
\<close>

type_synonym 'l grant = "string \<times> 'l \<times> prefix"

locale lease_pool =
  fixes inv :: "'p \<Rightarrow> bool"
    and alloc :: "'p \<Rightarrow> string \<Rightarrow> 'p \<times> ('e + prefix \<times> 'l)"
    and release :: "'p \<Rightarrow> string \<Rightarrow> 'l \<Rightarrow> prefix \<Rightarrow> 'p"
    and used :: "'p \<Rightarrow> addr set"
    and current :: "'p \<Rightarrow> string \<Rightarrow> 'l \<Rightarrow> bool"
    and bound :: "'p \<Rightarrow> string \<Rightarrow> addr option"
  assumes alloc_inv: "inv p \<Longrightarrow> inv (fst (alloc p cn))"
    and release_inv: "inv p \<Longrightarrow> inv (release p cn l x)"
    and alloc_ok: "inv p \<Longrightarrow> alloc p cn = (p', Inr (x, l)) \<Longrightarrow>
      used p' = insert (px_addr x) (used p) \<and> current p' cn l \<and>
      (cn \<noteq> [] \<longrightarrow> bound p' cn = Some (px_addr x))"
    and alloc_err: "inv p \<Longrightarrow> alloc p cn = (p', Inl e) \<Longrightarrow>
      used p' = used p \<and> (cn = [] \<or> bound p cn = None)"
    and alloc_bound: "inv p \<Longrightarrow> bound p c = Some a \<Longrightarrow> bound (fst (alloc p cn)) c = Some a"
    and alloc_other: "inv p \<Longrightarrow> c \<noteq> cn \<or> c = [] \<Longrightarrow> current p c k \<Longrightarrow> current (fst (alloc p cn)) c k"
    and release_used: "inv p \<Longrightarrow>
      used (release p cn l x) = (if current p cn l then used p - {px_addr x} else used p)"
    and release_bound: "bound (release p cn l x) = bound p"
    and release_other: "c \<noteq> cn \<or> c = [] \<Longrightarrow> current p c k \<Longrightarrow> current (release p cn l x) c k"
    and release_stale: "\<not> current p cn l \<Longrightarrow> release p cn l x = p"
begin

definition backed :: "'p \<Rightarrow> 'l grant set \<Rightarrow> bool" where
  "backed p G \<longleftrightarrow> inv p \<and>
     (\<forall>cn l x. (cn, l, x) \<in> G \<and> cn \<noteq> [] \<longrightarrow> bound p cn = Some (px_addr x)) \<and>
     (\<forall>a \<in> used p. \<exists>cn l x. (cn, l, x) \<in> G \<and> px_addr x = a \<and> current p cn l)"

lemma backed_inv: "backed p G \<Longrightarrow> inv p"
  by (simp add: backed_def)

lemma backed_used:
  assumes "backed p G" "a \<in> used p"
  obtains c k y where "(c, k, y) \<in> G" "px_addr y = a" "current p c k"
  using assms unfolding backed_def by blast

lemma backed_bound: "backed p G \<Longrightarrow> (c, k, y) \<in> G \<Longrightarrow> c \<noteq> [] \<Longrightarrow> bound p c = Some (px_addr y)"
  unfolding backed_def by blast

lemma backed_alloc_ok:
  assumes b: "backed p G" and r: "alloc p cn = (p', Inr (x, l))"
  shows "backed p' (insert (cn, l, x) G)"
proof -
  have p: "inv p" using b by (rule backed_inv)
  have p': "p' = fst (alloc p cn)" using r by simp
  note ok = alloc_ok[OF p r]
  have bnd: "bound p' c = Some (px_addr y)" if "(c, k, y) \<in> insert (cn, l, x) G" "c \<noteq> []" for c k y
  proof (cases "(c, k, y) \<in> G")
    case True
    from backed_bound[OF b this that(2)] have "bound p c = Some (px_addr y)" .
    from alloc_bound[OF p this] show ?thesis by (simp add: p')
  next
    case False
    with that ok show ?thesis by auto
  qed
  have "\<exists>c k y. (c, k, y) \<in> insert (cn, l, x) G \<and> px_addr y = a \<and> current p' c k" if a: "a \<in> used p'" for a
  proof (cases "a = px_addr x")
    case True
    with ok show ?thesis by blast
  next
    case False
    with a ok have "a \<in> used p" by simp
    with b obtain c k y where g: "(c, k, y) \<in> G" "px_addr y = a" "current p c k"
      by (rule backed_used)
    have "c \<noteq> cn \<or> c = []" using bnd[of c k y] g(1,2) ok False by (cases "c = []") auto
    from alloc_other[OF p this g(3)] g show ?thesis by (auto simp: p')
  qed
  moreover have "inv p'" using alloc_inv[OF p] by (simp add: p')
  ultimately show ?thesis using bnd unfolding backed_def by blast
qed

lemma backed_alloc_err:
  assumes b: "backed p G" and r: "alloc p cn = (p', Inl e)"
  shows "backed p' G"
proof -
  have p: "inv p" using b by (rule backed_inv)
  have p': "p' = fst (alloc p cn)" using r by simp
  note er = alloc_err[OF p r]
  have "\<exists>c k y. (c, k, y) \<in> G \<and> px_addr y = a \<and> current p' c k" if a: "a \<in> used p'" for a
  proof -
    from a er have "a \<in> used p" by simp
    with b obtain c k y where g: "(c, k, y) \<in> G" "px_addr y = a" "current p c k"
      by (rule backed_used)
    have "c \<noteq> cn \<or> c = []" using backed_bound[OF b g(1)] er by (cases "c = []") auto
    from alloc_other[OF p this g(3)] g show ?thesis by (auto simp: p')
  qed
  moreover have "inv p'" using alloc_inv[OF p] by (simp add: p')
  moreover have "bound p' c = Some (px_addr y)" if "(c, k, y) \<in> G" "c \<noteq> []" for c k y
    using b that alloc_bound[OF p] by (auto simp: backed_def p')
  ultimately show ?thesis unfolding backed_def by blast
qed

lemma backed_release:
  assumes b: "backed p G" and g: "(cn, l, x) \<in> G" and G': "G - {(cn, l, x)} \<subseteq> G'" "G' \<subseteq> G"
  shows "backed (release p cn l x) G'"
proof -
  let ?q = "release p cn l x"
  have p: "inv p" using b by (rule backed_inv)
  have "\<exists>c k y. (c, k, y) \<in> G' \<and> px_addr y = a \<and> current ?q c k" if a: "a \<in> used ?q" for a
  proof (cases "current p cn l")
    case True
    with a release_used[OF p] have a': "a \<in> used p" "a \<noteq> px_addr x" by auto
    from b a'(1) obtain c k y where y: "(c, k, y) \<in> G" "px_addr y = a" "current p c k"
      by (rule backed_used)
    with a'(2) have "(c, k, y) \<in> G'" using G' by auto
    moreover have "c \<noteq> cn \<or> c = []" using backed_bound[OF b y(1)] backed_bound[OF b g] y(2) a'(2) by (cases "c = []") auto
    ultimately show ?thesis using release_other y by blast
  next
    case False
    with release_stale have q: "?q = p" by simp
    with a have "a \<in> used p" by simp
    with b obtain c k y where y: "(c, k, y) \<in> G" "px_addr y = a" "current p c k"
      by (rule backed_used)
    with False G' have "(c, k, y) \<in> G'" by auto
    with y q show ?thesis by auto
  qed
  moreover have "bound ?q c = Some (px_addr y)" if "(c, k, y) \<in> G'" "c \<noteq> []" for c k y
    using backed_bound[OF b subsetD[OF G'(2) that(1)] that(2)] by (simp add: release_bound)
  ultimately show ?thesis using release_inv[OF p] unfolding backed_def by blast
qed

lemma backed_same: "backed p G \<Longrightarrow> G' = G \<Longrightarrow> backed p G'"
  by simp

lemma backed_empty: "backed p {} \<Longrightarrow> used p = {}"
  by (auto simp: backed_def)

lemma backed_fresh: "inv p \<Longrightarrow> used p = {} \<Longrightarrow> backed p {}"
  by (simp add: backed_def)

end

end
