(* ===== verification/IPPoolLease.thy ===== *)
theory IPPoolLease
  imports IPPoolProps LeasePool
begin

text \<open>The address pool meets the contract of its client, the session handler.\<close>

text \<open>A lease is current when \<open>Release\<close> would act on it.\<close>

definition lease_current :: "pool \<Rightarrow> string \<Rightarrow> lease_id \<Rightarrow> bool" where
  "lease_current p cid l \<longleftrightarrow> cid = [] \<or> go_get 0 (pl_lease p) cid = l"

lemma Release_used:
  "pool_inv p \<Longrightarrow>
   used_set (Release p cid l x) = (if lease_current p cid l then used_set p - {px_addr x} else used_set p)"
  by (auto simp: Release_def Let_def lease_current_def used_set_def split: if_splits)

lemma AllocateFor_sticky_addr:
  assumes "pool_inv p" "AllocateFor p cid = (p', Inr (x, l))" "cid \<noteq> []"
  shows "pl_sticky p' cid = Some (px_addr x)"
proof -
  from AllocateFor_ok_sticky[OF assms] obtain a where a: "pl_sticky p' cid = Some a" "x = hostPrefix p a" by blast
  have "pool_inv p'" using AllocateFor_inv[OF assms(1), of cid] assms(2) by simp
  moreover have "pool_hosts p' = pool_hosts p"
    using pool_hosts_config[OF pool_step_config[OF assms(1), of "OpAllocate cid"]] assms(2) by simp
  ultimately have "a \<in> pool_hosts p" using a(1) by (auto simp: pool_inv_def ran_def)
  with a hostPrefix_addr show ?thesis by simp
qed

lemma AllocateFor_current:
  "pool_inv p \<Longrightarrow> c \<noteq> cid \<or> c = [] \<Longrightarrow> lease_current p c k \<Longrightarrow> lease_current (fst (AllocateFor p cid)) c k"
  by (auto simp: lease_current_def AllocateFor_lease_map)

lemma Release_current:
  "c \<noteq> cid \<or> c = [] \<Longrightarrow> lease_current p c k \<Longrightarrow> lease_current (Release p cid l x) c k"
  by (auto simp: lease_current_def Release_def Let_def)

lemma AllocateFor_err:
  assumes "pool_inv p" "AllocateFor p cid = (p', Inl e)"
  shows "used_set p' = used_set p \<and> (cid = [] \<or> pl_sticky p cid = None)"
  using assms
proof (cases rule: AllocateFor_cases)
  case (failed x)
  have "used_set p' = used_set p" unfolding failed(2) by simp
  with failed(1) show ?thesis by blast
qed simp_all

interpretation ip: lease_pool pool_inv AllocateFor Release used_set lease_current pl_sticky
proof
  fix p cn p' x l assume a: "pool_inv p" "AllocateFor p cn = (p', Inr (x, l))"
  from AllocateFor_ok_addr[OF a] hostPrefix_addr have "used_set p' = insert (px_addr x) (used_set p)" by auto
  moreover have "lease_current p' cn l" using AllocateFor_lease(3)[OF a] by (auto simp: lease_current_def)
  ultimately show "used_set p' = insert (px_addr x) (used_set p) \<and> lease_current p' cn l \<and>
      (cn \<noteq> [] \<longrightarrow> pl_sticky p' cn = Some (px_addr x))"
    using AllocateFor_sticky_addr[OF a] by blast
next
  fix p c a cn assume "pool_inv p" "pl_sticky p c = Some a"
  from pool_step_sticky[OF this, of "OpAllocate cn"] show "pl_sticky (fst (AllocateFor p cn)) c = Some a" by simp
next
  fix p :: pool and cn l x
  show "pl_sticky (Release p cn l x) = pl_sticky p" by (simp add: Release_give_back)
next
  fix p :: pool and cn l x assume "\<not> lease_current p cn l"
  then show "Release p cn l x = p" by (auto simp: Release_def Let_def lease_current_def)
qed (simp_all add: AllocateFor_inv Release_inv AllocateFor_err Release_used AllocateFor_current Release_current)

end
