(* ===== verification/Router.thy ===== *)
theory Router
  imports ServerAddr
begin

text \<open>
  The two registries of the server (\<open>cmd/poc-server/main.go\<close>): the \<open>Router\<close>, from a
  tunnel address to the connection that owns it, with the TUN reader that demultiplexes by
  destination address, and the \<open>sessionIndex\<close>, from a certificate name to its live
  session. Both remove an entry only when it still names the caller; the locale
  \<open>owner_registry\<close> states that contract once and both are interpretations of it.
  A connection is known by its identity, a number.
\<close>

type_synonym conn_id = nat

section \<open>The contract of a registry of owners\<close>

datatype ('k, 'c) reg_op = Put 'k 'c | Drop 'k 'c

fun reg_step :: "('s \<Rightarrow> 'k \<Rightarrow> 'c \<Rightarrow> 's) \<Rightarrow> ('s \<Rightarrow> 'k \<Rightarrow> 'c \<Rightarrow> 's) \<Rightarrow> 's \<Rightarrow> ('k, 'c) reg_op \<Rightarrow> 's" where
  "reg_step put drp s (Put k c) = put s k c"
| "reg_step put drp s (Drop k c) = drp s k c"

definition reg_run :: "('s \<Rightarrow> 'k \<Rightarrow> 'c \<Rightarrow> 's) \<Rightarrow> ('s \<Rightarrow> 'k \<Rightarrow> 'c \<Rightarrow> 's) \<Rightarrow> 's \<Rightarrow> ('k, 'c) reg_op list \<Rightarrow> 's" where
  "reg_run put drp s xs = foldl (reg_step put drp) s xs"

lemma reg_run_simps [simp]:
  "reg_run put drp s [] = s" "reg_run put drp s (x # xs) = reg_run put drp (reg_step put drp s x) xs"
  by (simp_all add: reg_run_def)

locale owner_registry =
  fixes put :: "'s \<Rightarrow> 'k \<Rightarrow> 'c \<Rightarrow> 's"
    and drop :: "'s \<Rightarrow> 'k \<Rightarrow> 'c \<Rightarrow> 's"
    and look :: "'s \<Rightarrow> 'k \<Rightarrow> 'c option"
    and key_ok :: "'k \<Rightarrow> bool"
  assumes look_put: "look (put s k c) j = (if j = k \<and> key_ok k then Some c else look s j)"
    and look_drop: "look (drop s k c) j =
      (if j = k \<and> key_ok k \<and> look s k = Some c then None else look s j)"
begin

lemma stale_drop: "look s k \<noteq> Some c \<Longrightarrow> look (drop s k c) j = look s j"
  by (simp add: look_drop)

lemma step_look:
  "key_ok k \<Longrightarrow> look (reg_step put drop s x) k =
     (case x of Put j c \<Rightarrow> if j = k then Some c else look s k
              | Drop j c \<Rightarrow> if j = k \<and> look s k = Some c then None else look s k)"
  by (cases x) (auto simp: look_put look_drop)

text \<open>An owner that nobody replaced and that did not leave is still the owner.\<close>

lemma owner_kept:
  assumes "key_ok k"
    and "\<forall>x \<in> set xs. (\<forall>d. x = Put k d \<longrightarrow> d = c) \<and> x \<noteq> Drop k c"
    and "look s k = Some c"
  shows "look (reg_run put drop s xs) k = Some c"
  using assms(2,3)
proof (induction xs arbitrary: s)
  case (Cons x xs)
  have "look (reg_step put drop s x) k = Some c"
    using Cons.prems step_look[OF assms(1), of s x] by (cases x) auto
  with Cons show ?case by simp
qed simp

text \<open>An owner that left does not come back by another's operations.\<close>

lemma owner_gone:
  assumes "key_ok k" and "\<forall>x \<in> set xs. x \<noteq> Put k c" and "look s k \<noteq> Some c"
  shows "look (reg_run put drop s xs) k \<noteq> Some c"
  using assms(2,3)
proof (induction xs arbitrary: s)
  case (Cons x xs)
  have "look (reg_step put drop s x) k \<noteq> Some c"
    using Cons.prems step_look[OF assms(1), of s x] by (cases x) auto
  with Cons show ?case by simp
qed simp

text \<open>
  The last writer wins: after a put by \<open>c\<close>, operations on the key by others that only drop
  leave \<open>c\<close> in place, and \<open>c\<close>'s own drop empties the key.
\<close>

lemma put_drops_drop:
  assumes "key_ok k" and "\<forall>x \<in> set xs. (\<forall>d. x = Put k d \<longrightarrow> d = c) \<and> x \<noteq> Drop k c"
  shows "look (drop (reg_run put drop (put s k c) xs) k c) k = None"
  using owner_kept[OF assms, of "put s k c"] assms(1) by (simp add: look_put look_drop)

end

section \<open>Router\<close>

record router =
  rt_clients :: "addr \<rightharpoonup> conn_id"

definition NewRouter :: router where
  "NewRouter = \<lparr>rt_clients = Map.empty\<rparr>"

definition Router_Add :: "router \<Rightarrow> addr \<Rightarrow> conn_id \<Rightarrow> router" where
  "Router_Add r a c = r\<lparr>rt_clients := (rt_clients r)(a \<mapsto> c)\<rparr>"

definition Router_Remove :: "router \<Rightarrow> addr \<Rightarrow> conn_id \<Rightarrow> router" where
  "Router_Remove r a c =
     (if rt_clients r a = Some c then r\<lparr>rt_clients := (rt_clients r)(a := None)\<rparr> else r)"

definition Router_lookup :: "router \<Rightarrow> addr \<Rightarrow> conn_id option" where
  "Router_lookup r dst = rt_clients r dst"

interpretation rt: owner_registry Router_Add Router_Remove Router_lookup "\<lambda>_. True"
  by unfold_locales (simp_all add: Router_Add_def Router_Remove_def Router_lookup_def)

section \<open>Session index\<close>

text \<open>
  \<open>take\<close> also closes the session it replaces: the model returns it, for the caller to
  mark as closed.
\<close>

record session_index =
  si_byCN :: "string \<rightharpoonup> conn_id"

definition sessionIndex_take :: "session_index \<Rightarrow> string \<Rightarrow> conn_id \<Rightarrow> session_index \<times> conn_id option" where
  "sessionIndex_take s cn c =
     (if cn = [] then (s, None)
      else (s\<lparr>si_byCN := (si_byCN s)(cn \<mapsto> c)\<rparr>,
            case si_byCN s cn of
              None \<Rightarrow> None
            | Some old \<Rightarrow> if old \<noteq> c then Some old else None))"

definition sessionIndex_drop :: "session_index \<Rightarrow> string \<Rightarrow> conn_id \<Rightarrow> session_index" where
  "sessionIndex_drop s cn c =
     (if cn = [] then s
      else if si_byCN s cn = Some c then s\<lparr>si_byCN := (si_byCN s)(cn := None)\<rparr> else s)"

definition si_put :: "session_index \<Rightarrow> string \<Rightarrow> conn_id \<Rightarrow> session_index" where
  "si_put s cn c = fst (sessionIndex_take s cn c)"

interpretation si: owner_registry si_put sessionIndex_drop si_byCN "\<lambda>cn. cn \<noteq> []"
  by unfold_locales (auto simp: si_put_def sessionIndex_take_def sessionIndex_drop_def)

lemma sessionIndex_take_closed:
  "snd (sessionIndex_take s cn c) = Some old \<longleftrightarrow> cn \<noteq> [] \<and> si_byCN s cn = Some old \<and> old \<noteq> c"
  by (auto simp: sessionIndex_take_def split: option.splits)

section \<open>The TUN reader\<close>

definition tunOffset :: nat where
  "tunOffset = 16"

text \<open>
  One packet of a batch: the connection it is written to, if any. A failed write is ignored,
  as the source does.
\<close>

definition Router_deliver :: "router \<Rightarrow> bytes \<Rightarrow> (conn_id \<times> bytes) option" where
  "Router_deliver r pkt =
     (case dstIP pkt of
        None \<Rightarrow> None
      | Some dst \<Rightarrow>
          (case Router_lookup r dst of
             None \<Rightarrow> None
           | Some conn \<Rightarrow> Some (conn, pkt)))"

text \<open>
  A read of the device fails or fills some of the buffers; other goroutines may change the
  router between two packets, so each packet comes with the router its lookup sees. Slicing a
  buffer beyond its length panics.
\<close>

datatype tun_read = TunErr | TunBatch "(router \<times> bytes \<times> nat) list"

datatype run_end = ReadError | SlicePanic | Reading

fun Router_batch :: "(router \<times> bytes \<times> nat) list \<Rightarrow> (conn_id \<times> bytes) list \<times> bool" where
  "Router_batch [] = ([], True)"
| "Router_batch ((r, buf, n) # rest) =
     (if length buf < tunOffset + n then ([], False)
      else
        (case Router_batch rest of
           (out, ok) \<Rightarrow>
             (case Router_deliver r (slice tunOffset (tunOffset + n) buf) of
                None \<Rightarrow> (out, ok)
              | Some w \<Rightarrow> (w # out, ok))))"

fun Router_Run :: "tun_read list \<Rightarrow> (conn_id \<times> bytes) list \<times> run_end" where
  "Router_Run [] = ([], Reading)"
| "Router_Run (TunErr # _) = ([], ReadError)"
| "Router_Run (TunBatch xs # rest) =
     (case Router_batch xs of
        (out, False) \<Rightarrow> (out, SlicePanic)
      | (out, True) \<Rightarrow> (case Router_Run rest of (out2, e) \<Rightarrow> (out @ out2, e)))"

lemma Router_batch_sent:
  "(c, pkt) \<in> set (fst (Router_batch xs)) \<Longrightarrow>
     \<exists>r buf n a. (r, buf, n) \<in> set xs \<and> pkt = slice tunOffset (tunOffset + n) buf \<and>
       dstIP pkt = Some a \<and> Router_lookup r a = Some c"
  by (induction xs rule: Router_batch.induct)
     (auto simp: Router_deliver_def split: prod.splits option.splits if_splits; blast)+

lemma Router_batch_ok: "snd (Router_batch xs) \<longleftrightarrow> (\<forall>(r, buf, n) \<in> set xs. tunOffset + n \<le> length buf)"
  by (induction xs rule: Router_batch.induct) (auto split: prod.splits option.splits)

text \<open>The packets of a batch whose destination has an owner, with the owner.\<close>

definition owned_packets :: "(router \<times> bytes \<times> nat) list \<Rightarrow> (conn_id \<times> bytes) list" where
  "owned_packets xs =
     List.map_filter (\<lambda>(r, buf, n).
       let pkt = slice tunOffset (tunOffset + n) buf
       in case dstIP pkt of
            None \<Rightarrow> None
          | Some a \<Rightarrow> map_option (\<lambda>c. (c, pkt)) (Router_lookup r a)) xs"

lemma Router_batch_owned:
  "\<forall>(r, buf, n) \<in> set xs. tunOffset + n \<le> length buf \<Longrightarrow> Router_batch xs = (owned_packets xs, True)"
  by (induction xs rule: Router_batch.induct)
     (auto simp: owned_packets_def Router_deliver_def List.map_filter_simps Let_def split: prod.splits option.splits)

section \<open>Properties\<close>

text \<open>
  The router serves several clients at once without mixing them up: once a connection has
  registered its address, it stays the owner through any registrations and removals of other
  addresses, and through removals of the same address by other (stale) connections, until it
  removes the address itself; after its own removal the address has no owner.
\<close>

theorem router_owner_kept:
  assumes "\<forall>x \<in> set xs. (\<forall>d. x = Put a d \<longrightarrow> d = c) \<and> x \<noteq> Drop a c"
  shows "Router_lookup (reg_run Router_Add Router_Remove (Router_Add r a c) xs) a = Some c \<and>
    Router_lookup (Router_Remove (reg_run Router_Add Router_Remove (Router_Add r a c) xs) a c) a = None"
  using rt.owner_kept[of xs a c "Router_Add r a c"] rt.put_drops_drop[of xs a c r] assms
  by (simp add: rt.look_put)

theorem router_owner_kept_witness:
  "Router_lookup (reg_run Router_Add Router_Remove (Router_Add NewRouter (Addr4 7) 2)
     [Drop (Addr4 7) 1, Put (Addr4 8) 1, Drop (Addr4 8) 3]) (Addr4 7) = Some 2"
  by (rule router_owner_kept[THEN conjunct1]) simp

text \<open>
  The session index keeps one session per certificate name: a session stays registered
  while no other session takes its name, whatever stale sessions drop, and taking the name
  closes exactly the session that held it.
\<close>

theorem session_index_owner:
  assumes "cn \<noteq> []" and "\<forall>x \<in> set xs. (\<forall>d. x = Put cn d \<longrightarrow> d = c) \<and> x \<noteq> Drop cn c"
    and "s' = reg_run si_put sessionIndex_drop (si_put s cn c) xs"
  shows "si_byCN s' cn = Some c \<and>
    (\<forall>d. snd (sessionIndex_take s' cn d) = (if d = c then None else Some c)) \<and>
    si_byCN (sessionIndex_drop s' cn c) cn = None"
proof -
  have "si_byCN s' cn = Some c"
    using si.owner_kept[of cn xs c "si_put s cn c"] assms by (simp add: si.look_put)
  then show ?thesis using assms(1) by (simp add: sessionIndex_take_def si.look_drop)
qed

theorem session_index_owner_witness:
  "snd (sessionIndex_take (reg_run si_put sessionIndex_drop (si_put \<lparr>si_byCN = Map.empty\<rparr> ''a'' 1)
     [Put ''b'' 2, Drop ''a'' 0]) ''a'' 3) = Some 1"
  using session_index_owner[of "''a''" "[Put ''b'' 2, Drop ''a'' 0]" 1 _ "\<lparr>si_byCN = Map.empty\<rparr>"] by simp

text \<open>
  C18. The TUN reader writes exactly the packets whose destination address has an owner at the
  time of the lookup, in the order they were read, each to that owner and unchanged, until the
  device fails; packets that are too short, of another version or without owner are skipped
  without stopping the loop. The hypothesis is the device's contract that a read stays within
  the buffer it was given.
\<close>

theorem Router_Run_exact:
  assumes "\<forall>b \<in> set bs. \<forall>(r, buf, n) \<in> set b. tunOffset + n \<le> length buf"
  shows "Router_Run (map TunBatch bs @ TunErr # rest) = (concat (map owned_packets bs), ReadError)"
  using assms
proof (induction bs)
  case (Cons b bs)
  then have "Router_batch b = (owned_packets b, True)" by (intro Router_batch_owned) simp
  with Cons show ?case by simp
qed simp

theorem Router_Run_exact_witness:
  "Router_Run [TunBatch [(Router_Add NewRouter (Addr4 0x0a080002) 5,
       replicate 16 0 @ [0x45] @ replicate 15 0 @ [10, 8, 0, 2], 20),
      (NewRouter, replicate 16 0 @ [0x45], 1)], TunErr] =
   ([(5, [0x45] @ replicate 15 0 @ [10, 8, 0, 2])], ReadError)"
proof -
  let ?b = "[(Router_Add NewRouter (Addr4 0x0a080002) 5,
       replicate 16 0 @ [0x45] @ replicate 15 0 @ [10, 8, 0, 2 :: byte], 20),
      (NewRouter, replicate 16 0 @ [0x45], 1 :: nat)]"
  have "owned_packets ?b = [(5, [0x45] @ replicate 15 0 @ [10, 8, 0, 2])]" by code_simp
  with Router_Run_exact[of "[?b]" "[]"] show ?thesis by (simp add: tunOffset_def)
qed

end
