(* ===== verification/ServerConfig.thy ===== *)
theory ServerConfig
  imports IPPool
begin

text \<open>
  The server's configuration: \<open>cmd/poc-server/config.go\<close> (the TOML file and its
  validation), \<open>blocked.go\<close> (the denylist), the part of \<open>main\<close> that turns the
  file or the flags into a \<open>serverConfig\<close>, and \<open>iface_linux.go\<close>. The TOML decoder,
  the file system and the \<open>ip\<close> utility are parameters.
\<close>

section \<open>The configuration file\<close>

record server_section =
  ss_Bind :: string
  ss_ServerName :: string

record tls_section =
  ts_Cert :: string
  ts_Key :: string
  ts_ClientCA :: string
  ts_BlockedCNs :: "string list"

record tun_section =
  us_Name :: string
  us_MTU :: int

record network_section =
  ns_TunAddr :: string
  ns_PoolCIDR :: string
  ns_Route :: string
  ns_TunAddrV6 :: string
  ns_PoolCIDRV6 :: string
  ns_RouteV6 :: string

record config =
  cf_Server :: server_section
  cf_TLS :: tls_section
  cf_TUN :: tun_section
  cf_Network :: network_section

datatype config_error =
  DecodeFailed | UnknownKeys | BindRequired | ServerNameRequired | CertKeyRequired
| TunNameRequired | TunAddrRequired | PoolRequired | V6PairRequired
| BadRoute | BadRouteV6 | BadAssign

definition validate :: "config \<Rightarrow> config_error + config" where
  "validate c =
     (if ss_Bind (cf_Server c) = [] then Inl BindRequired
      else if ss_ServerName (cf_Server c) = [] then Inl ServerNameRequired
      else if ts_Cert (cf_TLS c) = [] \<or> ts_Key (cf_TLS c) = [] then Inl CertKeyRequired
      else if us_Name (cf_TUN c) = [] then Inl TunNameRequired
      else
        let c = (if us_MTU (cf_TUN c) \<le> 0 then c\<lparr>cf_TUN := (cf_TUN c)\<lparr>us_MTU := 1369\<rparr>\<rparr> else c)
        in if ns_TunAddr (cf_Network c) = [] then Inl TunAddrRequired
        else if ns_PoolCIDR (cf_Network c) = [] then Inl PoolRequired
        else
          let c = (if ns_Route (cf_Network c) = []
                   then c\<lparr>cf_Network := (cf_Network c)\<lparr>ns_Route := ''0.0.0.0/0''\<rparr>\<rparr> else c);
              v6Pool = ns_PoolCIDRV6 (cf_Network c) \<noteq> [];
              v6Tun = ns_TunAddrV6 (cf_Network c) \<noteq> []
          in if v6Pool \<noteq> v6Tun then Inl V6PairRequired
             else Inr (if v6Pool \<and> ns_RouteV6 (cf_Network c) = []
                       then c\<lparr>cf_Network := (cf_Network c)\<lparr>ns_RouteV6 := ''::/0''\<rparr>\<rparr> else c))"

text \<open>\<open>decode\<close> is the TOML library on a path: the keys it did not know and the values.\<close>

definition LoadConfig :: "(string \<Rightarrow> (string list \<times> config) option) \<Rightarrow> string \<Rightarrow> config_error + config" where
  "LoadConfig decode path =
     (case decode path of
        None \<Rightarrow> Inl DecodeFailed
      | Some (undec, c) \<Rightarrow> if 0 < length undec then Inl UnknownKeys else validate c)"

section \<open>The denylist\<close>

definition defaultBlockedFile :: string where
  "defaultBlockedFile = ''/opt/masque/blocked_cns''"

definition blocked_add :: "string \<Rightarrow> string set \<Rightarrow> string set" where
  "blocked_add s m =
     (let s = trim_space s in if s = [] \<or> has_prefix s ''#'' then m else insert s m)"

definition loadBlockedSet :: "(string \<Rightarrow> string option) \<Rightarrow> string list \<Rightarrow> string \<Rightarrow> string set" where
  "loadBlockedSet read_file fromTOML extraFile =
     (let m = fold blocked_add fromTOML {}
      in if extraFile = [] then m
         else case read_file extraFile of
                None \<Rightarrow> m
              | Some raw \<Rightarrow> fold blocked_add (split_on (CHR 0x0A) raw) m)"

section \<open>The server configuration\<close>

record server_config =
  sc_bind :: string
  sc_certFile :: string
  sc_keyFile :: string
  sc_serverName :: string
  sc_clientCA :: string
  sc_tunName :: string
  sc_tunAddr :: string
  sc_tunAddrV6 :: string
  sc_mtu :: int
  sc_poolCIDR :: string
  sc_poolCIDRV6 :: string
  sc_assign :: prefix
  sc_route :: prefix
  sc_routeV6 :: prefix
  sc_blocked :: "string set"

record flags =
  fl_bind :: string
  fl_cert :: string
  fl_key :: string
  fl_server_name :: string
  fl_assign :: string
  fl_route :: string
  fl_client_ca :: string
  fl_tun :: string
  fl_tun_addr :: string
  fl_mtu :: int
  fl_pool :: string
  fl_tun_addr_v6 :: string
  fl_pool_v6 :: string
  fl_route_v6 :: string
  fl_config :: string

definition default_flags :: flags where
  "default_flags =
     \<lparr>fl_bind = ''0.0.0.0:4433'', fl_cert = ''cert/server.crt'', fl_key = ''cert/server.key'',
      fl_server_name = ''YOUR_SERVER_HOST'', fl_assign = ''10.8.0.2/32'', fl_route = ''0.0.0.0/0'',
      fl_client_ca = [], fl_tun = [], fl_tun_addr = ''10.8.0.1/24'', fl_mtu = 1400, fl_pool = [],
      fl_tun_addr_v6 = [], fl_pool_v6 = [], fl_route_v6 = ''::/0'', fl_config = []\<rparr>"

definition config_of_file :: "(string \<Rightarrow> string option) \<Rightarrow> config \<Rightarrow> config_error + server_config" where
  "config_of_file read_file c =
     (case parse_prefix (ns_Route (cf_Network c)) of
        None \<Rightarrow> Inl BadRoute
      | Some rp \<Rightarrow>
          let cfg = \<lparr>sc_bind = ss_Bind (cf_Server c), sc_certFile = ts_Cert (cf_TLS c),
                     sc_keyFile = ts_Key (cf_TLS c), sc_serverName = ss_ServerName (cf_Server c),
                     sc_clientCA = ts_ClientCA (cf_TLS c), sc_tunName = us_Name (cf_TUN c),
                     sc_tunAddr = ns_TunAddr (cf_Network c), sc_tunAddrV6 = ns_TunAddrV6 (cf_Network c),
                     sc_mtu = us_MTU (cf_TUN c), sc_poolCIDR = ns_PoolCIDR (cf_Network c),
                     sc_poolCIDRV6 = ns_PoolCIDRV6 (cf_Network c), sc_assign = no_prefix,
                     sc_route = rp, sc_routeV6 = no_prefix,
                     sc_blocked = loadBlockedSet read_file (ts_BlockedCNs (cf_TLS c)) defaultBlockedFile\<rparr>
          in if ns_RouteV6 (cf_Network c) \<noteq> [] then
               (case parse_prefix (ns_RouteV6 (cf_Network c)) of
                  None \<Rightarrow> Inl BadRouteV6
                | Some rp6 \<Rightarrow> Inr (cfg\<lparr>sc_routeV6 := rp6\<rparr>))
             else Inr cfg)"

definition config_of_flags :: "(string \<Rightarrow> string option) \<Rightarrow> flags \<Rightarrow> config_error + server_config" where
  "config_of_flags read_file f =
     (case parse_prefix (fl_route f) of
        None \<Rightarrow> Inl BadRoute
      | Some rp \<Rightarrow>
          let cfg = \<lparr>sc_bind = fl_bind f, sc_certFile = fl_cert f, sc_keyFile = fl_key f,
                     sc_serverName = fl_server_name f, sc_clientCA = fl_client_ca f,
                     sc_tunName = fl_tun f, sc_tunAddr = fl_tun_addr f, sc_tunAddrV6 = fl_tun_addr_v6 f,
                     sc_mtu = fl_mtu f, sc_poolCIDR = fl_pool f, sc_poolCIDRV6 = fl_pool_v6 f,
                     sc_assign = no_prefix, sc_route = rp, sc_routeV6 = no_prefix,
                     sc_blocked = loadBlockedSet read_file [] defaultBlockedFile\<rparr>
          in res_bind (if fl_pool_v6 f \<noteq> [] then
                         (case parse_prefix (fl_route_v6 f) of
                            None \<Rightarrow> Inl BadRouteV6
                          | Some rp6 \<Rightarrow> Inr (cfg\<lparr>sc_routeV6 := rp6\<rparr>))
                       else Inr cfg)
               (\<lambda>cfg. if fl_pool f = [] then
                        (case parse_prefix (fl_assign f) of
                           None \<Rightarrow> Inl BadAssign
                         | Some ap \<Rightarrow> Inr (cfg\<lparr>sc_assign := ap\<rparr>))
                      else Inr cfg))"

text \<open>\<open>main\<close> up to the call of \<open>run\<close>; a fatal error is an \<open>Inl\<close>.\<close>

definition main_config ::
  "(string \<Rightarrow> (string list \<times> config) option) \<Rightarrow> (string \<Rightarrow> string option) \<Rightarrow> flags \<Rightarrow> config_error + server_config" where
  "main_config decode read_file f =
     (if fl_config f \<noteq> [] then
        res_bind (LoadConfig decode (fl_config f)) (config_of_file read_file)
      else config_of_flags read_file f)"

section \<open>Bringing up the TUN interface\<close>

text \<open>The commands that were run, and whether all of them succeeded.\<close>

fun bringUpTUN_addrs :: "(string list \<Rightarrow> bool) \<Rightarrow> string \<Rightarrow> string list \<Rightarrow> string list list \<times> bool" where
  "bringUpTUN_addrs exec name [] =
     (let cmd = [''ip'', ''link'', ''set'', name, ''up''] in ([cmd], exec cmd))"
| "bringUpTUN_addrs exec name (a # as) =
     (if a = [] then bringUpTUN_addrs exec name as
      else
        let cmd = [''ip'', ''addr'', ''add'', a, ''dev'', name]
        in if \<not> exec cmd then ([cmd], False)
           else case bringUpTUN_addrs exec name as of (cs, ok) \<Rightarrow> (cmd # cs, ok))"

definition bringUpTUN :: "(string list \<Rightarrow> bool) \<Rightarrow> string \<Rightarrow> string list \<Rightarrow> string list list \<times> bool" where
  "bringUpTUN exec name addrs = bringUpTUN_addrs exec name addrs"

section \<open>Properties\<close>

definition with_defaults :: "config \<Rightarrow> config" where
  "with_defaults c = c\<lparr>
     cf_TUN := (cf_TUN c)\<lparr>us_MTU := if us_MTU (cf_TUN c) \<le> 0 then 1369 else us_MTU (cf_TUN c)\<rparr>,
     cf_Network := (cf_Network c)\<lparr>
       ns_Route := if ns_Route (cf_Network c) = [] then ''0.0.0.0/0'' else ns_Route (cf_Network c),
       ns_RouteV6 := if ns_PoolCIDRV6 (cf_Network c) \<noteq> [] \<and> ns_RouteV6 (cf_Network c) = [] then ''::/0''
                     else ns_RouteV6 (cf_Network c)\<rparr>\<rparr>"

definition complete :: "config \<Rightarrow> bool" where
  "complete c \<longleftrightarrow> ss_Bind (cf_Server c) \<noteq> [] \<and> ss_ServerName (cf_Server c) \<noteq> [] \<and>
     ts_Cert (cf_TLS c) \<noteq> [] \<and> ts_Key (cf_TLS c) \<noteq> [] \<and> us_Name (cf_TUN c) \<noteq> [] \<and>
     ns_TunAddr (cf_Network c) \<noteq> [] \<and> ns_PoolCIDR (cf_Network c) \<noteq> [] \<and>
     (ns_PoolCIDRV6 (cf_Network c) = [] \<longleftrightarrow> ns_TunAddrV6 (cf_Network c) = [])"

lemma validate_ok: "complete c \<Longrightarrow> validate c = Inr (with_defaults c)"
  by (cases c; cases "cf_TUN c"; cases "cf_Network c")
     (simp add: validate_def complete_def with_defaults_def Let_def)

lemma validate_fails: "\<not> complete c \<Longrightarrow> \<exists>e. validate c = Inl e"
  by (cases "us_MTU (cf_TUN c) \<le> 0"; cases "ns_Route (cf_Network c) = []")
     (auto simp: validate_def complete_def Let_def)

lemma fold_blocked: "fold blocked_add xs m = m \<union> {t. t \<in> trim_space ` set xs \<and> t \<noteq> [] \<and> \<not> has_prefix t ''#''}"
  by (induction xs arbitrary: m) (auto simp: blocked_add_def Let_def)

lemma loadBlockedSet_iff:
  "cn \<in> loadBlockedSet read_file toml file \<longleftrightarrow>
     cn \<noteq> [] \<and> \<not> has_prefix cn ''#'' \<and>
     (cn \<in> trim_space ` set toml \<or>
      file \<noteq> [] \<and> (\<exists>raw. read_file file = Some raw \<and> cn \<in> trim_space ` set (split_on (CHR 0x0A) raw)))"
  by (auto simp: loadBlockedSet_def fold_blocked Let_def split: option.splits)

lemma with_defaults_facts:
  "complete c \<Longrightarrow> complete (with_defaults c)" "with_defaults (with_defaults c) = with_defaults c"
  "0 < us_MTU (cf_TUN (with_defaults c))" "ns_Route (cf_Network (with_defaults c)) \<noteq> []"
  "ns_PoolCIDRV6 (cf_Network (with_defaults c)) \<noteq> [] \<Longrightarrow> ns_RouteV6 (cf_Network (with_defaults c)) \<noteq> []"
  by (simp_all add: complete_def with_defaults_def)

text \<open>
  Validation accepts exactly the complete configurations (every required field set, the
  IPv6 address and pool set together), fills the defaults (MTU 1369, routes 0.0.0.0/0 and ::/0)
  and changes nothing else; a validated configuration validates again unchanged.
\<close>

theorem validate_spec:
  "case validate c of
     Inl _ \<Rightarrow> \<not> complete c
   | Inr c' \<Rightarrow> complete c \<and> c' = with_defaults c \<and> validate c' = Inr c' \<and>
       0 < us_MTU (cf_TUN c') \<and> ns_Route (cf_Network c') \<noteq> [] \<and>
       (ns_RouteV6 (cf_Network c') \<noteq> [] \<or> ns_PoolCIDRV6 (cf_Network c') = [])"
proof (cases "complete c")
  case True
  have "ns_RouteV6 (cf_Network (with_defaults c)) \<noteq> [] \<or> ns_PoolCIDRV6 (cf_Network (with_defaults c)) = []"
    using with_defaults_facts(5)[of c] by blast
  with True validate_ok[OF True] validate_ok[OF with_defaults_facts(1)[OF True]] show ?thesis
    by (simp add: with_defaults_facts(2-4))
next
  case False
  with validate_fails[OF False] show ?thesis by auto
qed

theorem validate_spec_witness:
  "\<exists>c'. validate \<lparr>cf_Server = \<lparr>ss_Bind = ''b'', ss_ServerName = ''s''\<rparr>,
       cf_TLS = \<lparr>ts_Cert = ''c'', ts_Key = ''k'', ts_ClientCA = [], ts_BlockedCNs = []\<rparr>,
       cf_TUN = \<lparr>us_Name = ''t'', us_MTU = 0\<rparr>,
       cf_Network = \<lparr>ns_TunAddr = ''a'', ns_PoolCIDR = ''p'', ns_Route = [], ns_TunAddrV6 = ''a6'',
                     ns_PoolCIDRV6 = ''p6'', ns_RouteV6 = []\<rparr>\<rparr> = Inr c' \<and>
     validate c' = Inr c' \<and> 0 < us_MTU (cf_TUN c')"
  (is "\<exists>c'. validate ?c = Inr c' \<and> _")
proof -
  have "is_ok (validate ?c)" by code_simp
  then obtain c' where c': "validate ?c = Inr c'" by (auto simp: is_ok_iff)
  with validate_spec[of ?c] show ?thesis by (auto split: sum.splits)
qed

lemma config_of_file_Inr:
  assumes "config_of_file read_file c = Inr cfg"
  shows "sc_poolCIDR cfg = ns_PoolCIDR (cf_Network c)" "sc_poolCIDRV6 cfg = ns_PoolCIDRV6 (cf_Network c)"
    "parse_prefix (ns_Route (cf_Network c)) = Some (sc_route cfg)"
    "ns_RouteV6 (cf_Network c) \<noteq> [] \<Longrightarrow> parse_prefix (ns_RouteV6 (cf_Network c)) = Some (sc_routeV6 cfg)"
    "sc_mtu cfg = us_MTU (cf_TUN c)"
    "ts_BlockedCNs (cf_TLS c) = xs \<Longrightarrow> sc_blocked cfg = loadBlockedSet read_file xs defaultBlockedFile"
  using assms by (auto simp: config_of_file_def Let_def split: option.splits if_splits)

lemma config_of_flags_Inr:
  assumes "config_of_flags read_file f = Inr cfg"
  shows "sc_poolCIDR cfg = fl_pool f" "sc_poolCIDRV6 cfg = fl_pool_v6 f"
    "parse_prefix (fl_route f) = Some (sc_route cfg)"
    "fl_pool_v6 f \<noteq> [] \<Longrightarrow> parse_prefix (fl_route_v6 f) = Some (sc_routeV6 cfg)"
    "fl_pool f = [] \<Longrightarrow> parse_prefix (fl_assign f) = Some (sc_assign cfg)"
  using assms by (auto simp: config_of_flags_def res_bind_def Let_def split: option.splits if_splits sum.splits)

text \<open>
  C19. Whatever the file or the flags say, a configuration with which the server starts has a
  valid route, a valid IPv6 route when it has an IPv6 pool, and a valid fixed client address
  when it has no pool: the session handler never works on an unset prefix.
\<close>

theorem main_config_usable:
  assumes "main_config decode read_file f = Inr cfg"
  shows "prefix_is_valid (sc_route cfg) \<and> prefix_wf (sc_route cfg) \<and>
    (sc_poolCIDRV6 cfg = [] \<or> prefix_is_valid (sc_routeV6 cfg) \<and> prefix_wf (sc_routeV6 cfg)) \<and>
    (sc_poolCIDR cfg \<noteq> [] \<or> prefix_is_valid (sc_assign cfg) \<and> prefix_wf (sc_assign cfg))"
proof (cases "fl_config f = []")
  case True
  then have "config_of_flags read_file f = Inr cfg" using assms by (simp add: main_config_def)
  note r = config_of_flags_Inr[OF this]
  show ?thesis
    using r(1,2) parse_prefix_wf[OF r(3)] parse_prefix_wf[OF r(4)] parse_prefix_wf[OF r(5)] by auto
next
  case False
  then obtain c where c: "LoadConfig decode (fl_config f) = Inr c" "config_of_file read_file c = Inr cfg"
    using assms by (auto simp: main_config_def res_bind_def split: sum.splits)
  from c(1) obtain c0 where "validate c0 = Inr c"
    by (auto simp: LoadConfig_def split: option.splits if_splits)
  then have co: "complete c0" "c = with_defaults c0"
    using validate_ok[of c0] validate_fails[of c0] by (cases "complete c0"; auto)+
  have "complete c" "ns_PoolCIDRV6 (cf_Network c) \<noteq> [] \<longrightarrow> ns_RouteV6 (cf_Network c) \<noteq> []"
    using co with_defaults_facts(1,5)[of c0] by auto
  note r = config_of_file_Inr[OF c(2)]
  show ?thesis
    using r(1,2) parse_prefix_wf[OF r(3)] parse_prefix_wf[OF r(4)] \<open>complete c\<close>
      \<open>ns_PoolCIDRV6 (cf_Network c) \<noteq> [] \<longrightarrow> ns_RouteV6 (cf_Network c) \<noteq> []\<close>
    by (auto simp: complete_def)
qed

theorem main_config_usable_witness:
  "\<exists>cfg. main_config (\<lambda>_. None) (\<lambda>_. None) default_flags = Inr cfg \<and> prefix_is_valid (sc_assign cfg)"
proof -
  have p: "sc_poolCIDR cfg = []" if "main_config (\<lambda>_. None) (\<lambda>_. None) default_flags = Inr cfg" for cfg
    using that by (auto simp: main_config_def default_flags_def dest: config_of_flags_Inr(1))
  have "is_ok (main_config (\<lambda>_. None) (\<lambda>_. None) default_flags)" by code_simp
  then obtain cfg where c: "main_config (\<lambda>_. None) (\<lambda>_. None) default_flags = Inr cfg"
    by (auto simp: is_ok_iff)
  from main_config_usable[OF this] p[OF this] c show ?thesis by auto
qed

section \<open>Lines of the denylist\<close>

definition ascii_spaces :: string where
  "ascii_spaces = [CHR 0x20, CHR 0x0A, CHR 0x09, CHR 0x0D, CHR 0x0B, CHR 0x0C]"

lemma has_prefix_Cons [simp]: "has_prefix (c # s) (d # p) \<longleftrightarrow> c = d \<and> has_prefix s p"
  by (auto simp: has_prefix_def)

lemma has_prefix_Nil [simp]: "has_prefix s []"
  by (simp add: has_prefix_def)

lemma find_ascii_space:
  assumes "c \<in> set ascii_spaces"
  shows "find (\<lambda>p. p \<noteq> [] \<and> has_prefix (c # s) p) go_spaces = Some [c]"
    "find (\<lambda>p. p \<noteq> [] \<and> has_prefix (c # s) p) (map rev go_spaces) = Some [c]"
proof -
  from assms consider "c = CHR 0x20" | "c = CHR 0x0A" | "c = CHR 0x09" | "c = CHR 0x0D" | "c = CHR 0x0B" | "c = CHR 0x0C"
    by (simp add: ascii_spaces_def) blast
  then show "find (\<lambda>p. p \<noteq> [] \<and> has_prefix (c # s) p) go_spaces = Some [c]"
    "find (\<lambda>p. p \<noteq> [] \<and> has_prefix (c # s) p) (map rev go_spaces) = Some [c]"
    by (cases; simp add: go_spaces_def)+
qed

lemma trim_by_ascii:
  "set u \<subseteq> set ascii_spaces \<Longrightarrow> trim_by go_spaces (u @ s) = trim_by go_spaces s"
  "set u \<subseteq> set ascii_spaces \<Longrightarrow> trim_by (map rev go_spaces) (u @ s) = trim_by (map rev go_spaces) s"
  by (induction u) (simp_all add: trim_by_Some[OF find_ascii_space(1)] trim_by_Some[OF find_ascii_space(2)])

lemma trim_space_surround:
  assumes "set u \<subseteq> set ascii_spaces" "set v \<subseteq> set ascii_spaces"
    and "trim_space s = s" "trim_left (s @ v) = s @ v"
  shows "trim_space (u @ s @ v) = s"
proof -
  have l: "trim_left (u @ s @ v) = s @ v"
    using trim_by_ascii(1)[OF assms(1), of "s @ v"] assms(4) by (simp add: trim_left_def)
  have tl: "length (trim_left s) \<le> length s"
    using trim_by_suffix[of s go_spaces] unfolding trim_left_def by (metis length_append le_add2)
  have tr: "length (trim_right x) \<le> length x" for x
    using trim_by_suffix[of "rev x" "map rev go_spaces"] unfolding trim_right_def
    by (metis length_append le_add2 length_rev)
  obtain w where w: "s = w @ trim_left s" using trim_by_suffix unfolding trim_left_def by blast
  have "length (trim_left s) = length s" using assms(3) tl tr[of "trim_left s"] by (simp add: trim_space_def)
  with w have "trim_left s = s" by (metis append_Nil append_eq_append_conv)
  then have "trim_right s = s" using assms(3) by (simp add: trim_space_def)
  moreover have "trim_right (s @ v) = trim_right s"
    using trim_by_ascii(2)[of "rev v" "rev s"] assms(2) by (simp add: trim_right_def)
  ultimately show ?thesis using l by (simp add: trim_space_def)
qed

lemma trim_left_append:
  assumes "trim_space s = s" "s \<noteq> []" "list_all (\<lambda>c. of_char c < (128 :: nat)) s"
  shows "trim_left (s @ v) = s @ v"
proof -
  obtain c t where s: "s = c # t" using assms(2) by (cases s) auto
  have ne: "c \<notin> set ascii_spaces"
  proof
    assume c: "c \<in> set ascii_spaces"
    have "trim_left s = trim_left t"
      using trim_by_ascii(1)[of "[c]" t] c s by (simp add: trim_left_def)
    moreover have "length (trim_left t) \<le> length t"
      using trim_by_suffix[of t go_spaces] unfolding trim_left_def by (metis length_append le_add2)
    moreover have "length (trim_right x) \<le> length x" for x
      using trim_by_suffix[of "rev x" "map rev go_spaces"] unfolding trim_right_def
      by (metis length_append le_add2 length_rev)
    ultimately have "length (trim_space s) \<le> length t" unfolding trim_space_def by (metis le_trans)
    with assms(1) s show False by simp
  qed
  have "of_char c < (128 :: nat)" using assms(3) s by simp
  then have "c \<noteq> CHR 0xC2" "c \<noteq> CHR 0xE1" "c \<noteq> CHR 0xE2" "c \<noteq> CHR 0xE3" by auto
  with ne have "\<forall>p \<in> set go_spaces. p = [] \<or> \<not> has_prefix (s @ v) p"
    unfolding s go_spaces_def ascii_spaces_def by simp
  then show ?thesis unfolding trim_left_def by (rule trim_by_id)
qed

text \<open>
  An ASCII name on a line of its own in the denylist file is denied, whatever ASCII white
  space surrounds it (so also with CRLF line ends) and whatever the other lines hold.
\<close>

theorem denylist_line_denies:
  assumes "read_file file = Some (before @ u @ cn @ v @ CHR 0x0A # after)"
    and "before = [] \<or> (\<exists>b. before = b @ [CHR 0x0A])"
    and "set (u @ v) \<subseteq> set ascii_spaces - {CHR 0x0A}" and "CHR 0x0A \<notin> set cn"
    and "cn \<noteq> []" and "\<not> has_prefix cn ''#''" and "trim_space cn = cn"
    and "list_all (\<lambda>c. of_char c < (128 :: nat)) cn" and "file \<noteq> []"
  shows "cn \<in> loadBlockedSet read_file toml file"
proof -
  have line: "CHR 0x0A \<notin> set (u @ cn @ v)" using assms(3,4) by auto
  have split_line: "split_on (CHR 0x0A) ((u @ cn @ v) @ CHR 0x0A # after) = (u @ cn @ v) # split_on (CHR 0x0A) after"
    using line by (rule split_on_append)
  have mem: "(u @ cn @ v) \<in> set (split_on (CHR 0x0A) (before @ (u @ cn @ v) @ CHR 0x0A # after))"
    using assms(2)
  proof
    assume "\<exists>b. before = b @ [CHR 0x0A]"
    then obtain b where b: "before = b @ [CHR 0x0A]" by blast
    show ?thesis unfolding b using split_line by (simp add: split_on_join)
  qed (use split_line in simp)
  have "trim_space (u @ cn @ v) = cn"
    using assms(3) trim_space_surround[OF _ _ assms(7) trim_left_append[OF assms(7,5,8)], of u v] by auto
  with mem assms(1,5,6,9) show ?thesis unfolding loadBlockedSet_iff append_assoc
    by (metis image_eqI)
qed

theorem denylist_line_denies_witness:
  "''phone'' \<in> loadBlockedSet (\<lambda>_. Some (''# old'' @ [CHR 0x0A, CHR 0x20] @ ''phone'' @ [CHR 0x0D, CHR 0x0A])) [] ''f''"
  by (rule denylist_line_denies[of _ _ "''# old'' @ [CHR 0x0A]" "[CHR 0x20]" _ "[CHR 0x0D]" "[]"])
     (simp_all, code_simp+)

end
