(* ===== verification/Server.thy ===== *)
theory Server
  imports IPPoolLease Router ServerConfig
begin

text \<open>
  The server's session handling (\<open>cmd/poc-server/main.go\<close>: \<open>run\<close>, its \<open>/vpn\<close>
  handler, \<open>handleConn\<close> and \<open>forward\<close>). Every request runs in a goroutine of its own;
  a handler is a program counter and a stack of deferred calls, and one step runs the code up
  to the next operation on shared state or the next call of the connection. Handlers, the TUN
  reader and new requests interleave in any order. What the QUIC library answers is an input
  of the step.
\<close>

section \<open>State\<close>

datatype deferred =
  DDrop | DRelease4 lease_id prefix | DRelease6 lease_id prefix | DRemove addr

datatype pc =
  PcTake | PcAlloc4 | PcAlloc6 | PcAssign | PcRoutes | PcLog | PcAdd4 | PcAdd6 | PcForward | PcUnwind

record handler =
  hd_cn :: string
  hd_pc :: pc
  hd_addr4 :: prefix
  hd_addr6 :: prefix
  hd_defers :: "deferred list"

record ip_route =
  ir_StartIP :: addr
  ir_EndIP :: addr
  ir_IPProtocol :: nat

record server =
  sv_tun :: bool
  sv_mtls :: bool
  sv_router :: router
  sv_pool :: "pool option"
  sv_poolV6 :: "pool option"
  sv_live :: session_index
  sv_next :: conn_id
  sv_handlers :: "conn_id \<rightharpoonup> handler"
  sv_closed :: "conn_id set"
  sv_assigned :: "conn_id \<rightharpoonup> prefix list"
  sv_routes :: "conn_id \<rightharpoonup> ip_route list"
  sv_tun_out :: "bytes list"
  sv_sent :: "(conn_id \<times> bytes) list"

definition set_handler :: "server \<Rightarrow> conn_id \<Rightarrow> handler \<Rightarrow> server" where
  "set_handler s c h = s\<lparr>sv_handlers := (sv_handlers s)(c \<mapsto> h)\<rparr>"

definition close_conn :: "server \<Rightarrow> conn_id \<Rightarrow> server" where
  "close_conn s c = s\<lparr>sv_closed := insert c (sv_closed s)\<rparr>"

section \<open>The request handler\<close>

datatype parse_outcome = ParseOk | ParseStatus int | ParseFailed

record request =
  rq_parse :: parse_outcome
  rq_peerCN :: "string option"
  rq_proxy_ok :: bool

definition request_cn :: "request \<Rightarrow> string" where
  "request_cn rq = (case rq_peerCN rq of None \<Rightarrow> [] | Some cn \<Rightarrow> cn)"

text \<open>
  The handler up to the hijacked connection: the HTTP status it answers with, or a new session
  whose connection gets the next identity.
\<close>

definition vpn_request :: "server_config \<Rightarrow> server \<Rightarrow> request \<Rightarrow> server \<times> int option" where
  "vpn_request cfg s rq =
     (case rq_parse rq of
        ParseStatus st \<Rightarrow> (s, Some st)
      | ParseFailed \<Rightarrow> (s, Some 400)
      | ParseOk \<Rightarrow>
          let cn = request_cn rq
          in if cn \<noteq> [] \<and> cn \<in> sc_blocked cfg then (s, Some 403)
             else if \<not> rq_proxy_ok rq then (s, Some 500)
             else (set_handler (s\<lparr>sv_next := sv_next s + 1\<rparr>) (sv_next s)
                     \<lparr>hd_cn = cn, hd_pc = PcTake, hd_addr4 = no_prefix, hd_addr6 = no_prefix,
                      hd_defers = []\<rparr>, None))"

section \<open>The steps of a session\<close>

datatype env = EnvOk | EnvErr | EnvPacket bytes bool

definition goto :: "pc \<Rightarrow> handler \<Rightarrow> handler" where
  "goto l h = h\<lparr>hd_pc := l\<rparr>"

definition push :: "deferred \<Rightarrow> handler \<Rightarrow> handler" where
  "push d h = h\<lparr>hd_defers := d # hd_defers h\<rparr>"

definition take_step :: "server_config \<Rightarrow> server \<Rightarrow> conn_id \<Rightarrow> handler \<Rightarrow> server" where
  "take_step cfg s c h =
     (case sessionIndex_take (sv_live s) (hd_cn h) c of
        (live, old) \<Rightarrow>
          let s = s\<lparr>sv_live := live\<rparr>;
              s = (case old of None \<Rightarrow> s | Some d \<Rightarrow> close_conn s d)
          in set_handler s c (goto PcAlloc4 (push DDrop (h\<lparr>hd_addr4 := sc_assign cfg\<rparr>))))"

definition alloc4_step :: "server \<Rightarrow> conn_id \<Rightarrow> handler \<Rightarrow> server" where
  "alloc4_step s c h =
     (case sv_pool s of
        None \<Rightarrow> set_handler s c (goto PcAlloc6 h)
      | Some p \<Rightarrow>
          (case AllocateFor p (hd_cn h) of
             (p, Inl _) \<Rightarrow> set_handler (close_conn (s\<lparr>sv_pool := Some p\<rparr>) c) c (goto PcUnwind h)
           | (p, Inr (alloc, lease)) \<Rightarrow>
               set_handler (s\<lparr>sv_pool := Some p\<rparr>) c
                 (goto PcAlloc6 (push (DRelease4 lease alloc) (h\<lparr>hd_addr4 := alloc\<rparr>)))))"

definition alloc6_step :: "server \<Rightarrow> conn_id \<Rightarrow> handler \<Rightarrow> server" where
  "alloc6_step s c h =
     (case sv_poolV6 s of
        None \<Rightarrow> set_handler s c (goto PcAssign h)
      | Some p \<Rightarrow>
          (case AllocateFor p (hd_cn h) of
             (p, Inl _) \<Rightarrow> set_handler (close_conn (s\<lparr>sv_poolV6 := Some p\<rparr>) c) c (goto PcUnwind h)
           | (p, Inr (alloc, lease)) \<Rightarrow>
               set_handler (s\<lparr>sv_poolV6 := Some p\<rparr>) c
                 (goto PcAssign (push (DRelease6 lease alloc) (h\<lparr>hd_addr6 := alloc\<rparr>)))))"

definition assigned_of :: "handler \<Rightarrow> prefix list" where
  "assigned_of h = hd_addr4 h # (if prefix_is_valid (hd_addr6 h) then [hd_addr6 h] else [])"

definition routes_of :: "prefix \<Rightarrow> prefix \<Rightarrow> ip_route list option" where
  "routes_of route routeV6 =
     (case lastIPOfPrefix route of
        None \<Rightarrow> None
      | Some lastIP \<Rightarrow>
          let routes = [\<lparr>ir_StartIP = px_addr route, ir_EndIP = lastIP, ir_IPProtocol = 0\<rparr>]
          in if prefix_is_valid routeV6 then
               (case lastIPOfPrefix routeV6 of
                  None \<Rightarrow> None
                | Some last6 \<Rightarrow>
                    Some (routes @ [\<lparr>ir_StartIP = px_addr routeV6, ir_EndIP = last6, ir_IPProtocol = 0\<rparr>]))
             else Some routes)"

definition assign_step :: "server \<Rightarrow> conn_id \<Rightarrow> handler \<Rightarrow> env \<Rightarrow> server" where
  "assign_step s c h e =
     (let s = s\<lparr>sv_assigned := (sv_assigned s)(c \<mapsto> assigned_of h)\<rparr>
      in set_handler s c (goto (if e = EnvErr then PcUnwind else PcRoutes) h))"

text \<open>A panic of \<open>lastIPOfPrefix\<close> unwinds the handler like a return.\<close>

definition routes_step :: "server_config \<Rightarrow> server \<Rightarrow> conn_id \<Rightarrow> handler \<Rightarrow> env \<Rightarrow> server" where
  "routes_step cfg s c h e =
     (case routes_of (sc_route cfg) (sc_routeV6 cfg) of
        None \<Rightarrow> set_handler s c (goto PcUnwind h)
      | Some rs \<Rightarrow>
          let s = s\<lparr>sv_routes := (sv_routes s)(c \<mapsto> rs)\<rparr>
          in set_handler s c
               (goto (if e = EnvErr then PcUnwind else if sv_tun s then PcAdd4 else PcLog) h))"

definition add_step :: "server \<Rightarrow> conn_id \<Rightarrow> handler \<Rightarrow> prefix \<Rightarrow> pc \<Rightarrow> server" where
  "add_step s c h x l =
     (let a = px_addr x
      in set_handler (s\<lparr>sv_router := Router_Add (sv_router s) a c\<rparr>) c (goto l (push (DRemove a) h)))"

text \<open>
  One iteration of \<open>forward\<close>: a packet of the client and whether the TUN device takes it,
  or the end of the connection.
\<close>

definition forward_step :: "server \<Rightarrow> conn_id \<Rightarrow> handler \<Rightarrow> env \<Rightarrow> server" where
  "forward_step s c h e =
     (case e of
        EnvPacket pkt True \<Rightarrow> s\<lparr>sv_tun_out := sv_tun_out s @ [pkt]\<rparr>
      | EnvPacket pkt False \<Rightarrow> set_handler (close_conn s c) c (goto PcUnwind h)
      | EnvErr \<Rightarrow> set_handler (close_conn s c) c (goto PcUnwind h)
      | EnvOk \<Rightarrow> s)"

definition unwind_step :: "server \<Rightarrow> conn_id \<Rightarrow> handler \<Rightarrow> server" where
  "unwind_step s c h =
     (case hd_defers h of
        [] \<Rightarrow> s\<lparr>sv_handlers := (sv_handlers s)(c := None)\<rparr>
      | d # ds \<Rightarrow>
          let s = (case d of
                     DDrop \<Rightarrow> s\<lparr>sv_live := sessionIndex_drop (sv_live s) (hd_cn h) c\<rparr>
                   | DRelease4 l x \<Rightarrow> s\<lparr>sv_pool := map_option (\<lambda>p. Release p (hd_cn h) l x) (sv_pool s)\<rparr>
                   | DRelease6 l x \<Rightarrow> s\<lparr>sv_poolV6 := map_option (\<lambda>p. Release p (hd_cn h) l x) (sv_poolV6 s)\<rparr>
                   | DRemove a \<Rightarrow> s\<lparr>sv_router := Router_Remove (sv_router s) a c\<rparr>)
          in set_handler s c (h\<lparr>hd_defers := ds\<rparr>))"

definition handler_step :: "server_config \<Rightarrow> server \<Rightarrow> conn_id \<Rightarrow> handler \<Rightarrow> env \<Rightarrow> server" where
  "handler_step cfg s c h e =
     (case hd_pc h of
        PcTake \<Rightarrow> take_step cfg s c h
      | PcAlloc4 \<Rightarrow> alloc4_step s c h
      | PcAlloc6 \<Rightarrow> alloc6_step s c h
      | PcAssign \<Rightarrow> assign_step s c h e
      | PcRoutes \<Rightarrow> routes_step cfg s c h e
      | PcLog \<Rightarrow> (if e = EnvErr then set_handler s c (goto PcUnwind h) else s)
      | PcAdd4 \<Rightarrow> add_step s c h (hd_addr4 h) PcAdd6
      | PcAdd6 \<Rightarrow> (if prefix_is_valid (hd_addr6 h) then add_step s c h (hd_addr6 h) PcForward
                   else set_handler s c (goto PcForward h))
      | PcForward \<Rightarrow> forward_step s c h e
      | PcUnwind \<Rightarrow> unwind_step s c h)"

section \<open>The server as a whole\<close>

datatype sv_event = EvRequest request | EvStep conn_id env | EvTun bytes

definition tun_packet :: "server \<Rightarrow> bytes \<Rightarrow> server" where
  "tun_packet s pkt =
     (if sv_tun s then
        (case Router_deliver (sv_router s) pkt of
           None \<Rightarrow> s
         | Some w \<Rightarrow> s\<lparr>sv_sent := sv_sent s @ [w]\<rparr>)
      else s)"

fun sv_step :: "server_config \<Rightarrow> server \<Rightarrow> sv_event \<Rightarrow> server" where
  "sv_step cfg s (EvRequest rq) = fst (vpn_request cfg s rq)"
| "sv_step cfg s (EvStep c e) =
     (case sv_handlers s c of None \<Rightarrow> s | Some h \<Rightarrow> handler_step cfg s c h e)"
| "sv_step cfg s (EvTun pkt) = tun_packet s pkt"

definition sv_run :: "server_config \<Rightarrow> server \<Rightarrow> sv_event list \<Rightarrow> server" where
  "sv_run cfg s evs = foldl (sv_step cfg) s evs"

section \<open>Start-up\<close>

text \<open>What the operating system and the TLS library answer while the server starts.\<close>

record setup_env =
  se_createTUN :: "string \<Rightarrow> int \<Rightarrow> string option"
  se_exec :: "string list \<Rightarrow> bool"
  se_resolveUDP :: "string \<Rightarrow> bool"
  se_listenUDP :: bool
  se_keyPair :: "string \<Rightarrow> string \<Rightarrow> bool"
  se_readFile :: "string \<Rightarrow> string option"
  se_appendCerts :: "string \<Rightarrow> bool"
  se_quicListen :: bool

datatype run_error =
  RunCreateTUN | RunBringUp | RunTunAddr | RunPool pool_error | RunTunAddrV6 | RunPoolV6 pool_error
| RunResolve | RunListenUDP | RunKeyPair | RunReadCA | RunParseCA | RunQuicListen

definition open_tun :: "setup_env \<Rightarrow> server_config \<Rightarrow> run_error + bool" where
  "open_tun env cfg =
     (if sc_tunName cfg = [] then Inr False
      else case se_createTUN env (sc_tunName cfg) (sc_mtu cfg) of
             None \<Rightarrow> Inl RunCreateTUN
           | Some name \<Rightarrow>
               if snd (bringUpTUN (se_exec env) name [sc_tunAddr cfg, sc_tunAddrV6 cfg]) then Inr True
               else Inl RunBringUp)"

definition open_pool :: "run_error \<Rightarrow> (pool_error \<Rightarrow> run_error) \<Rightarrow> string \<Rightarrow> string \<Rightarrow> run_error + pool option" where
  "open_pool badAddr badPool cidr tunAddr =
     (if cidr = [] then Inr None
      else case parse_prefix tunAddr of
             None \<Rightarrow> Inl badAddr
           | Some x \<Rightarrow>
               (case NewIPPool cidr (px_addr x) of
                  Inl e \<Rightarrow> Inl (badPool e)
                | Inr p \<Rightarrow> Inr (Some p)))"

definition open_tls :: "setup_env \<Rightarrow> server_config \<Rightarrow> run_error + bool" where
  "open_tls env cfg =
     (if \<not> se_resolveUDP env (sc_bind cfg) then Inl RunResolve
      else if \<not> se_listenUDP env then Inl RunListenUDP
      else if \<not> se_keyPair env (sc_certFile cfg) (sc_keyFile cfg) then Inl RunKeyPair
      else res_bind
        (if sc_clientCA cfg = [] then Inr False
         else case se_readFile env (sc_clientCA cfg) of
                None \<Rightarrow> Inl RunReadCA
              | Some pem \<Rightarrow> if se_appendCerts env pem then Inr True else Inl RunParseCA)
        (\<lambda>mtls. if se_quicListen env then Inr mtls else Inl RunQuicListen))"

definition run_server :: "setup_env \<Rightarrow> server_config \<Rightarrow> run_error + server" where
  "run_server env cfg =
     res_bind (open_tun env cfg) (\<lambda>tun.
     res_bind (open_pool RunTunAddr RunPool (sc_poolCIDR cfg) (sc_tunAddr cfg)) (\<lambda>pool.
     res_bind (open_pool RunTunAddrV6 RunPoolV6 (sc_poolCIDRV6 cfg) (sc_tunAddrV6 cfg)) (\<lambda>poolV6.
     res_bind (open_tls env cfg) (\<lambda>mtls.
       Inr \<lparr>sv_tun = tun, sv_mtls = mtls, sv_router = NewRouter, sv_pool = pool, sv_poolV6 = poolV6,
            sv_live = \<lparr>si_byCN = Map.empty\<rparr>, sv_next = 0, sv_handlers = Map.empty, sv_closed = {},
            sv_assigned = Map.empty, sv_routes = Map.empty, sv_tun_out = [], sv_sent = []\<rparr>))))"

end
