(* ===== verification/ServerProps.thy ===== *)
theory ServerProps
  imports Server
begin

text \<open>
  Invariants of the server over every interleaving of requests, sessions and tunnel packets,
  and the properties that follow from them.
\<close>

section \<open>One step\<close>

lemma set_handler_simps [simp]:
  "sv_handlers (set_handler s c h) = (sv_handlers s)(c \<mapsto> h)"
  "sv_router (set_handler s c h) = sv_router s" "sv_live (set_handler s c h) = sv_live s"
  "sv_pool (set_handler s c h) = sv_pool s" "sv_poolV6 (set_handler s c h) = sv_poolV6 s"
  "sv_closed (set_handler s c h) = sv_closed s" "sv_next (set_handler s c h) = sv_next s"
  "sv_assigned (set_handler s c h) = sv_assigned s" "sv_tun (set_handler s c h) = sv_tun s"
  by (simp_all add: set_handler_def)

lemma close_conn_simps [simp]:
  "sv_handlers (close_conn s c) = sv_handlers s"
  "sv_router (close_conn s c) = sv_router s" "sv_live (close_conn s c) = sv_live s"
  "sv_pool (close_conn s c) = sv_pool s" "sv_poolV6 (close_conn s c) = sv_poolV6 s"
  "sv_closed (close_conn s c) = insert c (sv_closed s)" "sv_next (close_conn s c) = sv_next s"
  "sv_assigned (close_conn s c) = sv_assigned s" "sv_tun (close_conn s c) = sv_tun s"
  by (simp_all add: close_conn_def)

lemma goto_simps [simp]:
  "hd_pc (goto l h) = l" "hd_cn (goto l h) = hd_cn h" "hd_defers (goto l h) = hd_defers h"
  "hd_addr4 (goto l h) = hd_addr4 h" "hd_addr6 (goto l h) = hd_addr6 h"
  by (simp_all add: goto_def)

lemma push_simps [simp]:
  "hd_pc (push d h) = hd_pc h" "hd_cn (push d h) = hd_cn h" "hd_defers (push d h) = d # hd_defers h"
  "hd_addr4 (push d h) = hd_addr4 h" "hd_addr6 (push d h) = hd_addr6 h"
  by (simp_all add: push_def)

lemma assigned_of_simps [simp]:
  "assigned_of (goto l h) = assigned_of h" "assigned_of (push d h) = assigned_of h"
  "assigned_of (h\<lparr>hd_defers := ds\<rparr>) = assigned_of h"
  by (simp_all add: assigned_of_def)

lemmas step_defs = take_step_def alloc4_step_def alloc6_step_def assign_step_def routes_step_def
  add_step_def forward_step_def unwind_step_def Let_def

text \<open>
  What one session's step may do to the handlers: it ends the session or replaces its handler;
  it keeps the session's name, and touches no other handler.
\<close>

lemma handler_step_handlers:
  assumes "sv_handlers s c = Some h"
  shows "(\<exists>h'. sv_handlers (handler_step cfg s c h e) = (sv_handlers s)(c \<mapsto> h') \<and> hd_cn h' = hd_cn h) \<or>
         (sv_handlers (handler_step cfg s c h e) = (sv_handlers s)(c := None) \<and>
            hd_pc h = PcUnwind \<and> hd_defers h = [])"
proof -
  have keep: "\<exists>h'. sv_handlers s = (sv_handlers s)(c \<mapsto> h') \<and> hd_cn h' = hd_cn h"
    using assms by (intro exI[of _ h]) (simp add: map_upd_triv)
  show ?thesis
    by (cases "hd_pc h") (auto simp: handler_step_def step_defs intro: keep
        split: option.splits prod.splits sum.splits list.splits deferred.splits env.splits bool.splits)
qed

lemma handler_step_other:
  assumes "sv_handlers s c = Some h" "d \<noteq> c"
  shows "sv_handlers (handler_step cfg s c h e) d = sv_handlers s d"
  using handler_step_handlers[OF assms(1), of cfg e] assms(2) by auto

lemma handler_step_next [simp]: "sv_next (handler_step cfg s c h e) = sv_next s"
  by (cases "hd_pc h") (auto simp: handler_step_def step_defs
        split: option.splits prod.splits sum.splits list.splits deferred.splits env.splits bool.splits)

text \<open>An induction rule: what a request, a step of a session and a tunnel packet preserve.\<close>

lemma sv_run_invariant:
  assumes "I s"
    and "\<And>s rq. I s \<Longrightarrow> I (fst (vpn_request cfg s rq))"
    and "\<And>s c h e. I s \<Longrightarrow> sv_handlers s c = Some h \<Longrightarrow> I (handler_step cfg s c h e)"
    and "\<And>s pkt. I s \<Longrightarrow> I (tun_packet s pkt)"
  shows "I (sv_run cfg s evs)"
  using assms(1) unfolding sv_run_def
proof (induction evs arbitrary: s)
  case (Cons ev evs)
  have "I (sv_step cfg s ev)"
    using Cons.prems assms(2-4) by (cases ev) (auto split: option.splits)
  with Cons.IH show ?case by simp
qed simp

lemma tun_packet_simps [simp]:
  "sv_handlers (tun_packet s pkt) = sv_handlers s" "sv_router (tun_packet s pkt) = sv_router s"
  "sv_live (tun_packet s pkt) = sv_live s" "sv_pool (tun_packet s pkt) = sv_pool s"
  "sv_poolV6 (tun_packet s pkt) = sv_poolV6 s" "sv_closed (tun_packet s pkt) = sv_closed s"
  "sv_next (tun_packet s pkt) = sv_next s" "sv_assigned (tun_packet s pkt) = sv_assigned s"
  by (simp_all add: tun_packet_def split: option.splits)

text \<open>A request is refused without a trace or opens a session with a new identity.\<close>

lemma vpn_request_cases:
  obtains (refused) st where "vpn_request cfg s rq = (s, Some st)"
  | (opened) "request_cn rq = [] \<or> request_cn rq \<notin> sc_blocked cfg"
      "vpn_request cfg s rq =
        (set_handler (s\<lparr>sv_next := sv_next s + 1\<rparr>) (sv_next s)
          \<lparr>hd_cn = request_cn rq, hd_pc = PcTake, hd_addr4 = no_prefix, hd_addr6 = no_prefix, hd_defers = []\<rparr>, None)"
proof (cases "snd (vpn_request cfg s rq)")
  case None
  then show ?thesis
    by (intro opened) (auto simp: vpn_request_def Let_def split: parse_outcome.splits if_splits)
next
  case (Some st)
  then show ?thesis
    by (intro refused[of st]) (auto simp: vpn_request_def Let_def split: parse_outcome.splits if_splits)
qed

section \<open>Names, identities and the denylist\<close>

definition inv_names :: "server_config \<Rightarrow> server \<Rightarrow> bool" where
  "inv_names cfg s \<longleftrightarrow>
     (\<forall>c h. sv_handlers s c = Some h \<longrightarrow>
        c < sv_next s \<and> (hd_cn h = [] \<or> hd_cn h \<notin> sc_blocked cfg))"

lemma inv_names_run: "inv_names cfg s \<Longrightarrow> inv_names cfg (sv_run cfg s evs)"
proof (rule sv_run_invariant, assumption)
  fix s rq assume "inv_names cfg s"
  then show "inv_names cfg (fst (vpn_request cfg s rq))"
    by (cases rule: vpn_request_cases[of cfg s rq]) (auto simp: inv_names_def less_SucI)
next
  fix s c h e assume i: "inv_names cfg s" and h: "sv_handlers s c = Some h"
  show "inv_names cfg (handler_step cfg s c h e)"
    unfolding inv_names_def
  proof (intro allI impI)
    fix d k assume k: "sv_handlers (handler_step cfg s c h e) d = Some k"
    then obtain k0 where "sv_handlers s d = Some k0" "hd_cn k = hd_cn k0"
      using handler_step_handlers[OF h, of cfg e] h by (cases "d = c") auto
    with i show "d < sv_next (handler_step cfg s c h e) \<and> (hd_cn k = [] \<or> hd_cn k \<notin> sc_blocked cfg)"
      by (simp add: inv_names_def)
  qed
qed (simp add: inv_names_def)

lemma sv_run_invariant_names [consumes 2, case_names request step packet]:
  assumes "I s" and "inv_names cfg s"
    and "\<And>s rq. I s \<Longrightarrow> inv_names cfg s \<Longrightarrow> I (fst (vpn_request cfg s rq))"
    and "\<And>s c h e. I s \<Longrightarrow> sv_handlers s c = Some h \<Longrightarrow> I (handler_step cfg s c h e)"
    and "\<And>s pkt. I s \<Longrightarrow> I (tun_packet s pkt)"
  shows "I (sv_run cfg s evs)"
  using assms(1,2)
proof (induction evs arbitrary: s)
  case (Cons ev evs)
  have "I (sv_step cfg s ev)"
    using Cons.prems assms(3-5) by (cases ev) (auto split: option.splits)
  moreover have "inv_names cfg (sv_step cfg s ev)"
    using inv_names_run[OF Cons.prems(2), of "[ev]"] by (simp add: sv_run_def)
  ultimately show ?case using Cons.IH by (simp add: sv_run_def)
qed (simp add: sv_run_def)

section \<open>The shape of a session\<close>

text \<open>
  Registrations are only removed by sessions that made them, after the client was told its
  addresses; the name is dropped last.
\<close>

definition wf_handler :: "prefix list option \<Rightarrow> handler \<Rightarrow> bool" where
  "wf_handler told h \<longleftrightarrow>
     (hd_pc h = PcTake \<longrightarrow> hd_defers h = []) \<and>
     DDrop \<notin> set (butlast (hd_defers h)) \<and>
     (\<forall>a. DRemove a \<in> set (hd_defers h) \<longrightarrow>
        hd_pc h \<in> {PcAdd6, PcForward, PcUnwind} \<and> a \<in> px_addr ` set (assigned_of h)) \<and>
     (hd_pc h \<in> {PcRoutes, PcLog, PcAdd4, PcAdd6, PcForward} \<or> (\<exists>a. DRemove a \<in> set (hd_defers h)) \<longrightarrow>
        told = Some (assigned_of h))"

definition inv_shape :: "server \<Rightarrow> bool" where
  "inv_shape s \<longleftrightarrow> (\<forall>c h. sv_handlers s c = Some h \<longrightarrow> wf_handler (sv_assigned s c) h)"

lemma assigned_members:
  "px_addr (hd_addr4 h) \<in> px_addr ` set (assigned_of h)"
  "prefix_is_valid (hd_addr6 h) \<Longrightarrow> px_addr (hd_addr6 h) \<in> px_addr ` set (assigned_of h)"
  by (simp_all add: assigned_of_def)

lemma wf_handler_step:
  assumes wf: "wf_handler (sv_assigned s c) h" and h: "sv_handlers s c = Some h"
    and h': "sv_handlers (handler_step cfg s c h e) c = Some h'"
  shows "wf_handler (sv_assigned (handler_step cfg s c h e) c) h'"
proof (cases "hd_pc h")
  case PcTake
  with wf h' show ?thesis
    by (auto simp: handler_step_def take_step_def wf_handler_def Let_def split: prod.splits option.splits)
next
  case PcAlloc4
  with wf h' show ?thesis
    by (auto simp: handler_step_def alloc4_step_def wf_handler_def Let_def split: prod.splits option.splits sum.splits if_splits)
next
  case PcAlloc6
  with wf h' show ?thesis
    by (auto simp: handler_step_def alloc6_step_def wf_handler_def Let_def split: prod.splits option.splits sum.splits if_splits)
next
  case PcAssign
  with wf h' show ?thesis
    by (auto simp: handler_step_def assign_step_def wf_handler_def Let_def split: if_splits)
next
  case PcRoutes
  with wf h' show ?thesis
    by (auto simp: handler_step_def routes_step_def wf_handler_def Let_def split: option.splits if_splits)
next
  case PcLog
  with wf h h' show ?thesis
    by (auto simp: handler_step_def wf_handler_def Let_def split: if_splits)
next
  case PcAdd4
  with wf h' assigned_members(1)[of h] show ?thesis
    by (auto simp: handler_step_def add_step_def wf_handler_def Let_def split: if_splits)
next
  case PcAdd6
  with wf h' assigned_members(2)[of h] show ?thesis
    by (auto simp: handler_step_def add_step_def wf_handler_def Let_def split: if_splits)
next
  case PcForward
  with wf h h' show ?thesis
    by (auto simp: handler_step_def forward_step_def wf_handler_def Let_def split: env.splits bool.splits)
next
  case PcUnwind
  obtain d ds where ds: "hd_defers h = d # ds"
    using PcUnwind h' by (cases "hd_defers h") (auto simp: handler_step_def unwind_step_def)
  have "h' = h\<lparr>hd_defers := ds\<rparr>" "sv_assigned (handler_step cfg s c h e) = sv_assigned s"
    using PcUnwind h' ds by (auto simp: handler_step_def unwind_step_def Let_def split: deferred.splits)
  with wf ds PcUnwind show ?thesis by (auto simp: wf_handler_def split: if_splits)
qed

lemma handler_step_assigned_other:
  "d \<noteq> c \<Longrightarrow> sv_assigned (handler_step cfg s c h e) d = sv_assigned s d"
  by (cases "hd_pc h") (auto simp: handler_step_def step_defs
        split: option.splits prod.splits sum.splits list.splits deferred.splits env.splits bool.splits)

lemma inv_shape_run: "inv_shape s \<Longrightarrow> inv_shape (sv_run cfg s evs)"
proof (rule sv_run_invariant, assumption)
  fix s rq assume "inv_shape s"
  then show "inv_shape (fst (vpn_request cfg s rq))"
    by (cases rule: vpn_request_cases[of cfg s rq]) (auto simp: inv_shape_def wf_handler_def)
next
  fix s c h e assume i: "inv_shape s" and h: "sv_handlers s c = Some h"
  show "inv_shape (handler_step cfg s c h e)"
    unfolding inv_shape_def
  proof (intro allI impI)
    fix d k assume k: "sv_handlers (handler_step cfg s c h e) d = Some k"
    show "wf_handler (sv_assigned (handler_step cfg s c h e) d) k"
    proof (cases "d = c")
      case True
      with wf_handler_step[OF _ h] i h k show ?thesis by (auto simp: inv_shape_def)
    next
      case False
      with i k handler_step_other[OF h False] show ?thesis
        by (simp add: inv_shape_def handler_step_assigned_other)
    qed
  qed
qed (simp add: inv_shape_def)

section \<open>The router\<close>

definition inv_router :: "server \<Rightarrow> bool" where
  "inv_router s \<longleftrightarrow>
     (\<forall>a c. Router_lookup (sv_router s) a = Some c \<longrightarrow>
        (\<exists>h. sv_handlers s c = Some h \<and> DRemove a \<in> set (hd_defers h)))"

lemma inv_router_mono:
  assumes "inv_router s" "sv_handlers s c = Some h" "sv_router s' = sv_router s"
    "sv_handlers s' = (sv_handlers s)(c \<mapsto> h')" "set (hd_defers h) \<subseteq> set (hd_defers h')"
  shows "inv_router s'"
  unfolding inv_router_def
proof (intro allI impI)
  fix a d assume "Router_lookup (sv_router s') a = Some d"
  with assms(1,3) obtain k where k: "sv_handlers s d = Some k" "DRemove a \<in> set (hd_defers k)"
    by (auto simp: inv_router_def)
  with assms(2,4,5) show "\<exists>k. sv_handlers s' d = Some k \<and> DRemove a \<in> set (hd_defers k)"
    by (cases "d = c") auto
qed

lemma inv_router_add:
  assumes "inv_router s" "sv_handlers s c = Some h"
  shows "inv_router (add_step s c h x l)"
  using assms unfolding inv_router_def
  by (auto simp: add_step_def Let_def rt.look_put split: if_splits) fastforce+

lemma inv_router_unwind:
  assumes i: "inv_router s" and h: "sv_handlers s c = Some h"
  shows "inv_router (unwind_step s c h)"
  unfolding inv_router_def
proof (intro allI impI)
  fix a d assume l: "Router_lookup (sv_router (unwind_step s c h)) a = Some d"
  have r: "sv_router (unwind_step s c h) =
      (case hd_defers h of DRemove b # _ \<Rightarrow> Router_Remove (sv_router s) b c | _ \<Rightarrow> sv_router s)"
    by (simp add: unwind_step_def Let_def split: list.splits deferred.splits)
  with l have "Router_lookup (sv_router s) a = Some d"
    and n: "\<And>b ds. hd_defers h = DRemove b # ds \<Longrightarrow> \<not> (a = b \<and> d = c)"
    by (auto simp: rt.look_drop split: list.splits deferred.splits if_splits)
  then obtain k where k: "sv_handlers s d = Some k" "DRemove a \<in> set (hd_defers k)"
    using i unfolding inv_router_def by blast
  show "\<exists>k. sv_handlers (unwind_step s c h) d = Some k \<and> DRemove a \<in> set (hd_defers k)"
  proof (cases "d = c")
    case False
    with k show ?thesis by (auto simp: unwind_step_def Let_def split: list.splits deferred.splits)
  next
    case True
    with k h obtain e ds where ds: "hd_defers h = e # ds" "DRemove a \<in> set (e # ds)"
      by (cases "hd_defers h") auto
    with n True have "DRemove a \<in> set ds" by auto
    with ds True show ?thesis by (auto simp: unwind_step_def Let_def split: deferred.splits)
  qed
qed

lemma step_keeps_defers:
  assumes h: "sv_handlers s c = Some h" and n: "hd_pc h \<noteq> PcUnwind"
  shows "\<exists>h'. sv_handlers (handler_step cfg s c h e) = (sv_handlers s)(c \<mapsto> h') \<and> hd_cn h' = hd_cn h \<and>
    (hd_defers h' = hd_defers h \<or> (\<exists>d. hd_defers h' = d # hd_defers h))"
proof -
  have keep: "\<exists>h'. sv_handlers s = (sv_handlers s)(c \<mapsto> h') \<and> hd_cn h' = hd_cn h \<and>
    (hd_defers h' = hd_defers h \<or> (\<exists>d. hd_defers h' = d # hd_defers h))"
    using h by (intro exI[of _ h]) (simp add: map_upd_triv)
  show ?thesis
    using n by (cases "hd_pc h") (auto simp: handler_step_def step_defs intro: keep
        split: option.splits prod.splits sum.splits env.splits bool.splits)
qed

lemma step_router:
  "hd_pc h \<notin> {PcAdd4, PcAdd6, PcUnwind} \<Longrightarrow> sv_router (handler_step cfg s c h e) = sv_router s"
  by (cases "hd_pc h") (auto simp: handler_step_def step_defs
        split: option.splits prod.splits sum.splits env.splits bool.splits)

lemma inv_router_step:
  assumes i: "inv_router s" and h: "sv_handlers s c = Some h"
  shows "inv_router (handler_step cfg s c h e)"
proof -
  have keep: "inv_router (handler_step cfg s c h e)"
    if "hd_pc h \<noteq> PcUnwind" "sv_router (handler_step cfg s c h e) = sv_router s"
  proof -
    from step_keeps_defers[OF h that(1), of cfg e] obtain h' where
      h': "sv_handlers (handler_step cfg s c h e) = (sv_handlers s)(c \<mapsto> h')"
      and d: "hd_defers h' = hd_defers h \<or> (\<exists>d. hd_defers h' = d # hd_defers h)" by blast
    from d have "set (hd_defers h) \<subseteq> set (hd_defers h')" by auto
    with inv_router_mono[OF i h that(2) h'] show ?thesis by blast
  qed
  show ?thesis
  proof (cases "hd_pc h \<in> {PcAdd4, PcAdd6, PcUnwind}")
    case True
    with inv_router_add[OF i h] inv_router_unwind[OF i h] keep show ?thesis
      by (auto simp: handler_step_def split: if_splits)
  next
    case False
    with keep step_router[OF False] show ?thesis by blast
  qed
qed

lemma inv_router_run:
  assumes "inv_router s" "inv_names cfg s"
  shows "inv_router (sv_run cfg s evs)"
  using assms
proof (induction rule: sv_run_invariant_names)
  case (request s rq)
  then show ?case
    by (cases rule: vpn_request_cases[of cfg s rq]) (fastforce simp: inv_router_def inv_names_def)+
next
  case (step s c h e)
  then show ?case by (intro inv_router_step)
qed (simp add: inv_router_def)

section \<open>The session index\<close>

definition inv_live :: "server \<Rightarrow> bool" where
  "inv_live s \<longleftrightarrow>
     (\<forall>cn c. si_byCN (sv_live s) cn = Some c \<longrightarrow>
        cn \<noteq> [] \<and> (\<exists>h. sv_handlers s c = Some h \<and> hd_cn h = cn \<and> DDrop \<in> set (hd_defers h))) \<and>
     (\<forall>c h. sv_handlers s c = Some h \<and> DDrop \<in> set (hd_defers h) \<and> hd_cn h \<noteq> [] \<and> c \<notin> sv_closed s \<longrightarrow>
        si_byCN (sv_live s) (hd_cn h) = Some c)"

lemma inv_liveI:
  assumes "\<And>cn c. si_byCN (sv_live s) cn = Some c \<Longrightarrow>
      cn \<noteq> [] \<and> (\<exists>h. sv_handlers s c = Some h \<and> hd_cn h = cn \<and> DDrop \<in> set (hd_defers h))"
    and "\<And>c h. sv_handlers s c = Some h \<Longrightarrow> DDrop \<in> set (hd_defers h) \<Longrightarrow> hd_cn h \<noteq> [] \<Longrightarrow>
      c \<notin> sv_closed s \<Longrightarrow> si_byCN (sv_live s) (hd_cn h) = Some c"
  shows "inv_live s"
  using assms unfolding inv_live_def by blast

lemma inv_live_holder:
  assumes "inv_live s" "si_byCN (sv_live s) cn = Some c"
  obtains h where "cn \<noteq> []" "sv_handlers s c = Some h" "hd_cn h = cn" "DDrop \<in> set (hd_defers h)"
  using assms unfolding inv_live_def by blast

lemma inv_live_open:
  "inv_live s \<Longrightarrow> sv_handlers s c = Some h \<Longrightarrow> DDrop \<in> set (hd_defers h) \<Longrightarrow> hd_cn h \<noteq> [] \<Longrightarrow>
   c \<notin> sv_closed s \<Longrightarrow> si_byCN (sv_live s) (hd_cn h) = Some c"
  unfolding inv_live_def by blast

lemma inv_live_keep:
  assumes i: "inv_live s" and h: "sv_handlers s c = Some h" and l: "sv_live s' = sv_live s"
    and cl: "sv_closed s \<subseteq> sv_closed s'"
    and h': "sv_handlers s' = (sv_handlers s)(c \<mapsto> h')" "hd_cn h' = hd_cn h"
    "DDrop \<in> set (hd_defers h') \<longleftrightarrow> DDrop \<in> set (hd_defers h)"
  shows "inv_live s'"
proof (rule inv_liveI)
  fix cn d assume "si_byCN (sv_live s') cn = Some d"
  then have "si_byCN (sv_live s) cn = Some d" by (simp only: l)
  with i obtain k where k: "cn \<noteq> []" "sv_handlers s d = Some k" "hd_cn k = cn" "DDrop \<in> set (hd_defers k)"
    by (rule inv_live_holder)
  then show "cn \<noteq> [] \<and> (\<exists>k. sv_handlers s' d = Some k \<and> hd_cn k = cn \<and> DDrop \<in> set (hd_defers k))"
    using h h' by (cases "d = c") simp_all
next
  fix d k assume k: "sv_handlers s' d = Some k" "DDrop \<in> set (hd_defers k)" "hd_cn k \<noteq> []" "d \<notin> sv_closed s'"
  then have "d \<notin> sv_closed s" using cl by blast
  then show "si_byCN (sv_live s') (hd_cn k) = Some d"
    using k h h' inv_live_open[OF i] by (cases "d = c") (simp_all add: l)
qed

lemma take_step_facts:
  assumes "hd_cn h \<noteq> []"
  shows "si_byCN (sv_live (take_step cfg s c h)) = (si_byCN (sv_live s))(hd_cn h \<mapsto> c)"
    "sv_handlers (take_step cfg s c h) =
       (sv_handlers s)(c \<mapsto> goto PcAlloc4 (push DDrop (h\<lparr>hd_addr4 := sc_assign cfg\<rparr>)))"
    "si_byCN (sv_live s) (hd_cn h) = Some old \<Longrightarrow> old \<noteq> c \<Longrightarrow> old \<in> sv_closed (take_step cfg s c h)"
    "sv_closed s \<subseteq> sv_closed (take_step cfg s c h)"
  using assms by (auto simp: take_step_def sessionIndex_take_def Let_def split: option.splits)

lemma inv_live_take:
  assumes i: "inv_live s" and h: "sv_handlers s c = Some h" and d: "hd_defers h = []"
  shows "inv_live (take_step cfg s c h)"
proof (rule inv_liveI)
  let ?t = "take_step cfg s c h"
  let ?h = "goto PcAlloc4 (push DDrop (h\<lparr>hd_addr4 := sc_assign cfg\<rparr>))"
  have hs: "sv_handlers ?t = (sv_handlers s)(c \<mapsto> ?h)"
    by (simp add: take_step_def Let_def split: prod.splits option.splits)
  have anon: "sv_live ?t = sv_live s" if "hd_cn h = []"
    using that by (simp add: take_step_def sessionIndex_take_def Let_def)
  { fix cn e assume l: "si_byCN (sv_live ?t) cn = Some e"
    show "cn \<noteq> [] \<and> (\<exists>k. sv_handlers ?t e = Some k \<and> hd_cn k = cn \<and> DDrop \<in> set (hd_defers k))"
    proof (cases "cn = hd_cn h \<and> cn \<noteq> []")
      case True
      then have cn: "cn = hd_cn h" and ne: "hd_cn h \<noteq> []" by blast+
      have "e = c" using l by (simp add: cn take_step_facts(1)[OF ne])
      with ne hs show ?thesis by (simp add: cn)
    next
      case False
      then have "si_byCN (sv_live s) cn = Some e"
        using l anon take_step_facts(1)[of h cfg s c] by (cases "hd_cn h = []") auto
      with i obtain k where k: "cn \<noteq> []" "sv_handlers s e = Some k" "hd_cn k = cn" "DDrop \<in> set (hd_defers k)"
        by (rule inv_live_holder)
      moreover from k h d have "e \<noteq> c" by auto
      ultimately show ?thesis using hs by simp
    qed }
  fix e k
  assume a: "sv_handlers ?t e = Some k" "DDrop \<in> set (hd_defers k)" "hd_cn k \<noteq> []" "e \<notin> sv_closed ?t"
  show "si_byCN (sv_live ?t) (hd_cn k) = Some e"
  proof (cases "e = c")
    case True
    with a(1,3) hs take_step_facts(1)[of h cfg s c] show ?thesis by auto
  next
    case False
    with a(1) hs have k: "sv_handlers s e = Some k" by simp
    show ?thesis
    proof (cases "hd_cn h = []")
      case True
      have "sv_closed ?t = sv_closed s"
        using True by (simp add: take_step_def sessionIndex_take_def Let_def)
      with inv_live_open[OF i k a(2,3)] a(4) anon[OF True] show ?thesis by simp
    next
      case cn: False
      note f = take_step_facts[OF cn]
      have l: "si_byCN (sv_live s) (hd_cn k) = Some e"
        using inv_live_open[OF i k a(2,3)] a(4) f(4)[of s cfg c] by blast
      have "hd_cn k \<noteq> hd_cn h" using f(3)[of s e c cfg] l False a(4) by auto
      with l f(1) show ?thesis by simp
    qed
  qed
qed

lemma inv_live_drop:
  assumes i: "inv_live s" and h: "sv_handlers s c = Some h" "hd_defers h = [DDrop]"
  shows "inv_live (set_handler (s\<lparr>sv_live := sessionIndex_drop (sv_live s) (hd_cn h) c\<rparr>) c (h\<lparr>hd_defers := []\<rparr>))"
    (is "inv_live ?t")
proof (rule inv_liveI)
  fix cn e assume "si_byCN (sv_live ?t) cn = Some e"
  then have l: "si_byCN (sv_live s) cn = Some e" "\<not> (cn = hd_cn h \<and> cn \<noteq> [] \<and> e = c)"
    by (auto simp: si.look_drop split: if_splits)
  from i l(1) obtain k where k: "cn \<noteq> []" "sv_handlers s e = Some k" "hd_cn k = cn" "DDrop \<in> set (hd_defers k)"
    by (rule inv_live_holder)
  then have "e \<noteq> c" using h(1) l(2) by auto
  with k show "cn \<noteq> [] \<and> (\<exists>k. sv_handlers ?t e = Some k \<and> hd_cn k = cn \<and> DDrop \<in> set (hd_defers k))"
    by simp
next
  fix e k
  assume a: "sv_handlers ?t e = Some k" "DDrop \<in> set (hd_defers k)" "hd_cn k \<noteq> []" "e \<notin> sv_closed ?t"
  then have e: "e \<noteq> c" "sv_handlers s e = Some k" "e \<notin> sv_closed s" by (auto split: if_splits)
  from inv_live_open[OF i e(2) a(2,3) e(3)] have "si_byCN (sv_live s) (hd_cn k) = Some e" .
  with e(1) show "si_byCN (sv_live ?t) (hd_cn k) = Some e" by (auto simp: si.look_drop)
qed

lemma inv_live_finish:
  assumes i: "inv_live s" and h: "sv_handlers s c = Some h" "hd_defers h = []"
  shows "inv_live (s\<lparr>sv_handlers := (sv_handlers s)(c := None)\<rparr>)"
proof (rule inv_liveI)
  fix cn e assume "si_byCN (sv_live (s\<lparr>sv_handlers := (sv_handlers s)(c := None)\<rparr>)) cn = Some e"
  then have "si_byCN (sv_live s) cn = Some e" by simp
  with i obtain k where k: "cn \<noteq> []" "sv_handlers s e = Some k" "hd_cn k = cn" "DDrop \<in> set (hd_defers k)"
    by (rule inv_live_holder)
  moreover have "e \<noteq> c" using k h by auto
  ultimately show "cn \<noteq> [] \<and> (\<exists>h. sv_handlers (s\<lparr>sv_handlers := (sv_handlers s)(c := None)\<rparr>) e = Some h \<and>
      hd_cn h = cn \<and> DDrop \<in> set (hd_defers h))" by simp
qed (use inv_live_open[OF i] in \<open>auto split: if_splits\<close>)

lemma step_keeps_live:
  assumes h: "sv_handlers s c = Some h" and n: "hd_pc h \<notin> {PcTake, PcUnwind}"
  shows "\<exists>h'. sv_handlers (handler_step cfg s c h e) = (sv_handlers s)(c \<mapsto> h') \<and> hd_cn h' = hd_cn h \<and>
    (DDrop \<in> set (hd_defers h') \<longleftrightarrow> DDrop \<in> set (hd_defers h)) \<and>
    sv_live (handler_step cfg s c h e) = sv_live s \<and> sv_closed s \<subseteq> sv_closed (handler_step cfg s c h e)"
proof -
  have keep: "\<exists>h'. sv_handlers s = (sv_handlers s)(c \<mapsto> h') \<and> hd_cn h' = hd_cn h \<and>
    (DDrop \<in> set (hd_defers h') \<longleftrightarrow> DDrop \<in> set (hd_defers h))"
    using h by (intro exI[of _ h]) (simp add: map_upd_triv)
  show ?thesis
    using n by (cases "hd_pc h") (auto simp: handler_step_def step_defs intro: keep
        split: option.splits prod.splits sum.splits env.splits bool.splits)
qed

lemma inv_live_unwind:
  assumes i: "inv_live s" and h: "sv_handlers s c = Some h" and wf: "DDrop \<notin> set (butlast (hd_defers h))"
  shows "inv_live (unwind_step s c h)"
proof (cases "hd_defers h")
  case Nil
  with inv_live_finish[OF i h] show ?thesis by (simp add: unwind_step_def)
next
  case (Cons d ds)
  show ?thesis
  proof (cases "d = DDrop")
    case True
    with wf Cons have "ds = []" by (cases ds) auto
    with inv_live_drop[OF i h] Cons True show ?thesis by (simp add: unwind_step_def Let_def)
  next
    case False
    with Cons show ?thesis
      by (intro inv_live_keep[OF i h, of _ "h\<lparr>hd_defers := ds\<rparr>"])
         (auto simp: unwind_step_def Let_def split: deferred.splits)
  qed
qed

lemma inv_live_step:
  assumes i: "inv_live s" and h: "sv_handlers s c = Some h" and wf: "wf_handler told h"
  shows "inv_live (handler_step cfg s c h e)"
proof (cases "hd_pc h \<in> {PcTake, PcUnwind}")
  case True
  from wf have w: "DDrop \<notin> set (butlast (hd_defers h))" "hd_pc h = PcTake \<Longrightarrow> hd_defers h = []"
    by (simp_all add: wf_handler_def)
  from True consider "hd_pc h = PcTake" | "hd_pc h = PcUnwind" by blast
  then show ?thesis
    by cases (simp_all add: handler_step_def inv_live_take[OF i h w(2)] inv_live_unwind[OF i h w(1)])
next
  case False
  from step_keeps_live[OF h False, of cfg e] obtain h' where
    "sv_handlers (handler_step cfg s c h e) = (sv_handlers s)(c \<mapsto> h')" "hd_cn h' = hd_cn h"
    "DDrop \<in> set (hd_defers h') \<longleftrightarrow> DDrop \<in> set (hd_defers h)"
    "sv_live (handler_step cfg s c h e) = sv_live s" "sv_closed s \<subseteq> sv_closed (handler_step cfg s c h e)" by blast
  then show ?thesis by (intro inv_live_keep[OF i h, of "handler_step cfg s c h e" h'])
qed

lemma inv_live_request:
  assumes i: "inv_live s" and n: "inv_names cfg s"
  shows "inv_live (fst (vpn_request cfg s rq))"
proof (cases rule: vpn_request_cases[of cfg s rq])
  case opened
  have fresh: "sv_handlers s (sv_next s) = None"
    using n by (cases "sv_handlers s (sv_next s)") (auto simp: inv_names_def)
  show ?thesis
    unfolding opened(2) fst_conv
  proof (rule inv_liveI, goal_cases)
    case (1 cn c)
    then have "si_byCN (sv_live s) cn = Some c" by simp
    with i obtain h where "cn \<noteq> []" "sv_handlers s c = Some h" "hd_cn h = cn" "DDrop \<in> set (hd_defers h)"
      by (rule inv_live_holder)
    moreover from this fresh have "c \<noteq> sv_next s" by auto
    ultimately show ?case by simp
  next
    case (2 c h)
    then show ?case using inv_live_open[OF i, of c h] by (simp split: if_splits) auto
  qed
next
  case refused
  with i show ?thesis by simp
qed

lemma inv_live_packet: "inv_live s \<Longrightarrow> inv_live (tun_packet s pkt)"
  by (rule inv_liveI) (unfold tun_packet_simps, blast elim: inv_live_holder, blast intro: inv_live_open)

definition inv_sessions :: "server \<Rightarrow> bool" where
  "inv_sessions s \<longleftrightarrow> inv_live s \<and> inv_shape s"

lemma inv_sessions_run:
  assumes "inv_sessions s" "inv_names cfg s"
  shows "inv_sessions (sv_run cfg s evs)"
  using assms
proof (induction rule: sv_run_invariant_names)
  case (request s rq)
  have "inv_shape (fst (vpn_request cfg s rq))"
    using inv_shape_run[of s cfg "[EvRequest rq]"] request(1) by (simp add: sv_run_def inv_sessions_def)
  with inv_live_request[of s cfg rq] request show ?case by (simp add: inv_sessions_def)
next
  case (step s c h e)
  then have "wf_handler (sv_assigned s c) h" by (simp add: inv_sessions_def inv_shape_def)
  moreover have "inv_shape (handler_step cfg s c h e)"
    using inv_shape_run[of s cfg "[EvStep c e]"] step by (simp add: sv_run_def inv_sessions_def)
  ultimately show ?case using inv_live_step[of s c h _ cfg e] step by (simp add: inv_sessions_def)
next
  case (packet s pkt)
  have "inv_shape (tun_packet s pkt)"
    using inv_shape_run[of s undefined "[EvTun pkt]"] packet by (simp add: sv_run_def inv_sessions_def)
  with inv_live_packet[of s pkt] packet show ?case by (simp add: inv_sessions_def)
qed

end
