(* ===== verification/ServerGrants.thy ===== *)
theory ServerGrants
  imports ServerProps
begin

text \<open>
  The address pools under the server: every address in use belongs to a session that will
  release it. The two pools are instances of one argument over the contract of the pool.
\<close>

section \<open>Outstanding grants\<close>

fun rel4 :: "deferred \<Rightarrow> (lease_id \<times> prefix) option" where
  "rel4 (DRelease4 l x) = Some (l, x)"
| "rel4 _ = None"

fun rel6 :: "deferred \<Rightarrow> (lease_id \<times> prefix) option" where
  "rel6 (DRelease6 l x) = Some (l, x)"
| "rel6 _ = None"

definition grants_of :: "(deferred \<Rightarrow> (lease_id \<times> prefix) option) \<Rightarrow> handler \<Rightarrow> lease_id grant set" where
  "grants_of rel h = {(hd_cn h, l, x) | d l x. d \<in> set (hd_defers h) \<and> rel d = Some (l, x)}"

definition grants :: "(deferred \<Rightarrow> (lease_id \<times> prefix) option) \<Rightarrow> (conn_id \<rightharpoonup> handler) \<Rightarrow> lease_id grant set" where
  "grants rel hs = (\<Union>h \<in> ran hs. grants_of rel h)"

lemma grants_empty [simp]: "grants rel Map.empty = {}"
  by (simp add: grants_def)

lemma ran_upd: "hs c = Some h \<Longrightarrow> insert h (ran (hs(c := None))) = ran hs"
  unfolding ran_def by (auto, metis option.inject)

lemma grants_split:
  "hs c = Some h \<Longrightarrow> grants rel hs = grants_of rel h \<union> grants rel (hs(c := None))"
  "grants rel (hs(c \<mapsto> h')) = grants_of rel h' \<union> grants rel (hs(c := None))"
proof -
  assume "hs c = Some h"
  from ran_upd[of hs c h, OF this] show "grants rel hs = grants_of rel h \<union> grants rel (hs(c := None))"
    unfolding grants_def by (metis UN_insert)
next
  have "ran (hs(c \<mapsto> h')) = insert h' (ran (hs(c := None)))" by (auto simp: ran_def)
  then show "grants rel (hs(c \<mapsto> h')) = grants_of rel h' \<union> grants rel (hs(c := None))"
    unfolding grants_def by (metis UN_insert)
qed

lemma grants_of_same: "hd_cn h' = hd_cn h \<Longrightarrow> hd_defers h' = hd_defers h \<Longrightarrow> grants_of rel h' = grants_of rel h"
  by (simp add: grants_of_def)

lemma grants_of_push:
  "grants_of rel (push d h) = (case rel d of None \<Rightarrow> {} | Some (l, x) \<Rightarrow> {(hd_cn h, l, x)}) \<union> grants_of rel h"
  by (auto simp: grants_of_def split: option.splits)

lemma grants_of_simps [simp]:
  "grants_of rel (goto pc h) = grants_of rel h"
  "grants_of rel (h\<lparr>hd_addr4 := x\<rparr>) = grants_of rel h" "grants_of rel (h\<lparr>hd_addr6 := x\<rparr>) = grants_of rel h"
  by (simp_all add: grants_of_def)

lemma grants_of_pop:
  assumes "hd_defers h = d # ds" "rel d = Some (l, x)"
  shows "grants_of rel h - {(hd_cn h, l, x)} \<subseteq> grants_of rel (h\<lparr>hd_defers := ds\<rparr>)"
    "grants_of rel (h\<lparr>hd_defers := ds\<rparr>) \<subseteq> grants_of rel h" "(hd_cn h, l, x) \<in> grants_of rel h"
  using assms by (auto simp: grants_of_def)

lemma grants_of_pop_other:
  "hd_defers h = d # ds \<Longrightarrow> rel d = None \<Longrightarrow> grants_of rel (h\<lparr>hd_defers := ds\<rparr>) = grants_of rel h"
  by (auto simp: grants_of_def)

definition pool_backed :: "(deferred \<Rightarrow> (lease_id \<times> prefix) option) \<Rightarrow> pool option \<Rightarrow> (conn_id \<rightharpoonup> handler) \<Rightarrow> bool" where
  "pool_backed rel po hs \<longleftrightarrow> (\<forall>p. po = Some p \<longrightarrow> ip.backed p (grants rel hs))"

lemma pool_backed_same:
  assumes "pool_backed rel po hs" "hs c = Some h" "grants_of rel h' = grants_of rel h"
  shows "pool_backed rel po (hs(c \<mapsto> h'))"
  using assms grants_split(1)[of hs c h rel] grants_split(2)[of rel hs c h']
  by (simp add: pool_backed_def)

lemma pool_backed_finish:
  assumes "pool_backed rel po hs" "hs c = Some h" "hd_defers h = []"
  shows "pool_backed rel po (hs(c := None))"
proof -
  have "grants_of rel h = {}" using assms(3) by (simp add: grants_of_def)
  with assms(1,2) grants_split(1)[of hs c h rel] show ?thesis by (simp add: pool_backed_def)
qed

lemma pool_backed_fresh:
  assumes "pool_backed rel po hs" "hs c = None" "hd_defers h = []"
  shows "pool_backed rel po (hs(c \<mapsto> h))"
proof -
  have "hs(c := None) = hs" using assms(2) by (simp add: map_upd_triv fun_upd_idem)
  then have "grants rel (hs(c \<mapsto> h)) = grants rel hs"
    using grants_split(2)[of rel hs c h] assms(3) by (simp add: grants_of_def)
  with assms(1) show ?thesis by (simp add: pool_backed_def)
qed

lemma pool_backed_alloc:
  assumes b: "pool_backed rel (Some p) hs" and h: "hs c = Some h"
    and r: "AllocateFor p (hd_cn h) = (p', Inr (x, l))"
    and h': "grants_of rel h' = insert (hd_cn h, l, x) (grants_of rel h)"
  shows "pool_backed rel (Some p') (hs(c \<mapsto> h'))"
proof -
  have "ip.backed p' (insert (hd_cn h, l, x) (grants rel hs))"
    using ip.backed_alloc_ok[OF _ r, of "grants rel hs"] b by (simp add: pool_backed_def)
  moreover have "insert (hd_cn h, l, x) (grants rel hs) = grants rel (hs(c \<mapsto> h'))"
    using grants_split(1)[of hs c h rel, OF h] grants_split(2)[of rel hs c h'] h' by auto
  ultimately show ?thesis by (simp add: pool_backed_def)
qed

lemma pool_backed_alloc_err:
  assumes b: "pool_backed rel (Some p) hs" and h: "hs c = Some h"
    and r: "AllocateFor p (hd_cn h) = (p', Inl e)" and h': "grants_of rel h' = grants_of rel h"
  shows "pool_backed rel (Some p') (hs(c \<mapsto> h'))"
proof -
  have "ip.backed p (grants rel hs)" using b by (simp add: pool_backed_def)
  from ip.backed_alloc_err[OF this r] have "ip.backed p' (grants rel hs)" .
  then have "pool_backed rel (Some p') hs" by (simp add: pool_backed_def)
  from pool_backed_same[of rel _ hs c h h', OF this h h'] show ?thesis .
qed

lemma pool_backed_release:
  assumes b: "pool_backed rel po hs" and h: "hs c = Some h"
    and d: "hd_defers h = d # ds" "rel d = Some (l, x)"
  shows "pool_backed rel (map_option (\<lambda>p. Release p (hd_cn h) l x) po) (hs(c \<mapsto> h\<lparr>hd_defers := ds\<rparr>))"
proof (cases po)
  case (Some p)
  let ?G = "grants rel hs" and ?G' = "grants rel (hs(c \<mapsto> h\<lparr>hd_defers := ds\<rparr>))"
  note s = grants_split(1)[of hs c h rel, OF h] grants_split(2)[of rel hs c "h\<lparr>hd_defers := ds\<rparr>"]
  note g = grants_of_pop[of h d ds rel l x, OF d]
  have "?G - {(hd_cn h, l, x)} \<subseteq> ?G'" "?G' \<subseteq> ?G" "(hd_cn h, l, x) \<in> ?G" using s g by auto
  with ip.backed_release[of p ?G "hd_cn h" l x ?G'] b Some show ?thesis by (simp add: pool_backed_def)
qed (simp add: pool_backed_def)

section \<open>Every step keeps both pools backed\<close>

definition inv_grants :: "server \<Rightarrow> bool" where
  "inv_grants s \<longleftrightarrow> pool_backed rel4 (sv_pool s) (sv_handlers s) \<and> pool_backed rel6 (sv_poolV6 s) (sv_handlers s)"

lemma inv_grants_keep:
  assumes "inv_grants s" "sv_handlers s c = Some h" "sv_pool s' = sv_pool s" "sv_poolV6 s' = sv_poolV6 s"
    "sv_handlers s' = (sv_handlers s)(c \<mapsto> h')"
    "grants_of rel4 h' = grants_of rel4 h" "grants_of rel6 h' = grants_of rel6 h"
  shows "inv_grants s'"
  unfolding inv_grants_def assms(3-5)
  using assms(1,2,6,7) by (auto simp: inv_grants_def intro: pool_backed_same)

lemma inv_grants_alloc4:
  assumes i: "inv_grants s" and h: "sv_handlers s c = Some h"
  shows "inv_grants (alloc4_step s c h)"
proof (cases "sv_pool s")
  case None
  then show ?thesis by (intro inv_grants_keep[OF i h, of _ "goto PcAlloc6 h"]) (simp_all add: alloc4_step_def)
next
  case (Some p)
  have b: "pool_backed rel4 (Some p) (sv_handlers s)" "pool_backed rel6 (sv_poolV6 s) (sv_handlers s)"
    using i Some by (simp_all add: inv_grants_def)
  obtain p' r where r: "AllocateFor p (hd_cn h) = (p', r)" by (cases "AllocateFor p (hd_cn h)")
  show ?thesis
  proof (cases r)
    case (Inl e)
    from pool_backed_alloc_err[OF b(1) h r[unfolded Inl], of "goto PcUnwind h"]
      pool_backed_same[OF b(2) h, of "goto PcUnwind h"]
    show ?thesis by (simp add: inv_grants_def alloc4_step_def Some r Inl)
  next
    case (Inr al)
    obtain x l where al: "al = (x, l)" by (cases al)
    let ?h = "goto PcAlloc6 (push (DRelease4 l x) (h\<lparr>hd_addr4 := x\<rparr>))"
    have g: "grants_of rel4 ?h = insert (hd_cn h, l, x) (grants_of rel4 h)" "grants_of rel6 ?h = grants_of rel6 h"
      by (simp_all add: grants_of_push)
    from pool_backed_alloc[OF b(1) h r[unfolded Inr al] g(1)] pool_backed_same[OF b(2) h g(2)]
    show ?thesis by (simp add: inv_grants_def alloc4_step_def Some r Inr al)
  qed
qed

lemma inv_grants_alloc6:
  assumes i: "inv_grants s" and h: "sv_handlers s c = Some h"
  shows "inv_grants (alloc6_step s c h)"
proof (cases "sv_poolV6 s")
  case None
  then show ?thesis by (intro inv_grants_keep[OF i h, of _ "goto PcAssign h"]) (simp_all add: alloc6_step_def)
next
  case (Some p)
  have b: "pool_backed rel6 (Some p) (sv_handlers s)" "pool_backed rel4 (sv_pool s) (sv_handlers s)"
    using i Some by (simp_all add: inv_grants_def)
  obtain p' r where r: "AllocateFor p (hd_cn h) = (p', r)" by (cases "AllocateFor p (hd_cn h)")
  show ?thesis
  proof (cases r)
    case (Inl e)
    from pool_backed_alloc_err[OF b(1) h r[unfolded Inl], of "goto PcUnwind h"]
      pool_backed_same[OF b(2) h, of "goto PcUnwind h"]
    show ?thesis by (simp add: inv_grants_def alloc6_step_def Some r Inl)
  next
    case (Inr al)
    obtain x l where al: "al = (x, l)" by (cases al)
    let ?h = "goto PcAssign (push (DRelease6 l x) (h\<lparr>hd_addr6 := x\<rparr>))"
    have g: "grants_of rel6 ?h = insert (hd_cn h, l, x) (grants_of rel6 h)" "grants_of rel4 ?h = grants_of rel4 h"
      by (simp_all add: grants_of_push)
    from pool_backed_alloc[OF b(1) h r[unfolded Inr al] g(1)] pool_backed_same[OF b(2) h g(2)]
    show ?thesis by (simp add: inv_grants_def alloc6_step_def Some r Inr al)
  qed
qed

lemma inv_grants_unwind:
  assumes i: "inv_grants s" and h: "sv_handlers s c = Some h"
  shows "inv_grants (unwind_step s c h)"
proof -
  have b: "pool_backed rel4 (sv_pool s) (sv_handlers s)" "pool_backed rel6 (sv_poolV6 s) (sv_handlers s)"
    using i by (simp_all add: inv_grants_def)
  show ?thesis
  proof (cases "hd_defers h")
    case Nil
    with pool_backed_finish[OF b(1) h] pool_backed_finish[OF b(2) h] show ?thesis
      by (simp add: unwind_step_def inv_grants_def)
  next
    case (Cons d ds)
    note rel = pool_backed_release[OF b(1) h Cons] pool_backed_release[OF b(2) h Cons]
    note same = pool_backed_same[OF b(1) h grants_of_pop_other[OF Cons]]
      pool_backed_same[OF b(2) h grants_of_pop_other[OF Cons]]
    show ?thesis
      using rel same by (cases d) (simp_all add: unwind_step_def inv_grants_def Cons)
  qed
qed

lemma step_keeps_grants:
  assumes h: "sv_handlers s c = Some h" and n: "hd_pc h \<notin> {PcAlloc4, PcAlloc6, PcUnwind}"
  shows "\<exists>h'. sv_handlers (handler_step cfg s c h e) = (sv_handlers s)(c \<mapsto> h') \<and>
    grants_of rel4 h' = grants_of rel4 h \<and> grants_of rel6 h' = grants_of rel6 h \<and>
    sv_pool (handler_step cfg s c h e) = sv_pool s \<and> sv_poolV6 (handler_step cfg s c h e) = sv_poolV6 s"
proof -
  have keep: "\<exists>h'. sv_handlers s = (sv_handlers s)(c \<mapsto> h') \<and>
    grants_of rel4 h' = grants_of rel4 h \<and> grants_of rel6 h' = grants_of rel6 h"
    using h by (intro exI[of _ h]) (simp add: map_upd_triv)
  show ?thesis
    using n by (cases "hd_pc h") (auto simp: handler_step_def step_defs grants_of_push intro: keep
        split: option.splits prod.splits env.splits bool.splits)
qed

lemma inv_grants_step:
  assumes i: "inv_grants s" and h: "sv_handlers s c = Some h"
  shows "inv_grants (handler_step cfg s c h e)"
proof (cases "hd_pc h \<in> {PcAlloc4, PcAlloc6, PcUnwind}")
  case True
  then consider "hd_pc h = PcAlloc4" | "hd_pc h = PcAlloc6" | "hd_pc h = PcUnwind" by blast
  then show ?thesis
    by cases (simp_all add: handler_step_def inv_grants_alloc4[OF i h] inv_grants_alloc6[OF i h] inv_grants_unwind[OF i h])
next
  case False
  from step_keeps_grants[OF h False, of cfg e] obtain h' where
    "sv_handlers (handler_step cfg s c h e) = (sv_handlers s)(c \<mapsto> h')"
    "grants_of rel4 h' = grants_of rel4 h" "grants_of rel6 h' = grants_of rel6 h"
    "sv_pool (handler_step cfg s c h e) = sv_pool s" "sv_poolV6 (handler_step cfg s c h e) = sv_poolV6 s" by blast
  then show ?thesis by (intro inv_grants_keep[OF i h, of "handler_step cfg s c h e" h'])
qed

lemma inv_grants_run:
  assumes "inv_grants s" "inv_names cfg s"
  shows "inv_grants (sv_run cfg s evs)"
  using assms
proof (induction rule: sv_run_invariant_names)
  case (request s rq)
  have fresh: "sv_handlers s (sv_next s) = None"
    using request(2) by (cases "sv_handlers s (sv_next s)") (auto simp: inv_names_def)
  show ?case
  proof (cases rule: vpn_request_cases[of cfg s rq])
    case opened
    have b: "pool_backed rel4 (sv_pool s) (sv_handlers s)" "pool_backed rel6 (sv_poolV6 s) (sv_handlers s)"
      using request(1) by (simp_all add: inv_grants_def)
    note f = pool_backed_fresh[where hs = "sv_handlers s" and c = "sv_next s", OF _ fresh]
    show ?thesis
      unfolding opened(2) by (simp add: inv_grants_def f[OF b(1)] f[OF b(2)])
  qed (use request in simp)
next
  case (step s c h e)
  then show ?case by (intro inv_grants_step)
qed (simp add: inv_grants_def)

section \<open>A server that has started\<close>

lemma open_pool_Inr:
  assumes "open_pool ea ep cidr tunAddr = Inr po" "po = Some p"
  shows "\<exists>srv. NewIPPool cidr srv = Inr p"
  using assms by (auto simp: open_pool_def split: if_splits option.splits sum.splits)

lemma run_server_Inr:
  assumes "run_server env cfg = Inr s"
  shows "sv_handlers s = Map.empty" "sv_router s = NewRouter" "si_byCN (sv_live s) = Map.empty"
    "sv_pool s = Some p \<Longrightarrow> \<exists>srv. NewIPPool (sc_poolCIDR cfg) srv = Inr p"
    "sv_poolV6 s = Some p \<Longrightarrow> \<exists>srv. NewIPPool (sc_poolCIDRV6 cfg) srv = Inr p"
  using assms open_pool_Inr by (auto simp: run_server_def res_bind_def split: sum.splits)

lemma run_server_inv:
  assumes "run_server env cfg = Inr s"
  shows "inv_names cfg s" "inv_router s" "inv_sessions s" "inv_grants s"
proof -
  note r = run_server_Inr[OF assms]
  show "inv_names cfg s" by (simp add: inv_names_def r)
  show "inv_router s" by (simp add: inv_router_def r NewRouter_def Router_lookup_def)
  show "inv_sessions s" by (simp add: inv_sessions_def inv_live_def inv_shape_def r)
  have "ip.backed p {}" if "NewIPPool cidr srv = Inr p" for cidr srv p
    using NewIPPool_inv[OF that] NewIPPool_empty(2)[OF that]
    by (intro ip.backed_fresh) (simp_all add: used_set_def)
  then have "sv_pool s = Some p \<Longrightarrow> ip.backed p {}" "sv_poolV6 s = Some p \<Longrightarrow> ip.backed p {}" for p
    using r(4,5)[of p] by blast+
  then show "inv_grants s" by (simp add: inv_grants_def pool_backed_def r(1))
qed

lemma reachable_inv:
  assumes "run_server env cfg = Inr s0"
  shows "inv_names cfg (sv_run cfg s0 evs)" "inv_router (sv_run cfg s0 evs)"
    "inv_sessions (sv_run cfg s0 evs)" "inv_grants (sv_run cfg s0 evs)"
  using run_server_inv[OF assms] by (simp_all add: inv_names_run inv_router_run inv_sessions_run inv_grants_run)

end
