(* ===== verification/ServerSpec.thy ===== *)
theory ServerSpec
  imports ServerGrants
begin

text \<open>
  What the server guarantees, over every interleaving of requests, sessions and tunnel
  packets from the state \<open>run\<close> starts with, and a run that shows where it falls short.
\<close>

section \<open>A concrete server\<close>

definition demo_env :: setup_env where
  "demo_env = \<lparr>se_createTUN = \<lambda>name mtu. Some name, se_exec = \<lambda>_. True, se_resolveUDP = \<lambda>_. True,
     se_listenUDP = True, se_keyPair = \<lambda>_ _. True, se_readFile = \<lambda>_. Some ''pem'',
     se_appendCerts = \<lambda>_. True, se_quicListen = True\<rparr>"

definition demo_cfg :: server_config where
  "demo_cfg = \<lparr>sc_bind = ''0.0.0.0:4433'', sc_certFile = ''c'', sc_keyFile = ''k'', sc_serverName = ''s'',
     sc_clientCA = ''ca'', sc_tunName = ''masque0'', sc_tunAddr = ''10.8.0.1/29'', sc_tunAddrV6 = [],
     sc_mtu = 1369, sc_poolCIDR = ''10.8.0.0/29'', sc_poolCIDRV6 = [], sc_assign = no_prefix,
     sc_route = prefix_from (Addr4 0) 0, sc_routeV6 = no_prefix, sc_blocked = {''lost''}\<rparr>"

definition demo_server :: server where
  "demo_server = (case run_server demo_env demo_cfg of Inr s \<Rightarrow> s | Inl _ \<Rightarrow> undefined)"

lemma demo_server: "run_server demo_env demo_cfg = Inr demo_server"
proof -
  have "is_ok (run_server demo_env demo_cfg)" by code_simp
  then show ?thesis by (auto simp: demo_server_def is_ok_iff)
qed

definition connect :: "string \<Rightarrow> conn_id \<Rightarrow> sv_event list" where
  "connect cn c = EvRequest \<lparr>rq_parse = ParseOk, rq_peerCN = Some cn, rq_proxy_ok = True\<rparr> #
     replicate 7 (EvStep c EnvOk)"

definition leave :: "conn_id \<Rightarrow> sv_event list" where
  "leave c = replicate 5 (EvStep c EnvErr)"

section \<open>Nothing is leaked\<close>

text \<open>
  C2. When every session has ended, the server is clean: no address is routed, no name is live,
  and both pools hold no address, whatever happened before, reconnects under the same name and
  failed allocations included.
\<close>

theorem server_no_leak:
  assumes "run_server env cfg = Inr s0" and "s = sv_run cfg s0 evs" and "sv_handlers s = Map.empty"
  shows "Router_lookup (sv_router s) a = None \<and> si_byCN (sv_live s) cn = None \<and>
    (\<forall>p. sv_pool s = Some p \<or> sv_poolV6 s = Some p \<longrightarrow> used_set p = {})"
proof -
  note i = reachable_inv[OF assms(1), of evs, folded assms(2)]
  have "Router_lookup (sv_router s) a = None"
    using i(2) assms(3) by (cases "Router_lookup (sv_router s) a") (auto simp: inv_router_def)
  moreover have "si_byCN (sv_live s) cn = None"
    using i(3) assms(3) inv_live_holder[of s cn]
    by (cases "si_byCN (sv_live s) cn") (auto simp: inv_sessions_def)
  moreover have "used_set p = {}" if "sv_pool s = Some p \<or> sv_poolV6 s = Some p" for p
  proof -
    from i(4) assms(3) that have "ip.backed p {}" by (auto simp: inv_grants_def pool_backed_def)
    then show ?thesis by (rule ip.backed_empty)
  qed
  ultimately show ?thesis by blast
qed

theorem server_no_leak_witness:
  "Router_lookup (sv_router (sv_run demo_cfg demo_server (connect ''a'' 0 @ leave 0))) (Addr4 0x0a080006) = None"
proof -
  let ?s = "sv_run demo_cfg demo_server (connect ''a'' 0 @ leave 0)"
  have "inv_names demo_cfg ?s" using demo_server by (rule reachable_inv(1))
  moreover have "sv_next ?s = 1" "sv_handlers ?s 0 = None" by code_simp+
  ultimately have "sv_handlers ?s = Map.empty"
    unfolding inv_names_def by (metis (no_types, lifting) less_one option.exhaust ext)
  from server_no_leak[OF demo_server refl this] show ?thesis by blast
qed

section \<open>Packets reach their owner\<close>

text \<open>
  C3. A packet the router delivers goes unchanged to a live session whose client was told, in
  the address assignment, that the packet's destination is its own.
\<close>

theorem delivery_to_assignee:
  assumes "run_server env cfg = Inr s0" and "s = sv_run cfg s0 evs"
    and "Router_deliver (sv_router s) pkt = Some (c, out)"
  shows "out = pkt \<and> (\<exists>h a xs. sv_handlers s c = Some h \<and> dstIP pkt = Some a \<and>
           sv_assigned s c = Some xs \<and> a \<in> px_addr ` set xs)"
proof -
  note i = reachable_inv[OF assms(1), of evs, folded assms(2)]
  from assms(3) obtain a where a: "dstIP pkt = Some a" "Router_lookup (sv_router s) a = Some c" "out = pkt"
    by (auto simp: Router_deliver_def split: option.splits)
  with i(2) obtain h where h: "sv_handlers s c = Some h" "DRemove a \<in> set (hd_defers h)"
    unfolding inv_router_def by blast
  with i(3) have "wf_handler (sv_assigned s c) h" by (simp add: inv_sessions_def inv_shape_def)
  with h(2) have "sv_assigned s c = Some (assigned_of h)" "a \<in> px_addr ` set (assigned_of h)"
    unfolding wf_handler_def by blast+
  with a h show ?thesis by blast
qed

definition pkt_to :: "byte list \<Rightarrow> bytes" where
  "pkt_to a = [0x45] @ replicate 15 0 @ a"

theorem delivery_to_assignee_witness:
  "\<exists>xs. sv_assigned (sv_run demo_cfg demo_server (connect ''a'' 0)) 0 = Some xs \<and>
        Addr4 0x0a080006 \<in> px_addr ` set xs"
proof -
  have "Router_deliver (sv_router (sv_run demo_cfg demo_server (connect ''a'' 0))) (pkt_to [10, 8, 0, 6]) =
      Some (0, pkt_to [10, 8, 0, 6])" by code_simp
  from delivery_to_assignee[OF demo_server refl this]
  have "\<exists>a xs. dstIP (pkt_to [10, 8, 0, 6]) = Some a \<and>
    sv_assigned (sv_run demo_cfg demo_server (connect ''a'' 0)) 0 = Some xs \<and> a \<in> px_addr ` set xs" by blast
  moreover have "dstIP (pkt_to [10, 8, 0, 6]) = Some (Addr4 0x0a080006)" by code_simp
  ultimately show ?thesis by auto
qed

section \<open>One session per name, and the denylist\<close>

text \<open>
  C7. At most one session per certificate name is left open: of two sessions that have claimed
  the same name, the connection of at least one has been closed.
\<close>

theorem one_open_session_per_name:
  assumes "run_server env cfg = Inr s0" and "s = sv_run cfg s0 evs"
    and "sv_handlers s c = Some h" and "sv_handlers s d = Some k" and "c \<noteq> d"
    and "hd_cn h = hd_cn k" and "hd_cn h \<noteq> []"
    and "DDrop \<in> set (hd_defers h)" and "DDrop \<in> set (hd_defers k)"
  shows "c \<in> sv_closed s \<or> d \<in> sv_closed s"
proof (rule ccontr)
  assume n: "\<not> (c \<in> sv_closed s \<or> d \<in> sv_closed s)"
  have i: "inv_live s"
    using reachable_inv(3)[OF assms(1), of evs, folded assms(2)] by (simp add: inv_sessions_def)
  have "si_byCN (sv_live s) (hd_cn h) = Some c"
    using n by (intro inv_live_open[OF i assms(3,8,7)]) blast
  moreover have "si_byCN (sv_live s) (hd_cn k) = Some d"
    using n assms(6,7) by (intro inv_live_open[OF i assms(4,9)]) simp_all
  ultimately show False using assms(5,6) by simp
qed

theorem one_open_session_per_name_witness:
  "0 \<in> sv_closed (sv_run demo_cfg demo_server (connect ''a'' 0 @ connect ''a'' 1)) \<or>
   1 \<in> sv_closed (sv_run demo_cfg demo_server (connect ''a'' 0 @ connect ''a'' 1))"
proof -
  let ?s = "sv_run demo_cfg demo_server (connect ''a'' 0 @ connect ''a'' 1)"
  have "sv_handlers ?s 0 \<noteq> None" "sv_handlers ?s 1 \<noteq> None" by code_simp+
  then obtain h k where h: "sv_handlers ?s 0 = Some h" "sv_handlers ?s 1 = Some k" by blast
  have "map_option hd_cn (sv_handlers ?s 0) = Some ''a''" "map_option hd_cn (sv_handlers ?s 1) = Some ''a''"
    "map_option (\<lambda>h. DDrop \<in> set (hd_defers h)) (sv_handlers ?s 0) = Some True"
    "map_option (\<lambda>h. DDrop \<in> set (hd_defers h)) (sv_handlers ?s 1) = Some True" by code_simp+
  with h one_open_session_per_name[OF demo_server refl h] show ?thesis by simp
qed

text \<open>
  C17. A client on the denylist is refused before anything is done for it: the request is
  answered with an error status and changes no state, and no session ever carries its name.
\<close>

theorem denied_client_gets_nothing:
  assumes "run_server env cfg = Inr s0" and "s = sv_run cfg s0 evs"
    and "cn \<noteq> []" and "cn \<in> sc_blocked cfg" and "rq_peerCN rq = Some cn"
  shows "fst (vpn_request cfg s rq) = s \<and> snd (vpn_request cfg s rq) \<noteq> None \<and>
    (rq_parse rq = ParseOk \<longrightarrow> snd (vpn_request cfg s rq) = Some 403) \<and>
    (\<forall>c h. sv_handlers s c = Some h \<longrightarrow> hd_cn h \<noteq> cn)"
proof -
  have "\<forall>c h. sv_handlers s c = Some h \<longrightarrow> hd_cn h \<noteq> cn"
    using reachable_inv(1)[OF assms(1), of evs, folded assms(2)] assms(3,4) by (auto simp: inv_names_def)
  with assms(3-5) show ?thesis
    by (auto simp: vpn_request_def request_cn_def Let_def split: parse_outcome.splits)
qed

theorem denied_client_gets_nothing_witness:
  "snd (vpn_request demo_cfg (sv_run demo_cfg demo_server []) \<lparr>rq_parse = ParseOk, rq_peerCN = Some ''lost'', rq_proxy_ok = True\<rparr>) = Some 403"
proof -
  have "''lost'' \<in> sc_blocked demo_cfg" by (simp add: demo_cfg_def)
  from denied_client_gets_nothing[OF demo_server refl _ this, of "\<lparr>rq_parse = ParseOk, rq_peerCN = Some ''lost'', rq_proxy_ok = True\<rparr>" "[]"]
  show ?thesis by simp
qed

section \<open>Cleaning up ends\<close>

definition own_steps :: "conn_id \<Rightarrow> sv_event list \<Rightarrow> nat" where
  "own_steps c evs = length (filter (\<lambda>ev. case ev of EvStep d _ \<Rightarrow> d = c | _ \<Rightarrow> False) evs)"

lemma sv_step_other:
  assumes "c < sv_next s" and "\<And>e. ev \<noteq> EvStep c e"
  shows "sv_handlers (sv_step cfg s ev) c = sv_handlers s c"
proof (cases ev)
  case (EvRequest rq)
  with assms(1) show ?thesis by (cases rule: vpn_request_cases[of cfg s rq]) simp_all
next
  case (EvStep d e)
  with assms(2) handler_step_other[of s d _ c cfg e] show ?thesis by (auto split: option.splits)
qed simp

lemma sv_step_unwind:
  assumes "sv_handlers s c = Some h" "hd_pc h = PcUnwind"
  shows "(hd_defers h = [] \<and> sv_handlers (sv_step cfg s (EvStep c e)) c = None) \<or>
    (\<exists>d ds. hd_defers h = d # ds \<and> sv_handlers (sv_step cfg s (EvStep c e)) c = Some (h\<lparr>hd_defers := ds\<rparr>))"
  using assms by (cases "hd_defers h") (auto simp: handler_step_def unwind_step_def Let_def split: deferred.splits)

lemma sv_step_next: "sv_next s \<le> sv_next (sv_step cfg s ev)"
  by (cases ev) (auto simp: vpn_request_def Let_def split: option.splits parse_outcome.splits)

lemma sv_step_gone: "c < sv_next s \<Longrightarrow> sv_handlers s c = None \<Longrightarrow> sv_handlers (sv_step cfg s ev) c = None"
  by (cases "\<exists>e. ev = EvStep c e") (auto simp: sv_step_other)

lemma sv_run_Cons: "sv_run cfg s (ev # evs) = sv_run cfg (sv_step cfg s ev) evs"
  by (simp add: sv_run_def)

lemma sv_run_gone: "c < sv_next s \<Longrightarrow> sv_handlers s c = None \<Longrightarrow> sv_handlers (sv_run cfg s evs) c = None"
proof (induction evs arbitrary: s)
  case (Cons ev evs)
  with sv_step_next[of s cfg ev] sv_step_gone[of c s cfg ev] show ?case by (simp add: sv_run_Cons)
qed (simp add: sv_run_def)

lemma unwind_ends:
  "c < sv_next s \<Longrightarrow> sv_handlers s c = Some h \<Longrightarrow> hd_pc h = PcUnwind \<Longrightarrow>
   length (hd_defers h) < own_steps c evs \<Longrightarrow> sv_handlers (sv_run cfg s evs) c = None"
proof (induction evs arbitrary: s h)
  case Nil
  then show ?case by (simp add: own_steps_def)
next
  case (Cons ev evs)
  have n: "c < sv_next (sv_step cfg s ev)" using Cons.prems(1) sv_step_next[of s cfg ev] by simp
  show ?case
  proof (cases "\<exists>e. ev = EvStep c e")
    case True
    then obtain e where ev: "ev = EvStep c e" by blast
    from sv_step_unwind[OF Cons.prems(2,3), of cfg e] show ?thesis
    proof (elim disjE exE conjE)
      assume "sv_handlers (sv_step cfg s (EvStep c e)) c = None"
      with sv_run_gone[OF n] ev show ?thesis by (simp add: sv_run_Cons)
    next
      fix d ds assume d: "hd_defers h = d # ds" "sv_handlers (sv_step cfg s (EvStep c e)) c = Some (h\<lparr>hd_defers := ds\<rparr>)"
      with Cons.IH[OF n] Cons.prems(3,4) ev show ?thesis by (simp add: sv_run_Cons own_steps_def)
    qed
  next
    case False
    then have "own_steps c (ev # evs) = own_steps c evs" by (auto simp: own_steps_def split: sv_event.splits)
    with Cons.IH[OF n] Cons.prems sv_step_other[of c s ev cfg] False show ?thesis by (simp add: sv_run_Cons)
  qed
qed



section \<open>Cross-delivery after a reconnect\<close>


section \<open>The advertised routes\<close>

text \<open>
  The advertised IPv4 route covers exactly the addresses of the configured prefix, when the
  prefix is given by its network address; a route given by an inner address starts there and
  misses the addresses below it.
\<close>

theorem advertised_route_exact:
  assumes "prefix_wf r" and "prefix_is_valid r" and "px_addr r = Addr4 w" and "\<not> prefix_is_valid r6"
  shows "\<exists>e. routes_of r r6 = Some [\<lparr>ir_StartIP = Addr4 w, ir_EndIP = e, ir_IPProtocol = 0\<rparr>] \<and>
    (\<forall>v. Addr4 w \<le> Addr4 v \<and> Addr4 v \<le> e \<longleftrightarrow> prefix_contains r (Addr4 v) \<and> w \<le> v)"
proof -
  let ?e = "w OR host_mask 32 (px_bits r)"
  have l: "lastIPOfPrefix r = Some (Addr4 ?e)"
    using assms(1-3) by (intro lastIP_Addr4) (auto simp: prefix_wf_def prefix_is_valid_def)
  have "w \<le> v \<and> v \<le> ?e \<longleftrightarrow> prefix_contains r (Addr4 v) \<and> w \<le> v" for v
    using assms(2,3)
    by (auto simp: prefix_contains.simps host_mask_def simp del: drop_bit_xor intro: between_same_high same_high_le)
  with l assms(3,4) show ?thesis by (auto simp: routes_of_def Let_def)
qed

theorem advertised_route_exact_witness:
  "routes_of (prefix_from (Addr4 0x0a080005) 24) no_prefix =
     Some [\<lparr>ir_StartIP = Addr4 0x0a080005, ir_EndIP = Addr4 0x0a0800ff, ir_IPProtocol = 0\<rparr>]"
proof -
  have "\<exists>e. routes_of (prefix_from (Addr4 0x0a080005) 24) no_prefix =
      Some [\<lparr>ir_StartIP = Addr4 0x0a080005, ir_EndIP = e, ir_IPProtocol = 0\<rparr>]"
    using advertised_route_exact[of "prefix_from (Addr4 0x0a080005) 24" "0x0a080005" no_prefix]
    by (auto simp: prefix_wf_def prefix_is_valid_def prefix_from_def no_prefix_def)
  moreover have "map_option (map ir_EndIP) (routes_of (prefix_from (Addr4 0x0a080005) 24) no_prefix) =
      Some [Addr4 0x0a0800ff]" by code_simp
  ultimately show ?thesis by auto
qed

end
