(* ===== verification/Profile.thy ===== *)
theory Profile
  imports NetParse
begin

text \<open>
  The client's server profile (\<open>internal/clientcore/profile.go\<close>): the record, its
  validation with defaults, and loading. The TOML decoder is a parameter.
\<close>

section \<open>The profile\<close>

record profile =
  pf_Server :: string
  pf_ServerName :: string
  pf_AltPort :: int
  pf_CA :: string
  pf_Cert :: string
  pf_Key :: string
  pf_Insecure :: bool
  pf_TUNName :: string
  pf_MTU :: int
  pf_DNS :: "string list"
  pf_BindInterface :: string

datatype profile_error =
  ProfDecode | ProfUnknownKeys | ProfServerRequired | ProfServerPort | ProfNameRequired
| ProfAltRange | ProfAltSame | ProfMTU | ProfDNS

text \<open>\<open>hasPort\<close> walks from the end to the last colon.\<close>

definition hasPort :: "string \<Rightarrow> bool" where
  "hasPort s =
     (case last_index (CHR '':'') s of
        Some i \<Rightarrow> i < length s - 1
      | None \<Rightarrow> False)"

definition validateAltPort :: "string \<Rightarrow> int \<Rightarrow> profile_error option" where
  "validateAltPort server alt =
     (if alt = 0 then None
      else if alt < 1 \<or> 65535 < alt then Some ProfAltRange
      else case split_host_port server of
             Some (_, p) \<Rightarrow>
               (case atoi p of
                  Some n \<Rightarrow> if n = alt then Some ProfAltSame else None
                | None \<Rightarrow> None)
           | None \<Rightarrow> None)"

definition default_mtu :: int where
  "default_mtu = 1369"

text \<open>\<open>Validate\<close> writes the defaults into the profile: the result is the profile it leaves.\<close>

definition Validate :: "profile \<Rightarrow> profile_error + profile" where
  "Validate p =
     (if pf_Server p = [] then Inl ProfServerRequired
      else if parse_addr_port (pf_Server p) = None \<and> \<not> hasPort (pf_Server p) then Inl ProfServerPort
      else if pf_ServerName p = [] then Inl ProfNameRequired
      else case validateAltPort (pf_Server p) (pf_AltPort p) of
             Some e \<Rightarrow> Inl e
           | None \<Rightarrow>
               let p = (if pf_MTU p = 0 then p\<lparr>pf_MTU := default_mtu\<rparr> else p)
               in if pf_MTU p < 576 \<or> 9000 < pf_MTU p then Inl ProfMTU
                  else
                    let p = (if pf_TUNName p = [] then p\<lparr>pf_TUNName := ''masque0''\<rparr> else p);
                        p = (if pf_DNS p = [] then p\<lparr>pf_DNS := [''1.1.1.1'']\<rparr> else p)
                    in if list_ex (\<lambda>d. parse_addr d = None) (pf_DNS p) then Inl ProfDNS else Inr p)"

text \<open>The decoded TOML sections.\<close>

record toml_profile =
  tp_server :: string
  tp_server_name :: string
  tp_alt_port :: int
  tp_ca :: string
  tp_cert :: string
  tp_key :: string
  tp_insecure :: bool
  tp_tun_name :: string
  tp_mtu :: int
  tp_dns :: "string list"

definition profile_of_toml :: "toml_profile \<Rightarrow> profile" where
  "profile_of_toml tp =
     \<lparr>pf_Server = tp_server tp, pf_ServerName = tp_server_name tp, pf_AltPort = tp_alt_port tp,
      pf_CA = tp_ca tp, pf_Cert = tp_cert tp, pf_Key = tp_key tp, pf_Insecure = tp_insecure tp,
      pf_TUNName = tp_tun_name tp, pf_MTU = tp_mtu tp, pf_DNS = tp_dns tp, pf_BindInterface = []\<rparr>"

definition LoadProfile :: "(string \<Rightarrow> (string list \<times> toml_profile) option) \<Rightarrow> string \<Rightarrow> profile_error + profile" where
  "LoadProfile decode path =
     (case decode path of
        None \<Rightarrow> Inl ProfDecode
      | Some (undec, tp) \<Rightarrow>
          if 0 < length undec then Inl ProfUnknownKeys else Validate (profile_of_toml tp))"

section \<open>Properties\<close>

lemma hasPort_iff: "hasPort s \<longleftrightarrow> (\<exists>a b. s = a @ CHR '':'' # b \<and> b \<noteq> [] \<and> CHR '':'' \<notin> set b)"
proof
  assume "hasPort s"
  then obtain i where i: "last_index (CHR '':'') s = Some i" "i < length s - 1"
    by (auto simp: hasPort_def split: option.splits)
  from last_index_Some[OF i(1)] have "s ! i = CHR '':''" "CHR '':'' \<notin> set (drop (Suc i) s)" "i < length s" by auto
  with i(2) have "s = take i s @ CHR '':'' # drop (Suc i) s \<and> drop (Suc i) s \<noteq> [] \<and> CHR '':'' \<notin> set (drop (Suc i) s)"
    using id_take_nth_drop[of i s] by auto
  then show "\<exists>a b. s = a @ CHR '':'' # b \<and> b \<noteq> [] \<and> CHR '':'' \<notin> set b" by blast
next
  assume "\<exists>a b. s = a @ CHR '':'' # b \<and> b \<noteq> [] \<and> CHR '':'' \<notin> set b"
  then obtain a b where s: "s = a @ CHR '':'' # b" "b \<noteq> []" "CHR '':'' \<notin> set b" by blast
  then have "last_index (CHR '':'') b = None" by (simp add: last_index_None)
  with s show "hasPort s" by (auto simp: hasPort_def last_index_append)
qed

text \<open>What a valid profile is.\<close>

definition profile_ok :: "profile \<Rightarrow> bool" where
  "profile_ok p \<longleftrightarrow>
     pf_Server p \<noteq> [] \<and> (parse_addr_port (pf_Server p) \<noteq> None \<or> hasPort (pf_Server p)) \<and> pf_ServerName p \<noteq> [] \<and>
     validateAltPort (pf_Server p) (pf_AltPort p) = None \<and>
     (pf_MTU p = 0 \<or> 576 \<le> pf_MTU p \<and> pf_MTU p \<le> 9000) \<and> list_all (\<lambda>d. parse_addr d \<noteq> None) (pf_DNS p)"

definition profile_defaults :: "profile \<Rightarrow> profile" where
  "profile_defaults p =
     p\<lparr>pf_MTU := if pf_MTU p = 0 then default_mtu else pf_MTU p,
       pf_TUNName := if pf_TUNName p = [] then ''masque0'' else pf_TUNName p,
       pf_DNS := if pf_DNS p = [] then [''1.1.1.1''] else pf_DNS p\<rparr>"

lemma default_dns_parses: "parse_addr ''1.1.1.1'' \<noteq> None"
  by code_simp

lemma list_ex_None: "list_ex (\<lambda>d. f d = None) xs \<longleftrightarrow> \<not> list_all (\<lambda>d. f d \<noteq> None) xs"
  by (induction xs) auto

lemma Validate_ok: "profile_ok p \<Longrightarrow> Validate p = Inr (profile_defaults p)"
  using default_dns_parses
  by (cases p) (auto simp: Validate_def profile_ok_def profile_defaults_def default_mtu_def Let_def list_ex_None)

lemma Validate_fails: "\<not> profile_ok p \<Longrightarrow> \<exists>e. Validate p = Inl e"
  using default_dns_parses
  by (cases "validateAltPort (pf_Server p) (pf_AltPort p)")
     (auto simp: Validate_def profile_ok_def default_mtu_def Let_def list_ex_None)

lemma profile_defaults_ok: "profile_ok p \<Longrightarrow> profile_ok (profile_defaults p)"
  using default_dns_parses by (auto simp: profile_ok_def profile_defaults_def default_mtu_def)

lemma profile_defaults_idem: "profile_defaults (profile_defaults p) = profile_defaults p"
  by (simp add: profile_defaults_def default_mtu_def)

lemma validateAltPort_None:
  "validateAltPort server alt = None \<Longrightarrow> alt \<noteq> 0 \<Longrightarrow>
     1 \<le> alt \<and> alt \<le> 65535 \<and> (\<forall>h p. split_host_port server = Some (h, p) \<longrightarrow> atoi p \<noteq> Some alt)"
  by (auto simp: validateAltPort_def split: if_splits option.splits)

text \<open>
  Validation accepts exactly the usable profiles and leaves every field usable: an MTU in
  576..9000, a TUN name, DNS servers that all parse, an alternate port in range and different
  from the server's own; it only fills defaults, and a validated profile validates again
  unchanged.
\<close>

theorem Validate_spec:
  "case Validate p of
     Inl _ \<Rightarrow> \<not> profile_ok p
   | Inr q \<Rightarrow> profile_ok p \<and> q = profile_defaults p \<and> Validate q = Inr q \<and>
       576 \<le> pf_MTU q \<and> pf_MTU q \<le> 9000 \<and> pf_TUNName q \<noteq> [] \<and> pf_DNS q \<noteq> [] \<and>
       (\<forall>d \<in> set (pf_DNS q). parse_addr d \<noteq> None) \<and> 0 \<le> pf_AltPort q \<and> pf_AltPort q \<le> 65535 \<and>
       (pf_AltPort q = 0 \<or> (\<forall>h s. split_host_port (pf_Server q) = Some (h, s) \<longrightarrow> atoi s \<noteq> Some (pf_AltPort q)))"
proof (cases "profile_ok p")
  case True
  let ?q = "profile_defaults p"
  have q: "Validate p = Inr ?q" "Validate ?q = Inr ?q"
    using Validate_ok[OF True] Validate_ok[OF profile_defaults_ok[OF True]] profile_defaults_idem by simp_all
  have f: "576 \<le> pf_MTU ?q" "pf_MTU ?q \<le> 9000" "pf_TUNName ?q \<noteq> []" "pf_DNS ?q \<noteq> []"
    using True by (auto simp: profile_ok_def profile_defaults_def default_mtu_def)
  have d: "\<forall>d \<in> set (pf_DNS ?q). parse_addr d \<noteq> None"
    using profile_defaults_ok[OF True] by (simp add: profile_ok_def list_all_iff)
  have v: "validateAltPort (pf_Server ?q) (pf_AltPort ?q) = None"
    using profile_defaults_ok[OF True] by (simp add: profile_ok_def)
  from True q f d validateAltPort_None[OF v] show ?thesis by (cases "pf_AltPort ?q = 0") auto
next
  case False
  from Validate_fails[OF this] False show ?thesis by auto
qed

definition demo_profile :: profile where
  "demo_profile =
     \<lparr>pf_Server = ''vpn.example:https'', pf_ServerName = ''vpn.example'', pf_AltPort = 443, pf_CA = ''ca.pem'',
      pf_Cert = ''c.pem'', pf_Key = ''k.pem'', pf_Insecure = False, pf_TUNName = [], pf_MTU = 0, pf_DNS = [],
      pf_BindInterface = []\<rparr>"

theorem Validate_spec_witness:
  "\<exists>q. Validate demo_profile = Inr q \<and> Validate q = Inr q \<and> 576 \<le> pf_MTU q"
proof -
  have "is_ok (Validate demo_profile)" by code_simp
  then obtain q where "Validate demo_profile = Inr q" by (auto simp: is_ok_iff)
  with Validate_spec[of demo_profile] show ?thesis by auto
qed

end
