(* ===== verification/Checksum.thy ===== *)
theory Checksum
  imports Prelude
begin

text \<open>
  The Internet checksum of the client core (\<open>ipv4Checksum\<close> in
  \<open>internal/clientcore/iphdr.go\<close>, and \<open>putChecksum\<close>'s arithmetic): a 32-bit sum of
  16-bit words, folded by a loop, complemented. It is related to the sum of the words as a
  number, modulo 65535: that is what makes a filled-in checksum verify.
\<close>

section \<open>The code's sum and fold\<close>

fun sum16 :: "32 word \<Rightarrow> bytes \<Rightarrow> 32 word" where
  "sum16 s (a # b # r) = sum16 (s + (push_bit 8 (ucast a) OR ucast b)) r"
| "sum16 s [a] = s + push_bit 8 (ucast a)"
| "sum16 s [] = s"

lemma fold16_arith: "x = hi * 65536 + lo \<Longrightarrow> (hi + lo) mod 65535 = x mod (65535 :: nat)"
proof -
  assume "x = hi * 65536 + lo"
  then have "x = (hi + lo) + hi * 65535" by simp
  then show ?thesis by (metis mod_mult_self1)
qed

lemma unat_low16: "unat (s AND 0xffff) = unat s mod 65536" for s :: "32 word"
proof -
  have "s AND 0xffff = take_bit 16 s" by (simp add: take_bit_eq_mask mask_eq_exp_minus_1)
  then have "unat (s AND 0xffff) = take_bit 16 (unat s)" by (simp only: unsigned_take_bit_eq)
  then show ?thesis by (simp only: take_bit_eq_mod) simp
qed

lemma unat_high16: "unat (drop_bit 16 s) = unat s div 65536" for s :: "32 word"
proof -
  have "unat (drop_bit 16 s) = drop_bit 16 (unat s)" by (rule unat_drop_bit_eq)
  then show ?thesis by (simp only: drop_bit_eq_div[of 16 "unat s"]) simp
qed

lemma fold16_step:
  fixes s :: "32 word"
  shows "unat ((s AND 0xffff) + drop_bit 16 s) = unat s mod 65536 + unat s div 65536"
    "drop_bit 16 s \<noteq> 0 \<longleftrightarrow> 65536 \<le> unat s"
    "65536 \<le> unat s \<Longrightarrow> unat s mod 65536 + unat s div 65536 < unat s"
proof -
  have lt: "unat s < 2 ^ 32" using unsigned_less[of s, where ?'a = nat] by simp
  have "unat (s AND 0xffff) + unat (drop_bit 16 s) < 2 ^ 32"
    unfolding unat_low16 unat_high16 using lt by simp
  then show "unat ((s AND 0xffff) + drop_bit 16 s) = unat s mod 65536 + unat s div 65536"
    using unat_add_lem[of "s AND 0xffff" "drop_bit 16 s"] unat_low16[of s] unat_high16[of s] by simp
  have "drop_bit 16 s \<noteq> 0 \<longleftrightarrow> unat (drop_bit 16 s) \<noteq> 0" by (simp only: unat_eq_0)
  also have "\<dots> \<longleftrightarrow> 65536 \<le> unat s" unfolding unat_high16 by (simp add: div_eq_0_iff not_less)
  finally show "drop_bit 16 s \<noteq> 0 \<longleftrightarrow> 65536 \<le> unat s" .
  show "65536 \<le> unat s \<Longrightarrow> unat s mod 65536 + unat s div 65536 < unat s"
    using div_mult_mod_eq[of "unat s" 65536] by linarith
qed

function fold16 :: "32 word \<Rightarrow> 32 word" where
  "fold16 s = (if drop_bit 16 s \<noteq> 0 then fold16 ((s AND 0xffff) + drop_bit 16 s) else s)"
  by pat_completeness auto
termination
  by (relation "measure unat") (simp_all only: fold16_step wf_measure in_measure)

declare fold16.simps [simp del]

definition ipv4Checksum :: "bytes \<Rightarrow> 16 word" where
  "ipv4Checksum hdr = NOT (ucast (fold16 (sum16 0 hdr)))"

section \<open>The sum as a number\<close>

fun wsum :: "bytes \<Rightarrow> nat" where
  "wsum (a # b # r) = 256 * unat a + unat b + wsum r"
| "wsum [a] = 256 * unat a"
| "wsum [] = 0"

lemma wsum_append: "even (length xs) \<Longrightarrow> wsum (xs @ ys) = wsum xs + wsum ys"
  by (induction xs rule: wsum.induct) simp_all

lemma wsum_bound: "wsum h \<le> 65535 * ((length h + 1) div 2)"
proof (induction h rule: wsum.induct)
  case (1 a b r)
  with byte_less[of a] byte_less[of b] show ?case by simp
next
  case (2 a)
  with byte_less[of a] show ?case by simp
qed simp

lemma unat_ucast8: "unat (ucast b :: 32 word) = unat b" for b :: byte
  by (simp add: unsigned_ucast_eq take_bit_nat_eq_self byte_less order_less_trans[OF byte_less])

lemma unat_push8: "unat (push_bit 8 (ucast a) :: 32 word) = 256 * unat a" for a :: byte
  using byte_less[of a] by (simp add: push_bit_eq_mult unat_word_ariths unat_ucast8)

lemma unat_pair:
  "unat (push_bit 8 (ucast a) OR ucast b :: 32 word) = 256 * unat a + unat b" for a b :: byte
proof -
  have d: "push_bit 8 (ucast a) OR ucast b = push_bit 8 (ucast a) + (ucast b :: 32 word)"
    by (rule disjunctive_add[symmetric]) (auto simp: bit_push_bit_iff bit_unsigned_iff dest: bit_imp_le_length)
  show ?thesis
    unfolding d using byte_less[of a] byte_less[of b] by (simp only: unat_word_ariths unat_push8 unat_ucast8) simp
qed

lemma unat_sum16: "unat s + wsum h < 2 ^ 32 \<Longrightarrow> unat (sum16 s h) = unat s + wsum h"
proof (induction s h rule: sum16.induct)
  case (1 s a b r)
  have "unat (s + (push_bit 8 (ucast a) OR ucast b)) = unat s + (256 * unat a + unat b)"
    using 1(2) by (subst unat_add_lem[THEN iffD1]) (simp_all only: unat_pair wsum.simps, simp_all)
  with 1 show ?case by simp
next
  case (2 s a)
  then show ?case by (simp add: unat_add_lem[THEN iffD1] unat_push8)
qed simp

lemma fold16_props:
  "unat (fold16 s) < 65536 \<and> unat (fold16 s) mod 65535 = unat s mod 65535 \<and>
   (unat (fold16 s) = 0 \<longleftrightarrow> unat s = 0)"
proof (induction s rule: fold16.induct)
  case (1 s)
  show ?case
  proof (cases "drop_bit 16 s \<noteq> 0")
    case True
    have m: "(unat s mod 65536 + unat s div 65536) mod 65535 = unat s mod 65535"
      using fold16_arith[of "unat s" "unat s div 65536" "unat s mod 65536"] by (simp add: add.commute)
    have z: "unat s mod 65536 + unat s div 65536 = 0 \<longleftrightarrow> unat s = 0"
      by (metis add_is_0 div_0 mod_0 div_mult_mod_eq mult_0)
    from 1[OF True] show ?thesis
      unfolding fold16_step(1) m z by (subst (1 2 3) fold16.simps) (simp only: True if_True not_False_eq_True)
  next
    case False
    then have "fold16 s = s" by (simp add: fold16.simps)
    moreover have "unat s < 65536" using False fold16_step(2)[of s] by simp
    ultimately show ?thesis by simp
  qed
qed

section \<open>A filled-in checksum verifies\<close>

lemma unat_ipv4Checksum: "unat (ipv4Checksum h) = 65535 - unat (fold16 (sum16 0 h))"
proof -
  let ?f = "fold16 (sum16 0 h)"
  have u: "unat (ucast ?f :: 16 word) = unat ?f"
    using fold16_props[of "sum16 0 h"] by (simp add: unsigned_ucast_eq take_bit_nat_eq_self)
  have "NOT (ucast ?f :: 16 word) = - 1 - ucast ?f" by (simp add: not_eq_complement)
  then have "unat (NOT (ucast ?f :: 16 word)) = unat (- 1 :: 16 word) - unat (ucast ?f :: 16 word)"
    by (simp only:) (rule unat_sub, simp)
  moreover have "unat (- 1 :: 16 word) = 65535" by (simp add: unsigned_minus_1_eq_mask mask_eq_exp_minus_1)
  ultimately show ?thesis unfolding ipv4Checksum_def u by (simp only:)
qed

lemma bytes_of_16:
  "unat (ucast (drop_bit 8 c) :: byte) = unat c div 256" "unat (ucast (c AND 0xff) :: byte) = unat c mod 256"
  for c :: "16 word"
proof -
  have lt: "unat c < 65536" using unsigned_less[of c, where ?'a = nat] by simp
  have "unat (drop_bit 8 c) = drop_bit 8 (unat c)" by (rule unat_drop_bit_eq)
  then have d: "unat (drop_bit 8 c) = unat c div 256" by (simp only: drop_bit_eq_div[of 8 "unat c"]) simp
  show "unat (ucast (drop_bit 8 c) :: byte) = unat c div 256"
    using lt by (simp only: unsigned_ucast_eq d) (simp add: take_bit_nat_eq_self)
  have "c AND 0xff = take_bit 8 c" by (simp add: take_bit_eq_mask mask_eq_exp_minus_1)
  then have "unat (c AND 0xff) = take_bit 8 (unat c)" by (simp only: unsigned_take_bit_eq)
  then have m: "unat (c AND 0xff) = unat c mod 256" by (simp only: take_bit_eq_mod) simp
  show "unat (ucast (c AND 0xff) :: byte) = unat c mod 256"
    by (simp only: unsigned_ucast_eq m) (simp add: take_bit_nat_eq_self)
qed

lemma wsum_fill:
  assumes "even i" "i + 1 < length h" "h ! i = 0" "h ! (i + 1) = 0"
  shows "wsum (h[i := a, i + 1 := b]) = wsum h + 256 * unat a + unat b"
proof -
  have "take (Suc (Suc i)) h = take i h @ [0, 0]"
    using assms(2-4) by (simp add: take_Suc_conv_app_nth)
  then have h: "h = take i h @ [0, 0] @ drop (i + 2) h"
    using append_take_drop_id[of "Suc (Suc i)" h] by simp
  have l: "length (take i h) = i" using assms(2) by simp
  have "h[i := a, i + 1 := b] = (take i h @ [0, 0] @ drop (i + 2) h)[i := a, i + 1 := b]"
    using h by simp
  also have "\<dots> = take i h @ [a, b] @ drop (i + 2) h"
    using l by (simp add: list_update_append)
  finally have "wsum (h[i := a, i + 1 := b]) = wsum (take i h) + (256 * unat a + unat b + wsum (drop (i + 2) h))"
    using assms(1) l by (simp add: wsum_append)
  moreover have "wsum h = wsum (take i h) + wsum (drop (i + 2) h)"
    by (subst h) (use assms(1) l in \<open>simp add: wsum_append\<close>)
  ultimately show ?thesis by simp
qed

lemma top_residue: "x mod 65535 = 0 \<Longrightarrow> x < 65536 \<Longrightarrow> x \<noteq> 0 \<Longrightarrow> x = (65535 :: nat)"
  by (cases "x < 65535") auto

lemma unat_sum16_0: "length g \<le> 65536 \<Longrightarrow> unat (sum16 0 g) = wsum g"
proof -
  assume "length g \<le> 65536"
  then have "(length g + 1) div 2 \<le> 32768" by simp
  then have "wsum g \<le> 65535 * 32768" using wsum_bound[of g] by (meson mult_le_mono2 le_trans)
  then show ?thesis using unat_sum16[of 0 g] by simp
qed

text \<open>The checksum of a message is zero when its sum is a positive multiple of 65535.\<close>

lemma ipv4Checksum_zero_iff:
  assumes "length g \<le> 65536"
  shows "ipv4Checksum g = 0 \<longleftrightarrow> wsum g mod 65535 = 0 \<and> wsum g \<noteq> 0"
proof -
  let ?f = "unat (fold16 (sum16 0 g))"
  have f: "?f < 65536" "?f mod 65535 = wsum g mod 65535" "?f = 0 \<longleftrightarrow> wsum g = 0"
    using fold16_props[of "sum16 0 g"] unat_sum16_0[OF assms] by simp_all
  have "ipv4Checksum g = 0 \<longleftrightarrow> unat (ipv4Checksum g) = 0" by (simp only: unat_eq_0)
  also have "\<dots> \<longleftrightarrow> ?f = 65535" using f(1) by (auto simp: unat_ipv4Checksum)
  also have "\<dots> \<longleftrightarrow> wsum g mod 65535 = 0 \<and> wsum g \<noteq> 0"
  proof
    assume e: "?f = 65535"
    have "wsum g mod 65535 = 0" using f(2) unfolding e by simp
    moreover have "wsum g \<noteq> 0" using f(3) unfolding e by simp
    ultimately show "wsum g mod 65535 = 0 \<and> wsum g \<noteq> 0" by blast
  next
    assume "wsum g mod 65535 = 0 \<and> wsum g \<noteq> 0"
    with f show "?f = 65535" by (intro top_residue) simp_all
  qed
  finally show ?thesis .
qed

text \<open>
  Storing the complement of the folded sum in two zero bytes at an even position makes the
  checksum of the whole zero: the receiver accepts it.
\<close>

lemma checksum_fill_verifies:
  assumes i: "even i" "i + 1 < length h" "h ! i = 0" "h ! (i + 1) = 0"
    and len: "length h \<le> 65536" and pos: "0 < wsum h"
  defines "c \<equiv> ipv4Checksum h"
  shows "ipv4Checksum (h[i := ucast (drop_bit 8 c), i + 1 := ucast (c AND 0xff)]) = 0"
proof -
  let ?h = "h[i := ucast (drop_bit 8 c), i + 1 := ucast (c AND 0xff)]"
  let ?f = "unat (fold16 (sum16 0 h))"
  have f: "?f < 65536" "?f mod 65535 = wsum h mod 65535"
    using fold16_props[of "sum16 0 h"] unat_sum16_0[OF len] by simp_all
  have w: "wsum ?h = wsum h + unat c"
    using wsum_fill[OF i] bytes_of_16[of c] by simp
  have "(wsum h + unat c) mod 65535 = (?f + unat c) mod 65535" using f(2) by (metis mod_add_left_eq)
  also have "?f + unat c = 65535" using f(1) by (simp add: c_def unat_ipv4Checksum)
  finally have "wsum ?h mod 65535 = 0" using w by simp
  moreover have "wsum ?h \<noteq> 0" using w pos by simp
  ultimately show ?thesis using ipv4Checksum_zero_iff[of ?h] len by simp
qed

end
