(* ===== verification/IPHdr.thy ===== *)
theory IPHdr
  imports Checksum NetParse ServerAddr
begin

text \<open>
  The header processing of the client core (\<open>internal/clientcore/iphdr.go\<close> and
  \<open>assigned.go\<close>). A function that writes into the packet returns the packet it leaves;
  the locale \<open>header_rewriter\<close> states what every such function promises the pump.
\<close>

section \<open>The code\<close>

definition minTTL :: int where
  "minTTL = 2"

definition fixTTL :: int where
  "fixTTL = 64"

text \<open>The header length by IHL, 20 if it is out of range, and the recomputed checksum.\<close>

definition hdr_len :: "bytes \<Rightarrow> nat" where
  "hdr_len pkt =
     (let ihl = unat (pkt ! 0 AND 0x0f) * 4 in if ihl < 20 \<or> length pkt < ihl then 20 else ihl)"

definition fix_checksum :: "bytes \<Rightarrow> bytes" where
  "fix_checksum pkt =
     (let ihl = hdr_len pkt;
          pkt = pkt[10 := 0, 11 := 0];
          csum = ipv4Checksum (take ihl pkt)
      in pkt[10 := ucast (drop_bit 8 csum), 11 := ucast (csum AND 0xff)])"

text \<open>The packet, the original TTL, whether it was changed.\<close>

definition normalizeTTL :: "bytes \<Rightarrow> bytes \<times> int \<times> bool" where
  "normalizeTTL pkt =
     (if length pkt < 1 then (pkt, -1, False)
      else if drop_bit 4 (pkt ! 0) = 4 then
        (if length pkt < 20 then (pkt, -1, False)
         else let origTTL = uint (pkt ! 8)
              in if minTTL \<le> origTTL then (pkt, origTTL, False)
                 else (fix_checksum (pkt[8 := word_of_int fixTTL]), origTTL, True))
      else if drop_bit 4 (pkt ! 0) = 6 then
        (if length pkt < 40 then (pkt, -1, False)
         else let origTTL = uint (pkt ! 7)
              in if minTTL \<le> origTTL then (pkt, origTTL, False)
                 else (pkt[7 := word_of_int fixTTL], origTTL, True))
      else (pkt, -1, False))"

definition arrow :: string where
  "arrow = [CHR 0xE2, CHR 0x86, CHR 0x92]"

definition byte_str :: "byte \<Rightarrow> string" where
  "byte_str b = nat_str (unat b)"

definition describePkt :: "bytes \<Rightarrow> string" where
  "describePkt pkt =
     (if length pkt < 1 then ''empty''
      else if drop_bit 4 (pkt ! 0) = 4 then
        (if length pkt < 20 then ''short-ipv4''
         else
           let src = addr_from4 [pkt ! 12, pkt ! 13, pkt ! 14, pkt ! 15];
               dst = addr_from4 [pkt ! 16, pkt ! 17, pkt ! 18, pkt ! 19]
           in ''IPv4 '' @ addr_string src @ arrow @ addr_string dst @ '' proto='' @ byte_str (pkt ! 9) @
              '' ttl='' @ byte_str (pkt ! 8))
      else if drop_bit 4 (pkt ! 0) = 6 then
        (if length pkt < 40 then ''short-ipv6''
         else ''IPv6 '' @ addr_string (addr_from16 (slice 8 24 pkt)) @ arrow @
              addr_string (addr_from16 (slice 24 40 pkt)) @ '' next='' @ byte_str (pkt ! 6) @
              '' hlim='' @ byte_str (pkt ! 7))
      else ''unknown-version '' @ byte_str (drop_bit 4 (pkt ! 0)))"

fun splitAssigned_from :: "addr \<Rightarrow> addr \<Rightarrow> prefix list \<Rightarrow> addr \<times> addr" where
  "splitAssigned_from v4 v6 [] = (v4, v6)"
| "splitAssigned_from v4 v6 (p # ps) =
     (let a = px_addr p;
          v4 = (if addr_is4 a \<and> \<not> addr_is_valid v4 then a else v4);
          v6 = (if addr_is6 a \<and> \<not> addr_is4in6 a \<and> \<not> addr_is_valid v6 then a else v6)
      in splitAssigned_from v4 v6 ps)"

definition splitAssigned :: "prefix list \<Rightarrow> addr \<times> addr" where
  "splitAssigned ps = splitAssigned_from NoAddr NoAddr ps"

fun SplitAssigned_from :: "prefix \<Rightarrow> prefix \<Rightarrow> prefix list \<Rightarrow> prefix \<times> prefix" where
  "SplitAssigned_from v4 v6 [] = (v4, v6)"
| "SplitAssigned_from v4 v6 (p # ps) =
     (let a = px_addr p
      in if addr_is4 a \<and> \<not> prefix_is_valid v4 then SplitAssigned_from p v6 ps
         else if addr_is6 a \<and> \<not> addr_is4in6 a \<and> \<not> prefix_is_valid v6 then SplitAssigned_from v4 p ps
         else SplitAssigned_from v4 v6 ps)"

definition SplitAssigned :: "prefix list \<Rightarrow> prefix \<times> prefix" where
  "SplitAssigned ps = SplitAssigned_from no_prefix no_prefix ps"

text \<open>Go's \<open>copy\<close> into a slice of the packet.\<close>

definition put_bytes :: "nat \<Rightarrow> bytes \<Rightarrow> bytes \<Rightarrow> bytes" where
  "put_bytes i b pkt = take i pkt @ b @ drop (i + length b) pkt"

definition src4 :: "bytes \<Rightarrow> addr" where
  "src4 pkt = addr_from4 [pkt ! 12, pkt ! 13, pkt ! 14, pkt ! 15]"

definition src6 :: "bytes \<Rightarrow> addr" where
  "src6 pkt = addr_from16 (slice 8 24 pkt)"

text \<open>The packet, whether to drop it, whether it was rewritten.\<close>

definition prepareOutgoing :: "bytes \<Rightarrow> prefix list \<Rightarrow> bytes \<times> bool \<times> bool" where
  "prepareOutgoing pkt prefixes =
     (if length pkt < 1 then (pkt, True, False)
      else
        let (v4, v6) = splitAssigned prefixes
        in if drop_bit 4 (pkt ! 0) = 6 then
             (if length pkt < 40 \<or> \<not> addr_is_valid v6 then (pkt, True, False)
              else if src6 pkt = v6 then (pkt, False, False)
              else (put_bytes 8 (addr_as16 v6) pkt, False, True))
           else if drop_bit 4 (pkt ! 0) = 4 then
             (if length pkt < 20 \<or> \<not> addr_is_valid v4 then (pkt, True, False)
              else if src4 pkt = v4 then (pkt, False, False)
              else
                let b = addr_as4 v4
                in (fix_checksum (pkt[12 := b ! 0, 13 := b ! 1, 14 := b ! 2, 15 := b ! 3]), False, True))
           else (pkt, True, False))"

section \<open>What a header rewriter promises\<close>

locale header_rewriter =
  fixes rw :: "bytes \<Rightarrow> bytes"
    and touched :: "byte \<Rightarrow> nat set"
  assumes rw_length: "length (rw p) = length p"
    and rw_frame: "i \<notin> touched (ip_version p) \<Longrightarrow> i < length p \<Longrightarrow> rw p ! i = p ! i"
    and version_untouched: "0 \<notin> touched v"
begin

lemma rw_version: "ip_version (rw p) = ip_version p"
proof (cases p)
  case (Cons b p')
  with rw_length[of p] obtain c q where "rw p = c # q" by (cases "rw p") auto
  with rw_frame[of 0 p] version_untouched Cons show ?thesis by (simp add: ip_version_def)
next
  case Nil
  with rw_length[of p] show ?thesis by simp
qed

lemma rw_slice:
  assumes "j \<le> length p" "{i..<j} \<inter> touched (ip_version p) = {}"
  shows "slice i j (rw p) = slice i j p"
proof (rule nth_equalityI)
  fix k assume k: "k < length (slice i j (rw p))"
  then have "i + k \<in> {i..<j}" by (auto simp: slice_def rw_length)
  moreover from this have "i + k \<notin> touched (ip_version p)" using assms(2) by blast
  ultimately have "i + k < j" "i + k \<notin> touched (ip_version p)" by simp_all
  with assms(1) show "slice i j (rw p) ! k = slice i j p ! k"
    by (simp add: nth_slice rw_length rw_frame)
qed (simp add: slice_def rw_length)

lemma rw_payload:
  assumes "\<And>i. i \<in> touched (ip_version p) \<Longrightarrow> i < n"
  shows "drop n (rw p) = drop n p"
  using assms by (intro nth_equalityI) (auto simp: rw_length intro!: rw_frame)

end

text \<open>A rewriter that leaves the destination alone does not change where a packet goes.\<close>

locale dst_preserving = header_rewriter +
  assumes dst_untouched: "touched 4 \<inter> {16..<20} = {}" "touched 6 \<inter> {24..<40} = {}"
begin

lemma rw_dstIP: "dstIP (rw p) = dstIP p"
proof (cases "p = []")
  case False
  then have ne: "rw p \<noteq> []" using rw_length[of p] by auto
  have v: "drop_bit 4 (rw p ! 0) = drop_bit 4 (p ! 0)"
    using rw_version[of p] False ne by (simp add: ip_version_def hd_conv_nth)
  have "rw p ! i = p ! i" if "drop_bit 4 (p ! 0) = 4" "i \<in> {16..<20}" "20 \<le> length p" for i
    using that dst_untouched(1) False by (intro rw_frame) (auto simp: ip_version_def hd_conv_nth)
  moreover have "slice 24 40 (rw p) = slice 24 40 p" if "drop_bit 4 (p ! 0) = 6" "40 \<le> length p"
    using that dst_untouched(2) False by (intro rw_slice) (auto simp: ip_version_def hd_conv_nth)
  ultimately show ?thesis by (auto simp: dstIP_def rw_length v)
qed (use rw_length[of p] in simp)

end

section \<open>The code's rewriters\<close>

lemma length_fix_checksum [simp]: "length (fix_checksum p) = length p"
  by (simp add: fix_checksum_def Let_def)

lemma nth_fix_checksum: "i \<noteq> 10 \<Longrightarrow> i \<noteq> 11 \<Longrightarrow> fix_checksum p ! i = p ! i"
  by (simp add: fix_checksum_def Let_def)

lemma length_put_bytes [simp]: "i + length b \<le> length p \<Longrightarrow> length (put_bytes i b p) = length p"
  by (simp add: put_bytes_def)

lemma nth_put_bytes:
  "i + length b \<le> length p \<Longrightarrow> k < i \<or> i + length b \<le> k \<Longrightarrow> k < length p \<Longrightarrow> put_bytes i b p ! k = p ! k"
  by (auto simp: put_bytes_def nth_append)

lemma put_bytes_slice: "i + length b \<le> length p \<Longrightarrow> slice i (i + length b) (put_bytes i b p) = b"
  by (simp add: put_bytes_def slice_def)

lemma length_as16 [simp]: "length (addr_as16 a) = 16"
  by (cases a) simp_all

lemma length_as4 [simp]: "length (addr_as4 a) = 4"
  by (cases a) simp_all

lemma ip_version_nth: "p \<noteq> [] \<Longrightarrow> ip_version p = drop_bit 4 (p ! 0)"
  by (simp add: ip_version_def hd_conv_nth)

definition touched_ttl :: "byte \<Rightarrow> nat set" where
  "touched_ttl v = (if v = 4 then {8, 10, 11} else {7})"

definition touched_src :: "byte \<Rightarrow> nat set" where
  "touched_src v = (if v = 4 then {10, 11} \<union> {12..<16} else {8..<24})"

interpretation ttl: dst_preserving "\<lambda>p. fst (normalizeTTL p)" touched_ttl
proof
  show "length (fst (normalizeTTL p)) = length p" for p
    by (simp add: normalizeTTL_def Let_def)
  show "fst (normalizeTTL p) ! i = p ! i" if "i \<notin> touched_ttl (ip_version p)" "i < length p" for i p
    using that ip_version_nth[of p]
    by (cases "p = []") (auto simp: normalizeTTL_def Let_def touched_ttl_def nth_fix_checksum split: if_splits)
qed (auto simp: touched_ttl_def)

interpretation src: dst_preserving "\<lambda>p. fst (prepareOutgoing p ps)" touched_src for ps
proof
  show "length (fst (prepareOutgoing p ps)) = length p" for p
    by (simp add: prepareOutgoing_def Let_def split: prod.splits)
  show "fst (prepareOutgoing p ps) ! i = p ! i" if "i \<notin> touched_src (ip_version p)" "i < length p" for i p
    using that ip_version_nth[of p]
    by (cases "p = []")
       (auto simp: prepareOutgoing_def Let_def touched_src_def nth_fix_checksum nth_put_bytes split: if_splits prod.splits)
qed (auto simp: touched_src_def)

section \<open>The checksum of a rewritten header\<close>

definition header_ok :: "bytes \<Rightarrow> bool" where
  "header_ok p \<longleftrightarrow> ipv4Checksum (take (hdr_len p) p) = 0"

lemma hdr_len_bounds: "20 \<le> length p \<Longrightarrow> 20 \<le> hdr_len p \<and> hdr_len p \<le> length p \<and> hdr_len p \<le> 60"
proof -
  assume l: "20 \<le> length p"
  have "p ! 0 AND 0x0f \<le> 0x0f" by (rule word_and_le1)
  then have "unat (p ! 0 AND 0x0f) \<le> 15" by (simp add: word_le_nat_alt)
  with l show ?thesis by (simp add: hdr_len_def Let_def)
qed

lemma hdr_len_cong: "p ! 0 = q ! 0 \<Longrightarrow> length p = length q \<Longrightarrow> hdr_len p = hdr_len q"
  by (simp add: hdr_len_def)

lemma fix_checksum_ok:
  assumes l: "20 \<le> length p" and v: "p ! 0 \<noteq> 0"
  shows "header_ok (fix_checksum p)"
proof -
  let ?n = "hdr_len p" and ?z = "p[10 := 0, 11 := 0]"
  let ?h = "take ?n ?z"
  note n = hdr_len_bounds[OF l]
  have hl: "hdr_len (fix_checksum p) = ?n" by (rule hdr_len_cong) (simp_all add: nth_fix_checksum)
  have len: "length ?h = ?n" using n by simp
  have "?h \<noteq> []" "?h ! 0 = p ! 0" using len n by auto
  then obtain a r where h: "?h = a # r" "a \<noteq> 0" using v by (cases ?h) auto
  from h(2) have "0 < unat a" by (simp add: unat_gt_0)
  then have pos: "0 < wsum ?h" unfolding h(1) by (cases r) simp_all
  have "take ?n (fix_checksum p) =
    ?h[10 := ucast (drop_bit 8 (ipv4Checksum ?h)), 10 + 1 := ucast (ipv4Checksum ?h AND 0xff)]"
    by (simp add: fix_checksum_def Let_def take_update_swap)
  moreover have "ipv4Checksum (?h[10 := ucast (drop_bit 8 (ipv4Checksum ?h)), 10 + 1 := ucast (ipv4Checksum ?h AND 0xff)]) = 0"
    using n len l pos by (intro checksum_fill_verifies) simp_all
  ultimately show ?thesis by (simp add: header_ok_def hl)
qed

section \<open>Properties\<close>

definition hop_limit :: "bytes \<Rightarrow> byte" where
  "hop_limit p = (if ip_version p = 4 then p ! 8 else p ! 7)"

lemma normalizeTTL_high: "2 \<le> uint (hop_limit p) \<Longrightarrow> fst (normalizeTTL p) = p"
  by (cases "p = []") (auto simp: normalizeTTL_def hop_limit_def ip_version_nth minTTL_def Let_def split: if_splits)

lemma normalizeTTL_result:
  assumes "normalizeTTL p = (p', t, fixed)"
  shows "if fixed then t < 2 \<and> t = uint (hop_limit p) \<and> hop_limit p' = 64 \<and> (ip_version p = 4 \<longrightarrow> header_ok p')
     else p' = p \<and> (t = -1 \<or> 2 \<le> t \<and> t = uint (hop_limit p))"
proof (cases "length p < 1 \<or> drop_bit 4 (p ! 0) \<notin> {4, 6}")
  case True
  then have "normalizeTTL p = (p, -1, False)" by (auto simp: normalizeTTL_def)
  with assms show ?thesis by auto
next
  case False
  then have ne: "p \<noteq> []" "ip_version p = drop_bit 4 (p ! 0)" by (auto simp: ip_version_nth)
  have v': "ip_version p' = ip_version p" using ttl.rw_version[of p] assms by simp
  consider "ip_version p = 4" | "ip_version p = 6" using False ne by auto
  then show ?thesis
  proof cases
    case 1
    have ok: "header_ok (fix_checksum (p[8 := word_of_int fixTTL]))" if "20 \<le> length p"
      using that 1 ne by (intro fix_checksum_ok) auto
    with 1 ne v' assms show ?thesis
      by (auto simp: normalizeTTL_def hop_limit_def minTTL_def fixTTL_def Let_def nth_fix_checksum split: if_splits)
  next
    case 2
    with ne v' assms show ?thesis
      by (auto simp: normalizeTTL_def hop_limit_def minTTL_def fixTTL_def Let_def split: if_splits)
  qed
qed

text \<open>
  \<open>normalizeTTL\<close> leaves a packet that survives the proxy's decrement: it changes a
  packet exactly when its TTL or hop limit is below 2, sets it to 64, keeps length,
  destination and everything behind the field and checksum, leaves an IPv4 header whose
  checksum verifies, and does nothing the second time.
\<close>

theorem normalizeTTL_spec:
  assumes "normalizeTTL p = (p', t, fixed)"
  shows "length p' = length p \<and> dstIP p' = dstIP p \<and> drop 12 p' = drop 12 p \<and>
    (if fixed then t < 2 \<and> t = uint (hop_limit p) \<and> hop_limit p' = 64 \<and> (ip_version p = 4 \<longrightarrow> header_ok p')
     else p' = p \<and> (t = -1 \<or> 2 \<le> t \<and> t = uint (hop_limit p))) \<and>
    fst (normalizeTTL p') = p'"
proof -
  have p': "p' = fst (normalizeTTL p)" using assms by simp
  have "length p' = length p" "dstIP p' = dstIP p"
    using ttl.rw_length ttl.rw_dstIP by (simp_all add: p')
  moreover have "drop 12 p' = drop 12 p"
    unfolding p' by (rule ttl.rw_payload) (auto simp: touched_ttl_def split: if_splits)
  moreover have "if fixed then t < 2 \<and> t = uint (hop_limit p) \<and> hop_limit p' = 64 \<and> (ip_version p = 4 \<longrightarrow> header_ok p')
     else p' = p \<and> (t = -1 \<or> 2 \<le> t \<and> t = uint (hop_limit p))"
    using assms by (rule normalizeTTL_result)
  moreover from this have "fst (normalizeTTL p') = p'"
    using normalizeTTL_high[of p'] p' by (cases fixed) auto
  ultimately show ?thesis by blast
qed

definition demo_packet :: bytes where
  "demo_packet = [0x45, 0, 0, 24, 0, 0, 0, 0, 1, 17, 0, 0, 192, 168, 1, 7, 8, 8, 8, 8, 1, 2, 3, 4]"

theorem normalizeTTL_spec_witness:
  "header_ok (fst (normalizeTTL demo_packet)) \<and> hop_limit (fst (normalizeTTL demo_packet)) = 64"
proof -
  have r: "snd (snd (normalizeTTL demo_packet))" "ip_version demo_packet = 4" by code_simp+
  obtain p' t f where n: "normalizeTTL demo_packet = (p', t, f)" by (cases "normalizeTTL demo_packet")
  from normalizeTTL_spec[OF n] n r show ?thesis by simp
qed

section \<open>The source address\<close>

lemma splitAssigned_from_shape:
  assumes "\<forall>p \<in> set ps. prefix_wf p" "splitAssigned_from v4 v6 ps = (w4, w6)"
    "v4 = NoAddr \<or> addr_is4 v4" "v6 = NoAddr \<or> addr_is6 v6 \<and> addr_zone v6 = []"
  shows "(w4 = NoAddr \<or> addr_is4 w4) \<and> (w6 = NoAddr \<or> addr_is6 w6 \<and> addr_zone w6 = [])"
  using assms
proof (induction v4 v6 ps rule: splitAssigned_from.induct)
  case (2 v4 v6 p ps)
  from 2(2) have z: "addr_zone (px_addr p) = []" by (simp add: prefix_wf_def)
  show ?case
    by (rule 2(1)[OF refl refl refl]) (use 2 z in \<open>auto simp: Let_def\<close>)
qed simp

lemma splitAssigned_shape:
  assumes "\<forall>p \<in> set ps. prefix_wf p" "splitAssigned ps = (v4, v6)"
  shows "v4 = NoAddr \<or> (\<exists>w. v4 = Addr4 w)" "v6 = NoAddr \<or> (\<exists>w. v6 = Addr6 w [])"
proof -
  from splitAssigned_from_shape[OF assms(1) assms(2)[unfolded splitAssigned_def]]
  have "v4 = NoAddr \<or> addr_is4 v4" "v6 = NoAddr \<or> addr_is6 v6 \<and> addr_zone v6 = []" by simp_all
  then show "v4 = NoAddr \<or> (\<exists>w. v4 = Addr4 w)" "v6 = NoAddr \<or> (\<exists>w. v6 = Addr6 w [])"
    by (cases v4; auto) (use \<open>v6 = NoAddr \<or> addr_is6 v6 \<and> addr_zone v6 = []\<close> in \<open>cases v6; auto\<close>)
qed

lemma four_bytes: "length b = 4 \<Longrightarrow> [b ! 0, b ! 1, b ! 2, b ! 3] = b"
  by (auto simp: numeral_eq_Suc length_Suc_conv)

lemma src4_rewritten:
  assumes "16 \<le> length p"
  shows "src4 (fix_checksum (p[12 := addr_as4 (Addr4 w) ! 0, 13 := addr_as4 (Addr4 w) ! 1,
                               14 := addr_as4 (Addr4 w) ! 2, 15 := addr_as4 (Addr4 w) ! 3])) = Addr4 w"
proof -
  let ?b = "be_bytes 4 w"
  have "length ?b = 4" by simp
  then have "[?b ! 0, ?b ! 1, ?b ! 2, ?b ! 3] = ?b" by (rule four_bytes)
  moreover have "be_word ?b = w" by (rule be_word_bytes) simp
  ultimately have "addr_from4 [?b ! 0, ?b ! 1, ?b ! 2, ?b ! 3] = Addr4 w" by (simp only: addr_from4_def)
  then show ?thesis using assms by (simp add: src4_def nth_fix_checksum)
qed

lemma src6_rewritten:
  assumes "24 \<le> length p"
  shows "src6 (put_bytes 8 (addr_as16 (Addr6 w [])) p) = Addr6 w []"
proof -
  have "slice 8 24 (put_bytes 8 (be_bytes 16 w) p) = be_bytes 16 w"
    using put_bytes_slice[of 8 "be_bytes 16 w" p] assms by simp
  moreover have "be_word (be_bytes 16 w) = w" by (rule be_word_bytes) simp
  ultimately show ?thesis by (simp add: src6_def addr_from16_def)
qed

lemma prepareOutgoing_v4:
  assumes "ip_version p = 4" "20 \<le> length p" "splitAssigned ps = (Addr4 w, v6)"
  shows "prepareOutgoing p ps =
    (if src4 p = Addr4 w then (p, False, False)
     else (fix_checksum (p[12 := addr_as4 (Addr4 w) ! 0, 13 := addr_as4 (Addr4 w) ! 1,
                           14 := addr_as4 (Addr4 w) ! 2, 15 := addr_as4 (Addr4 w) ! 3]), False, True))"
  using assms ip_version_nth[of p] by (cases "p = []") (simp_all add: prepareOutgoing_def Let_def)

lemma prepareOutgoing_v6:
  assumes "ip_version p = 6" "40 \<le> length p" "splitAssigned ps = (v4, Addr6 w z)"
  shows "prepareOutgoing p ps =
    (if src6 p = Addr6 w z then (p, False, False)
     else (put_bytes 8 (addr_as16 (Addr6 w z)) p, False, True))"
  using assms ip_version_nth[of p] by (cases "p = []") (simp_all add: prepareOutgoing_def Let_def)

lemma prepareOutgoing_drop:
  "\<not> (ip_version p = 4 \<and> 20 \<le> length p \<and> addr_is_valid (fst (splitAssigned ps))) \<Longrightarrow>
   \<not> (ip_version p = 6 \<and> 40 \<le> length p \<and> addr_is_valid (snd (splitAssigned ps))) \<Longrightarrow>
   prepareOutgoing p ps = (p, True, False)"
  using ip_version_nth[of p] by (cases "p = []") (auto simp: prepareOutgoing_def Let_def split: prod.splits)

text \<open>The source a packet has, and the one its session was assigned.\<close>

definition src_of :: "bytes \<Rightarrow> addr" where
  "src_of p = (if ip_version p = 4 then src4 p else src6 p)"

definition assigned_src :: "bytes \<Rightarrow> prefix list \<Rightarrow> addr" where
  "assigned_src p ps =
     (if ip_version p = 4 \<and> 20 \<le> length p then fst (splitAssigned ps)
      else if ip_version p = 6 \<and> 40 \<le> length p then snd (splitAssigned ps) else NoAddr)"

lemma prepareOutgoing_result:
  assumes "\<forall>x \<in> set ps. prefix_wf x" and "prepareOutgoing p ps = (p', dropped, rewritten)"
  shows "(dropped \<longleftrightarrow> assigned_src p ps = NoAddr) \<and> (dropped \<longrightarrow> p' = p \<and> \<not> rewritten) \<and>
    length p' = length p \<and> dstIP p' = dstIP p \<and> drop 24 p' = drop 24 p \<and>
    (\<not> dropped \<longrightarrow> src_of p' = assigned_src p ps \<and> (ip_version p = 4 \<and> rewritten \<longrightarrow> header_ok p') \<and>
       (\<not> rewritten \<longrightarrow> p' = p) \<and> prepareOutgoing p' ps = (p', False, False))"
proof -
  obtain v4 v6 where sa: "splitAssigned ps = (v4, v6)" by (cases "splitAssigned ps")
  note shape = splitAssigned_shape[OF assms(1) sa]
  have p': "p' = fst (prepareOutgoing p ps)" using assms(2) by simp
  have frame: "length p' = length p" "dstIP p' = dstIP p" "ip_version p' = ip_version p"
    using src.rw_length src.rw_dstIP src.rw_version by (simp_all add: p')
  have pay: "drop 24 p' = drop 24 p"
    unfolding p' by (rule src.rw_payload) (auto simp: touched_src_def split: if_splits)
  consider (v4) w where "ip_version p = 4" "20 \<le> length p" "v4 = Addr4 w"
    | (v6) w where "ip_version p = 6" "40 \<le> length p" "v6 = Addr6 w []"
    | (no) "assigned_src p ps = NoAddr"
  proof (cases "ip_version p = 4 \<and> 20 \<le> length p")
    case True
    with shape(1) sa v4 no show ?thesis by (auto simp: assigned_src_def)
  next
    case False
    note n4 = this
    show ?thesis
    proof (cases "ip_version p = 6 \<and> 40 \<le> length p")
      case True
      with n4 shape(2) sa v6 no show ?thesis by (auto simp: assigned_src_def)
    next
      case False
      with n4 no show ?thesis by (auto simp: assigned_src_def)
    qed
  qed
  then show ?thesis
  proof cases
    case v4
    let ?q = "p[12 := addr_as4 (Addr4 w) ! 0, 13 := addr_as4 (Addr4 w) ! 1,
                14 := addr_as4 (Addr4 w) ! 2, 15 := addr_as4 (Addr4 w) ! 3]"
    note po = prepareOutgoing_v4[OF v4(1,2) sa[unfolded v4(3)]]
    have "p \<noteq> []" using v4(2) by auto
    with v4(1) have "p ! 0 \<noteq> 0" using ip_version_nth[of p] by auto
    with v4(2) have ok: "header_ok (fix_checksum ?q)" by (intro fix_checksum_ok) simp_all
    have src: "src4 p' = Addr4 w" using src4_rewritten[of p w] v4(2) po assms(2) by (auto split: if_splits)
    have "prepareOutgoing p' ps = (p', False, False)"
      using prepareOutgoing_v4[of p' ps w v6] frame v4 src sa by simp
    with po assms(2) frame pay ok src v4 sa show ?thesis
      by (auto simp: src_of_def assigned_src_def split: if_splits)
  next
    case v6
    note po = prepareOutgoing_v6[OF v6(1,2) sa[unfolded v6(3)]]
    have src: "src6 p' = Addr6 w []" using src6_rewritten[of p w] v6(2) po assms(2) by (auto split: if_splits)
    have "prepareOutgoing p' ps = (p', False, False)"
      using prepareOutgoing_v6[of p' ps v4 w "[]"] frame v6 src sa by simp
    with po assms(2) frame pay src v6 sa show ?thesis
      by (auto simp: src_of_def assigned_src_def split: if_splits)
  next
    case no
    have "prepareOutgoing p ps = (p, True, False)"
      using no by (intro prepareOutgoing_drop) (auto simp: assigned_src_def)
    with no assms(2) show ?thesis by simp
  qed
qed

lemma prepareOutgoing_hop_limit:
  "fst (prepareOutgoing p ps) = p' \<Longrightarrow> 8 < length p \<Longrightarrow> hop_limit p' = hop_limit p"
  using src.rw_version[of p ps] src.rw_frame[of 8 p ps] src.rw_frame[of 7 p ps]
  by (auto simp: hop_limit_def touched_src_def)

lemma normalizeTTL_hop_limit:
  assumes "ip_version p = 4 \<and> 20 \<le> length p \<or> ip_version p = 6 \<and> 40 \<le> length p"
  shows "2 \<le> uint (hop_limit (fst (normalizeTTL p)))"
proof -
  obtain q t f where n: "normalizeTTL p = (q, t, f)" by (cases "normalizeTTL p")
  have "t \<noteq> -1 \<or> f" using n assms ip_version_nth[of p]
    by (cases "p = []") (auto simp: normalizeTTL_def Let_def minTTL_def fixTTL_def split: if_splits)
  with normalizeTTL_result[OF n] n show ?thesis by (cases f) auto
qed


definition demo_assigned :: "prefix list" where
  "demo_assigned = [prefix_from (Addr4 0x0a080006) 32]"


section \<open>The two splitters agree\<close>

lemma SplitAssigned_agree:
  assumes "\<forall>p \<in> set ps. prefix_wf p \<and> prefix_is_valid p"
    "prefix_is_valid q4 \<longleftrightarrow> addr_is_valid (px_addr q4)" "prefix_is_valid q6 \<longleftrightarrow> addr_is_valid (px_addr q6)"
  shows "splitAssigned_from (px_addr q4) (px_addr q6) ps =
    map_prod px_addr px_addr (SplitAssigned_from q4 q6 ps)"
  using assms
proof (induction ps arbitrary: q4 q6)
  case (Cons p ps)
  then have "prefix_is_valid p" "addr_is_valid (px_addr p)" by (auto simp: prefix_wf_def prefix_is_valid_def)
  with Cons.prems Cons.IH[of p q6] Cons.IH[of q4 p] Cons.IH[of q4 q6] show ?case
    by (cases "px_addr p") (auto simp: Let_def)
qed simp

text \<open>
  The packet path and the interface set-up agree on which assigned address is the tunnel's:
  for valid assignments \<open>splitAssigned\<close> returns the addresses of the prefixes that
  \<open>SplitAssigned\<close> returns.
\<close>

theorem splitAssigned_equiv:
  assumes "\<forall>p \<in> set ps. prefix_wf p \<and> prefix_is_valid p"
  shows "splitAssigned ps = map_prod px_addr px_addr (SplitAssigned ps)"
  using SplitAssigned_agree[OF assms, of no_prefix no_prefix]
  by (simp add: splitAssigned_def SplitAssigned_def no_prefix_def prefix_is_valid_def)

theorem splitAssigned_equiv_witness:
  "splitAssigned [prefix_from (Addr6 1 []) 128, prefix_from (Addr4 7) 32, prefix_from (Addr4 9) 32] =
     map_prod px_addr px_addr
       (SplitAssigned [prefix_from (Addr6 1 []) 128, prefix_from (Addr4 7) 32, prefix_from (Addr4 9) 32])"
  by (rule splitAssigned_equiv) (simp add: prefix_from_def prefix_wf_def prefix_is_valid_def)

section \<open>What rewriting does to the transport checksum\<close>

text \<open>
  The checksum of TCP and of UDP covers a pseudo-header with both addresses (RFC 9293,
  RFC 768); a segment is accepted when the sum of both verifies.
\<close>

definition transport_ok :: "bytes \<Rightarrow> bool" where
  "transport_ok p \<longleftrightarrow>
     (let n = hdr_len p
      in ipv4Checksum (slice 12 20 p @ [0, p ! 9] @ be_bytes 2 (of_nat (length p - n) :: 16 word) @ drop n p) = 0)"

lemma wsum_slice_split:
  "20 \<le> length p \<Longrightarrow> wsum (slice 12 20 p @ r) = wsum (slice 12 16 p) + wsum (slice 16 20 p @ r)"
proof -
  assume l: "20 \<le> length p"
  then have "slice 12 20 p = slice 12 16 p @ slice 16 20 p"
    by (intro nth_equalityI) (auto simp: nth_append nth_slice)
  with l show ?thesis by (simp add: wsum_append)
qed

lemma mod_add_cancel_nat:
  assumes "(a + r) mod m = (b + r) mod (m :: nat)"
  shows "a mod m = b mod m"
proof -
  from assms have "(int a + int r) mod int m = (int b + int r) mod int m"
    by (metis of_nat_add of_nat_mod)
  then have "(int a + int r - int r) mod int m = (int b + int r - int r) mod int m"
    by (metis mod_diff_left_eq)
  then show ?thesis by (simp flip: of_nat_mod)
qed

text \<open>
  Rewriting the source of an IPv4 packet corrupts its transport checksum: the code
  recomputes the header checksum only, so a TCP or UDP packet that was intact is no longer
  so, unless the old and the new address have the same sum modulo 65535.
\<close>

theorem rewrite_breaks_transport:
  assumes "\<forall>x \<in> set ps. prefix_wf x" and "prepareOutgoing p ps = (p', False, True)"
    and "ip_version p = 4" and "length p \<le> 65000" and "transport_ok p"
    and "wsum (slice 12 16 p') mod 65535 \<noteq> wsum (slice 12 16 p) mod 65535"
  shows "\<not> transport_ok p'"
proof
  assume ok': "transport_ok p'"
  have l: "20 \<le> length p"
    using assms(2,3) ip_version_nth[of p] by (cases "p = []") (auto simp: prepareOutgoing_def Let_def split: if_splits prod.splits)
  have p': "p' = fst (prepareOutgoing p ps)" using assms(2) by simp
  have fr: "p' ! i = p ! i" if "i \<notin> {10, 11} \<union> {12..<16}" "i < length p" for i
    unfolding p' using that assms(3) by (intro src.rw_frame) (auto simp: touched_src_def)
  have len: "length p' = length p" unfolding p' by (rule src.rw_length)
  have h: "hdr_len p' = hdr_len p" using fr[of 0] l len by (intro hdr_len_cong) (cases p, simp_all)
  have hb: "20 \<le> hdr_len p" using hdr_len_bounds[OF l] by simp
  let ?n = "hdr_len p"
  let ?r = "\<lambda>q. slice 16 20 q @ [0, q ! 9] @ be_bytes 2 (of_nat (length q - ?n) :: 16 word) @ drop ?n q"
  have "slice 16 20 p' = slice 16 20 p" using fr len l by (intro nth_equalityI) (auto simp: nth_slice)
  moreover have "drop ?n p' = drop ?n p" using fr len hb by (intro nth_equalityI) auto
  ultimately have r: "?r p' = ?r p" using fr[of 9] l len by simp
  have s: "wsum (slice 12 20 q @ [0, q ! 9] @ be_bytes 2 (of_nat (length q - ?n) :: 16 word) @ drop ?n q) =
      wsum (slice 12 16 q) + wsum (?r q)" if "20 \<le> length q" for q
    using wsum_slice_split[OF that] by simp
  have "(wsum (slice 12 16 q) + wsum (?r q)) mod 65535 = 0"
    if "20 \<le> length q" "length q \<le> 65000" "hdr_len q = ?n" "transport_ok q" for q
    using that(4) s[OF that(1)] ipv4Checksum_zero_iff that(1,2)
    by (simp add: transport_ok_def Let_def that(3))
  from this[of p] this[of p'] have
    "(wsum (slice 12 16 p) + wsum (?r p)) mod 65535 = (wsum (slice 12 16 p') + wsum (?r p)) mod 65535"
    using l len h assms(4,5) ok' r by simp
  with assms(6) show False by (metis mod_add_cancel_nat)
qed

definition demo_udp :: bytes where
  "demo_udp = [0x45, 0, 0, 30, 0, 0, 0, 0, 64, 17, 0, 0, 192, 168, 1, 7, 8, 8, 8, 8,
     0x04, 0x00, 0x00, 0x35, 0, 10, 0x28, 0xe4, 1, 2]"

theorem rewrite_breaks_transport_witness:
  "transport_ok demo_udp \<and> \<not> transport_ok (fst (prepareOutgoing demo_udp demo_assigned))"
proof -
  have wf: "\<forall>x \<in> set demo_assigned. prefix_wf x"
    by (simp add: demo_assigned_def prefix_from_def prefix_wf_def)
  have r: "snd (prepareOutgoing demo_udp demo_assigned) = (False, True)" "ip_version demo_udp = 4"
    "transport_ok demo_udp"
    "slice 12 16 (fst (prepareOutgoing demo_udp demo_assigned)) = [10, 8, 0, 6]"
    "slice 12 16 demo_udp = [192, 168, 1, 7]"
    by code_simp+
  have len: "length demo_udp \<le> 65000" by (simp add: demo_udp_def)
  obtain p' d f where n: "prepareOutgoing demo_udp demo_assigned = (p', d, f)"
    by (cases "prepareOutgoing demo_udp demo_assigned")
  then have n': "prepareOutgoing demo_udp demo_assigned = (p', False, True)" using r(1) by simp
  from rewrite_breaks_transport[OF wf n' r(2) len r(3)] r n show ?thesis by simp
qed

end
