(* ===== verification/Client.thy ===== *)
theory Client
  imports Profile IPHdr
begin

text \<open>
  Connecting (\<open>internal/clientcore/client.go\<close> and \<open>dualport.go\<close>): the TLS configuration,
  the dial on one or two ports, the race between them, the CONNECT-IP handshake and the
  session. Sockets, QUIC connections and CONNECT-IP streams are resources of a world that
  records which are open; what the network answers is an input.
\<close>

section \<open>Resources\<close>

datatype resource = UDPSock nat | QConn nat | IPConn nat

record world =
  w_next :: nat
  w_open :: "resource set"

fun res_id :: "resource \<Rightarrow> nat" where
  "res_id (UDPSock n) = n" | "res_id (QConn n) = n" | "res_id (IPConn n) = n"

definition world_ok :: "'x world_scheme \<Rightarrow> bool" where
  "world_ok w \<longleftrightarrow> (\<forall>r \<in> w_open w. res_id r < w_next w)"

definition open_res :: "(nat \<Rightarrow> resource) \<Rightarrow> 'x world_scheme \<Rightarrow> 'x world_scheme \<times> resource" where
  "open_res mk w = (let r = mk (w_next w) in (w\<lparr>w_next := w_next w + 1, w_open := insert r (w_open w)\<rparr>, r))"

definition close_res :: "resource option \<Rightarrow> 'x world_scheme \<Rightarrow> 'x world_scheme" where
  "close_res ro w = (case ro of None \<Rightarrow> w | Some r \<Rightarrow> w\<lparr>w_open := w_open w - {r}\<rparr>)"

section \<open>TLS\<close>

record tls_config =
  tc_ServerName :: string
  tc_NextProtos :: "string list"
  tc_RootCAs :: "string option"
  tc_InsecureSkipVerify :: bool
  tc_Certificates :: "(string \<times> string) list"

datatype connect_error =
  CReadCA | CParseCA | CNeedCA | CKeyPair | CProfile profile_error | CResolve | CListen | CDial
| CAllPorts "(string \<times> connect_error) list" | CRequest | CClientConn | CIPDial | CStatus int
| CPrefixes | CNoPrefixes | CRoutes | CPanic | CCanceled

text \<open>The files, the CA parser and the key pair loader are parameters.\<close>

definition buildTLSConfig ::
  "(string \<Rightarrow> string option) \<Rightarrow> (string \<Rightarrow> bool) \<Rightarrow> (string \<Rightarrow> string \<Rightarrow> bool) \<Rightarrow> profile \<Rightarrow> connect_error + tls_config" where
  "buildTLSConfig read_file append_certs load_pair p =
     (let c = \<lparr>tc_ServerName = pf_ServerName p, tc_NextProtos = [''h3''], tc_RootCAs = None,
               tc_InsecureSkipVerify = False, tc_Certificates = []\<rparr>
      in res_bind
        (if pf_CA p \<noteq> [] then
           (case read_file (pf_CA p) of
              None \<Rightarrow> Inl CReadCA
            | Some pem \<Rightarrow> if append_certs pem then Inr (c\<lparr>tc_RootCAs := Some pem\<rparr>) else Inl CParseCA)
         else if \<not> pf_Insecure p then Inl CNeedCA else Inr c)
        (\<lambda>c. let c = (if pf_Insecure p then c\<lparr>tc_InsecureSkipVerify := True\<rparr> else c)
             in if pf_Cert p \<noteq> [] \<and> pf_Key p \<noteq> [] then
                  (if load_pair (pf_Cert p) (pf_Key p)
                   then Inr (c\<lparr>tc_Certificates := [(pf_Cert p, pf_Key p)]\<rparr>) else Inl CKeyPair)
                else Inr c))"

section \<open>Dialling\<close>

record udp_addr =
  ua_IP :: addr
  ua_Port :: int

definition dualDialAddrs :: "udp_addr option \<Rightarrow> int \<Rightarrow> udp_addr list" where
  "dualDialAddrs primary altPort =
     (case primary of
        None \<Rightarrow> []
      | Some a \<Rightarrow>
          if altPort < 1 \<or> 65535 < altPort \<or> altPort = ua_Port a then [a]
          else [a, a\<lparr>ua_Port := altPort\<rparr>])"

text \<open>\<open>UDPAddr.String\<close> of the standard library: a host with a colon goes in brackets.\<close>

definition udp_string :: "udp_addr \<Rightarrow> string" where
  "udp_string a =
     (let host = addr_string (ua_IP a)
      in (if CHR '':'' \<in> set host then ''['' @ host @ '']'' else host) @ '':'' @ itoa (ua_Port a))"

record quic_leg =
  lg_udpConn :: "resource option"
  lg_ownUDP :: bool
  lg_qconn :: "resource option"
  lg_addr :: string

definition leg_close :: "quic_leg \<Rightarrow> 'x world_scheme \<Rightarrow> 'x world_scheme" where
  "leg_close l w =
     (let w = close_res (lg_qconn l) w
      in if lg_ownUDP l then close_res (lg_udpConn l) w else w)"

text \<open>\<open>dial_ok\<close> tells whether the QUIC handshake succeeds with a given TLS configuration.\<close>

definition leg_dial :: "(tls_config \<Rightarrow> bool) \<Rightarrow> tls_config \<Rightarrow> udp_addr \<Rightarrow> quic_leg \<Rightarrow> 'x world_scheme \<Rightarrow> 'x world_scheme \<times> (connect_error + quic_leg)" where
  "leg_dial dial_ok tls a l w =
     (if \<not> dial_ok tls then (w, Inl CDial)
      else case open_res QConn w of
             (w, q) \<Rightarrow> (w, Inr (l\<lparr>lg_qconn := Some q, lg_addr := udp_string a\<rparr>)))"

record dial_env =
  de_listen :: bool
  de_dial :: "tls_config \<Rightarrow> bool"

definition listenAndDialQUIC :: "tls_config \<Rightarrow> dial_env \<Rightarrow> udp_addr \<Rightarrow> 'x world_scheme \<Rightarrow> 'x world_scheme \<times> (connect_error + quic_leg)" where
  "listenAndDialQUIC tls env a w =
     (if \<not> de_listen env then (w, Inl CListen)
      else
        case open_res UDPSock w of
          (w, s) \<Rightarrow>
            let leg = \<lparr>lg_udpConn = Some s, lg_ownUDP = True, lg_qconn = None, lg_addr = udp_string a\<rparr>
            in case leg_dial (de_dial env) tls a leg w of
                 (w, Inl e) \<Rightarrow> (leg_close leg w, Inl e)
               | (w, Inr leg) \<Rightarrow> (w, Inr leg))"

text \<open>
  The race: the goroutines' outcomes in the order in which they reach the channel. The first
  success wins, later ones are closed.
\<close>

fun race_loop ::
  "tls_config \<Rightarrow> (udp_addr \<times> dial_env) list \<Rightarrow> quic_leg option \<Rightarrow> (string \<times> connect_error) list \<Rightarrow> 'x world_scheme \<Rightarrow>
   'x world_scheme \<times> quic_leg option \<times> (string \<times> connect_error) list" where
  "race_loop tls [] winner errs w = (w, winner, errs)"
| "race_loop tls ((a, env) # rest) winner errs w =
     (case listenAndDialQUIC tls env a w of
        (w, Inl e) \<Rightarrow> race_loop tls rest winner (errs @ [(udp_string a, e)]) w
      | (w, Inr leg) \<Rightarrow>
          (case winner of
             None \<Rightarrow> race_loop tls rest (Some leg) errs w
           | Some _ \<Rightarrow> race_loop tls rest winner errs (leg_close leg w)))"

definition raceQUIC :: "tls_config \<Rightarrow> (udp_addr \<times> dial_env) list \<Rightarrow> 'x world_scheme \<Rightarrow> 'x world_scheme \<times> (connect_error + quic_leg)" where
  "raceQUIC tls arrivals w =
     (case race_loop tls arrivals None [] w of
        (w, Some leg, _) \<Rightarrow> (w, Inr leg)
      | (w, None, errs) \<Rightarrow> (w, Inl (CAllPorts errs)))"

section \<open>The CONNECT-IP handshake\<close>

record client_route =
  cr_StartIP :: addr
  cr_EndIP :: addr
  cr_IPProtocol :: nat

record session =
  ss_udpConn :: "resource option"
  ss_ownUDP :: bool
  ss_qconn :: "resource option"
  ss_ipconn :: "resource option"
  ss_dev :: bool
  ss_AssignedPrefixes :: "prefix list"
  ss_Routes :: "client_route list"
  ss_DialAddr :: string
  ss_done :: bool

text \<open>
  What the server answers: \<open>None\<close> is an error of the call. \<open>fe_template\<close> tells whether
  the URI template parses; \<open>MustNew\<close> panics when it does not, and the panic is recovered only
  in \<open>ConnectWithPacketConn\<close>, past the point where the leg could be closed.
\<close>

record finish_env =
  fe_template :: bool
  fe_request :: bool
  fe_client :: bool
  fe_status :: "int option"
  fe_prefixes :: "prefix list option"
  fe_routes :: "client_route list option"

definition finishCONNECTIP :: "finish_env \<Rightarrow> quic_leg \<Rightarrow> bool \<Rightarrow> 'x world_scheme \<Rightarrow> 'x world_scheme \<times> (connect_error + session)" where
  "finishCONNECTIP env leg dev w =
     (if \<not> fe_template env then (w, Inl CPanic)
      else if \<not> fe_request env then (leg_close leg w, Inl CRequest)
      else if \<not> fe_client env then (leg_close leg w, Inl CClientConn)
      else case fe_status env of
             None \<Rightarrow> (leg_close leg w, Inl CIPDial)
           | Some st \<Rightarrow>
               (case open_res IPConn w of
                  (w, ipc) \<Rightarrow>
                    if st \<noteq> 200 then (leg_close leg (close_res (Some ipc) w), Inl (CStatus st))
                    else case fe_prefixes env of
                           None \<Rightarrow> (leg_close leg (close_res (Some ipc) w), Inl CPrefixes)
                         | Some prefixes \<Rightarrow>
                             if prefixes = [] then (leg_close leg (close_res (Some ipc) w), Inl CNoPrefixes)
                             else case fe_routes env of
                                    None \<Rightarrow> (leg_close leg (close_res (Some ipc) w), Inl CRoutes)
                                  | Some routes \<Rightarrow>
                                      (w, Inr \<lparr>ss_udpConn = lg_udpConn leg, ss_ownUDP = lg_ownUDP leg,
                                               ss_qconn = lg_qconn leg, ss_ipconn = Some ipc, ss_dev = dev,
                                               ss_AssignedPrefixes = prefixes, ss_Routes = routes,
                                               ss_DialAddr = lg_addr leg, ss_done = False\<rparr>)))"

section \<open>Connect\<close>

text \<open>\<open>ce_arrivals\<close> orders the outcomes of the dials to the given addresses.\<close>

record connect_env =
  ce_resolve :: "string \<Rightarrow> udp_addr option"
  ce_readFile :: "string \<Rightarrow> string option"
  ce_appendCerts :: "string \<Rightarrow> bool"
  ce_loadPair :: "string \<Rightarrow> string \<Rightarrow> bool"
  ce_arrivals :: "udp_addr list \<Rightarrow> (udp_addr \<times> dial_env) list"
  ce_single :: dial_env
  ce_finish :: finish_env

definition ConnectWithPacketConn ::
  "connect_env \<Rightarrow> profile \<Rightarrow> bool \<Rightarrow> bool \<Rightarrow> 'x world_scheme \<Rightarrow> 'x world_scheme \<times> (connect_error + session)" where
  "ConnectWithPacketConn env p dev pc w =
     (case Validate p of
        Inl e \<Rightarrow> (w, Inl (CProfile e))
      | Inr p \<Rightarrow>
          (case ce_resolve env (pf_Server p) of
             None \<Rightarrow> (w, Inl CResolve)
           | Some udpAddr \<Rightarrow>
               (case buildTLSConfig (ce_readFile env) (ce_appendCerts env) (ce_loadPair env) p of
                  Inl e \<Rightarrow> (w, Inl e)
                | Inr tls \<Rightarrow>
                    let addrs = dualDialAddrs (Some udpAddr) (pf_AltPort p);
                        (w, r) =
                          (if pc then
                             leg_dial (de_dial (ce_single env)) tls udpAddr
                               \<lparr>lg_udpConn = None, lg_ownUDP = False, lg_qconn = None, lg_addr = udp_string udpAddr\<rparr> w
                           else if length addrs = 1 then listenAndDialQUIC tls (ce_single env) (hd addrs) w
                           else raceQUIC tls (ce_arrivals env addrs) w)
                    in (case r of
                          Inl e \<Rightarrow> (w, Inl e)
                        | Inr leg \<Rightarrow> finishCONNECTIP (ce_finish env) leg dev w))))"

definition Connect :: "connect_env \<Rightarrow> profile \<Rightarrow> bool \<Rightarrow> 'x world_scheme \<Rightarrow> 'x world_scheme \<times> (connect_error + session)" where
  "Connect env p dev w = ConnectWithPacketConn env p dev False w"

section \<open>The session\<close>

definition AttachTUN :: "bool \<Rightarrow> session \<Rightarrow> session" where
  "AttachTUN dev s = s\<lparr>ss_dev := dev\<rparr>"

definition Session_Close :: "session \<Rightarrow> 'x world_scheme \<Rightarrow> 'x world_scheme \<times> session" where
  "Session_Close s w =
     (if ss_done s then (w, s)
      else
        let w = close_res (ss_ipconn s) w;
            w = close_res (ss_qconn s) w;
            w = (if ss_ownUDP s then close_res (ss_udpConn s) w else w)
        in (w, s\<lparr>ss_done := True\<rparr>))"

definition tun_mtu :: "int option \<Rightarrow> int" where
  "tun_mtu r = (case r of None \<Rightarrow> 1369 | Some mtu \<Rightarrow> if mtu \<le> 0 then 1369 else mtu)"

text \<open>One packet on its way from the TUN device to the server: the packet written, if any.\<close>

definition outgoing :: "prefix list \<Rightarrow> bytes \<Rightarrow> bytes option" where
  "outgoing prefixes pkt =
     (case prepareOutgoing (fst (normalizeTTL pkt)) prefixes of
        (pkt, dropped, _) \<Rightarrow> if dropped then None else Some pkt)"

text \<open>A batch, with the outcome of each write: the packets written, whether a write failed.\<close>

fun send_batch :: "prefix list \<Rightarrow> (bytes \<times> bool) list \<Rightarrow> bytes list \<times> bool" where
  "send_batch prefixes [] = ([], True)"
| "send_batch prefixes ((pkt, ok) # rest) =
     (case outgoing prefixes pkt of
        None \<Rightarrow> send_batch prefixes rest
      | Some out \<Rightarrow>
          if \<not> ok then ([out], False)
          else case send_batch prefixes rest of (sent, good) \<Rightarrow> (out # sent, good))"

datatype run_event = ConnPacket bytes bool | ConnReadErr | TunRead "(bytes \<times> bool) list" | TunReadErr | CtxDone

datatype run_result = NoDevice | ConnReadFailed | TunWriteFailed | TunReadFailed | ConnWriteFailed | Cancelled | StillRunning

text \<open>
  \<open>Run\<close>: the two goroutines' reads in the order in which they happen, until the first reason
  to stop; then the session is closed. The result: packets for the device, packets for the
  server, the reason.
\<close>

fun run_loop :: "prefix list \<Rightarrow> run_event list \<Rightarrow> bytes list \<Rightarrow> bytes list \<Rightarrow> bytes list \<times> bytes list \<times> run_result" where
  "run_loop ps [] tun conn = (tun, conn, StillRunning)"
| "run_loop ps (ConnPacket pkt ok # evs) tun conn =
     (if ok then run_loop ps evs (tun @ [pkt]) conn else (tun, conn, TunWriteFailed))"
| "run_loop ps (ConnReadErr # evs) tun conn = (tun, conn, ConnReadFailed)"
| "run_loop ps (TunReadErr # evs) tun conn = (tun, conn, TunReadFailed)"
| "run_loop ps (CtxDone # evs) tun conn = (tun, conn, Cancelled)"
| "run_loop ps (TunRead b # evs) tun conn =
     (case send_batch ps b of
        (sent, True) \<Rightarrow> run_loop ps evs tun (conn @ sent)
      | (sent, False) \<Rightarrow> (tun, conn @ sent, ConnWriteFailed))"

definition Session_Run ::
  "session \<Rightarrow> run_event list \<Rightarrow> 'x world_scheme \<Rightarrow> 'x world_scheme \<times> session \<times> bytes list \<times> bytes list \<times> run_result" where
  "Session_Run s evs w =
     (if \<not> ss_dev s then (w, s, [], [], NoDevice)
      else case run_loop (ss_AssignedPrefixes s) evs [] [] of
             (tun, conn, StillRunning) \<Rightarrow> (w, s, tun, conn, StillRunning)
           | (tun, conn, r) \<Rightarrow> (case Session_Close s w of (w, s) \<Rightarrow> (w, s, tun, conn, r)))"

text \<open>The session's round-trip time and socket for the platform; the system calls are parameters.\<close>

definition Session_RTT :: "(resource \<Rightarrow> int) \<Rightarrow> session option \<Rightarrow> int" where
  "Session_RTT smoothed s =
     (case s of None \<Rightarrow> 0 | Some s \<Rightarrow> (case ss_qconn s of None \<Rightarrow> 0 | Some q \<Rightarrow> smoothed q))"

definition UDPFd :: "(resource \<Rightarrow> int option) \<Rightarrow> session option \<Rightarrow> int" where
  "UDPFd raw_fd s =
     (case s of
        None \<Rightarrow> -1
      | Some s \<Rightarrow>
          (case ss_udpConn s of
             None \<Rightarrow> -1
           | Some u \<Rightarrow> (case raw_fd u of None \<Rightarrow> -1 | Some fd \<Rightarrow> if fd \<le> 0 then -1 else fd)))"

end
