(* ===== verification/SessionLease.thy ===== *)
theory SessionLease
  imports Prelude
begin

text \<open>
  The contract between the code that keeps sessions alive (the pump, the mobile tunnel) and
  the code that dials and closes them: a failing dial leaves nothing behind, a dial that
  succeeds opens resources of its own, a close releases exactly those. The client side, proved
  once here, is the accounting over all sessions ever dialled: what is open is what was open
  at the start and the resources of the sessions not yet closed.
\<close>

locale session_provider =
  fixes sound :: "'w \<Rightarrow> bool"
    and live :: "'w \<Rightarrow> 'r set"
    and res :: "'s \<Rightarrow> 'r set"
    and good :: "'d \<Rightarrow> bool"
    and dial :: "'d \<Rightarrow> 'w \<Rightarrow> 'w \<times> ('e + 's)"
    and close :: "'s \<Rightarrow> 'w \<Rightarrow> 'w \<times> 's"
  assumes dial_ok: "sound w \<Longrightarrow> dial d w = (w', Inr s) \<Longrightarrow>
      sound w' \<and> live w' = live w \<union> res s \<and> res s \<inter> live w = {}"
    and dial_err: "sound w \<Longrightarrow> good d \<Longrightarrow> dial d w = (w', Inl e) \<Longrightarrow> sound w' \<and> live w' = live w"
    and close_sound: "sound w \<Longrightarrow> sound (fst (close s w))"
    and close_live: "live (fst (close s w)) = live w - res s"
    and close_res: "res (snd (close s w)) = {}"
begin

definition accounts :: "'w \<Rightarrow> 'r set \<Rightarrow> 's list \<Rightarrow> bool" where
  "accounts w B h \<longleftrightarrow> sound w \<and> live w = B \<union> \<Union> (res ` set h) \<and> B \<inter> \<Union> (res ` set h) = {} \<and>
     (\<forall>i < length h. \<forall>j < length h. i \<noteq> j \<longrightarrow> res (h ! i) \<inter> res (h ! j) = {})"

lemma accounts_live: "accounts w B h \<Longrightarrow> live w = B \<union> \<Union> (res ` set h)"
  by (simp add: accounts_def)

lemma accounts_disjoint:
  "accounts w B h \<Longrightarrow> i < length h \<Longrightarrow> j < length h \<Longrightarrow> i \<noteq> j \<Longrightarrow> res (h ! i) \<inter> res (h ! j) = {}"
  by (simp add: accounts_def)

lemma accounts_start: "sound w \<Longrightarrow> accounts w (live w) []"
  by (simp add: accounts_def)

lemma accounts_same: "accounts w B h \<Longrightarrow> live w' = live w \<Longrightarrow> sound w' \<Longrightarrow> accounts w' B h"
  by (simp add: accounts_def)

lemma accounts_dial_ok:
  assumes a: "accounts w B h" and d: "dial d w = (w', Inr s)"
  shows "accounts w' B (h @ [s])"
proof -
  have ok: "sound w'" "live w' = live w \<union> res s" "res s \<inter> live w = {}"
    using dial_ok[OF _ d] a by (auto simp: accounts_def)
  have new: "res s \<inter> B = {}" "\<And>i. i < length h \<Longrightarrow> res s \<inter> res (h ! i) = {}"
    using ok(3) accounts_live[OF a] by auto
  have "res ((h @ [s]) ! i) \<inter> res ((h @ [s]) ! j) = {}"
    if "i < Suc (length h)" "j < Suc (length h)" "i \<noteq> j" for i j
    using that new(2)[of i] new(2)[of j] accounts_disjoint[OF a, of i j]
    by (auto simp: nth_append less_Suc_eq Int_commute)
  then show ?thesis
    using a ok(1,2) new(1) unfolding accounts_def by (auto simp: Int_Un_distrib Int_commute)
qed

lemma accounts_dial_err: "accounts w B h \<Longrightarrow> good d \<Longrightarrow> dial d w = (w', Inl e) \<Longrightarrow> accounts w' B h"
  using dial_err[of w d w' e] by (simp add: accounts_def)

lemma accounts_close:
  assumes a: "accounts w B h" and i: "i < length h" and c: "close (h ! i) w = (w', s')"
  shows "accounts w' B (h[i := s'])"
proof -
  have s': "res s' = {}" and lv: "live w' = live w - res (h ! i)" and so: "sound w'"
    using close_res[of "h ! i" w] close_live[of "h ! i" w] close_sound[of w "h ! i"] a c
    by (auto simp: accounts_def)
  have k: "res (h[i := s'] ! j) = (if j = i then {} else res (h ! j))" if "j < length h" for j
    using that s' by simp
  have un: "\<Union> (res ` set g) = (\<Union>j \<in> {..<length g}. res (g ! j))" for g
    unfolding set_conv_nth by auto
  have "\<Union> (res ` set (h[i := s'])) = (\<Union>j \<in> {..<length h}. if j = i then {} else res (h ! j))"
    unfolding un length_list_update by (rule SUP_cong[OF refl]) (simp add: k)
  also have "\<dots> = \<Union> (res ` set h) - res (h ! i)"
    unfolding un using accounts_disjoint[OF a _ i] by (auto split: if_splits)
  finally have u: "\<Union> (res ` set (h[i := s'])) = \<Union> (res ` set h) - res (h ! i)" .
  have "res (h ! i) \<subseteq> \<Union> (res ` set h)" using nth_mem[OF i] by blast
  moreover have "res (h[i := s'] ! a) \<inter> res (h[i := s'] ! b) = {}"
    if "a < length h" "b < length h" "a \<noteq> b" for a b
    using that accounts_disjoint[OF a, of a b] by (simp add: k)
  ultimately show ?thesis
    using a so lv u unfolding accounts_def by auto
qed

lemma accounts_quiet: "accounts w B h \<Longrightarrow> \<forall>s \<in> set h. res s = {} \<Longrightarrow> live w = B"
  by (auto simp: accounts_def)

end

end
