(* ===== verification/ClientProps.thy ===== *)
theory ClientProps
  imports Client SessionLease "HOL-Library.Sublist"
begin

text \<open>
  Connecting leaks nothing: who holds which resource, from the sockets of the racing dials to
  the session that a successful connect returns, and the session's interface for its users.
\<close>

section \<open>Legs\<close>

definition leg_res :: "quic_leg \<Rightarrow> resource set" where
  "leg_res l = set_option (lg_qconn l) \<union> (if lg_ownUDP l then set_option (lg_udpConn l) else {})"

definition sess_res :: "session \<Rightarrow> resource set" where
  "sess_res s =
     (if ss_done s then {}
      else set_option (ss_ipconn s) \<union> set_option (ss_qconn s) \<union>
           (if ss_ownUDP s then set_option (ss_udpConn s) else {}))"

text \<open>A leg dialled from the world \<open>w0\<close> owns what is open in \<open>w\<close> beyond \<open>w0\<close>.\<close>

definition leg_from :: "'x world_scheme \<Rightarrow> quic_leg \<Rightarrow> 'y world_scheme \<Rightarrow> bool" where
  "leg_from w0 l w \<longleftrightarrow> world_ok w \<and> w_open w = w_open w0 \<union> leg_res l \<and> leg_res l \<inter> w_open w0 = {}"

lemma close_res_simps [simp]:
  "w_open (close_res ro w) = w_open w - set_option ro"
  "w_next (close_res ro w) = w_next w"
  by (cases ro; simp add: close_res_def)+

lemma close_res_ok [simp, intro]: "world_ok w \<Longrightarrow> world_ok (close_res ro w)"
  by (auto simp: world_ok_def)

lemma leg_close_open [simp]: "w_open (leg_close l w) = w_open w - leg_res l"
  by (auto simp: leg_close_def leg_res_def Let_def)

lemma leg_close_ok [simp, intro]: "world_ok w \<Longrightarrow> world_ok (leg_close l w)"
  by (auto simp: leg_close_def Let_def)

lemma open_res_fresh:
  assumes "world_ok w" "open_res mk w = (w', r)" "\<And>n. res_id (mk n) = n"
  shows "world_ok w' \<and> w_open w' = insert r (w_open w) \<and> r \<notin> w_open w \<and> r = mk (w_next w)"
  using assms by (fastforce simp: open_res_def world_ok_def Let_def)

lemma leg_from_close: "leg_from w0 l w \<Longrightarrow> w_open (leg_close l w) = w_open w0"
  by (auto simp: leg_from_def)

lemma listenAndDialQUIC_cases:
  assumes w: "world_ok w" and d: "listenAndDialQUIC tls env a w = (w', r)"
  obtains (up) leg where "r = Inr leg" "leg_from w leg w'" "de_listen env" "de_dial env tls" "lg_addr leg = udp_string a"
      "\<exists>u c. leg_res leg = {UDPSock u, QConn c}"
    | (down) e where "r = Inl e" "world_ok w'" "w_open w' = w_open w" "\<not> (de_listen env \<and> de_dial env tls)"
proof -
  obtain w1 s where s: "open_res UDPSock w = (w1, s)" by (cases "open_res UDPSock w")
  have f1: "world_ok w1" "w_open w1 = insert s (w_open w)" "s \<notin> w_open w"
    using open_res_fresh[OF w s] by auto
  obtain w2 q where q: "open_res QConn w1 = (w2, q)" by (cases "open_res QConn w1")
  have f2: "world_ok w2" "w_open w2 = insert q (w_open w1)" "q \<notin> w_open w1"
    using open_res_fresh[OF f1(1) q] by auto
  show thesis
  proof (cases "de_listen env \<and> de_dial env tls")
    case True
    let ?leg = "\<lparr>lg_udpConn = Some s, lg_ownUDP = True, lg_qconn = Some q, lg_addr = udp_string a\<rparr>"
    have "r = Inr ?leg" "w' = w2"
      using d True s q by (auto simp: listenAndDialQUIC_def leg_dial_def Let_def)
    moreover have "s = UDPSock (w_next w)" "q = QConn (w_next w1)"
      using open_res_fresh[OF w s] open_res_fresh[OF f1(1) q] by auto
    ultimately show thesis using True f1 f2 by (intro up[of ?leg]) (auto simp: leg_from_def leg_res_def)
  next
    case False
    show thesis
    proof (cases "de_listen env")
      case True
      with False d s have "r = Inl CDial" "w' = leg_close \<lparr>lg_udpConn = Some s, lg_ownUDP = True, lg_qconn = None, lg_addr = udp_string a\<rparr> w1"
        by (auto simp: listenAndDialQUIC_def leg_dial_def Let_def)
      with False f1 show thesis by (intro down[of CDial]) (auto simp: leg_res_def)
    next
      case False
      with d have "r = Inl CListen" "w' = w" by (auto simp: listenAndDialQUIC_def)
      with False w show thesis by (intro down[of CListen]) auto
    qed
  qed
qed

section \<open>The race\<close>

text \<open>The state of the race: what the winner, if any, holds beyond the world at the start.\<close>

definition race_from :: "'x world_scheme \<Rightarrow> quic_leg option \<Rightarrow> 'y world_scheme \<Rightarrow> bool" where
  "race_from w0 winner w =
     (case winner of None \<Rightarrow> world_ok w \<and> w_open w = w_open w0 | Some l \<Rightarrow> leg_from w0 l w)"

lemma race_from_ok: "race_from w0 winner w \<Longrightarrow> world_ok w"
  by (auto simp: race_from_def leg_from_def split: option.splits)

lemma race_from_same:
  "race_from w0 winner w \<Longrightarrow> world_ok w' \<Longrightarrow> w_open w' = w_open w \<Longrightarrow> race_from w0 winner w'"
  by (auto simp: race_from_def leg_from_def split: option.splits)

lemma race_loop_from:
  "race_from w0 winner w \<Longrightarrow> race_loop tls arrivals winner errs w = (w', winner', errs') \<Longrightarrow>
   race_from w0 winner' w'"
proof (induction tls arrivals winner errs w rule: race_loop.induct)
  case (1 tls winner errs w)
  then show ?case by simp
next
  case (2 tls a env rest winner errs w)
  obtain w1 r where d: "listenAndDialQUIC tls env a w = (w1, r)" by (cases "listenAndDialQUIC tls env a w")
  from race_from_ok[OF "2.prems"(1)] d show ?case
  proof (cases rule: listenAndDialQUIC_cases)
    case (up leg)
    show ?thesis
    proof (cases winner)
      case None
      have "race_from w0 (Some leg) w1"
        using "2.prems"(1) up(2) None by (auto simp: race_from_def leg_from_def)
      with "2.IH"(2)[OF d[symmetric] up(1) None] "2.prems"(2) d up(1) None show ?thesis by simp
    next
      case (Some l)
      have "race_from w0 winner (leg_close leg w1)"
        by (rule race_from_same[OF "2.prems"(1)])
          (use up(2) leg_from_close[OF up(2)] in \<open>auto simp: leg_from_def\<close>)
      with "2.IH"(3)[OF d[symmetric] up(1) Some] "2.prems"(2) d up(1) Some show ?thesis by simp
    qed
  next
    case (down e)
    have "race_from w0 winner w1" by (rule race_from_same[OF "2.prems"(1) down(2,3)])
    with "2.IH"(1)[OF d[symmetric] down(1)] "2.prems"(2) d down(1) show ?thesis by simp
  qed
qed

definition leg_up :: "tls_config \<Rightarrow> udp_addr \<times> dial_env \<Rightarrow> bool" where
  "leg_up tls x \<longleftrightarrow> de_listen (snd x) \<and> de_dial (snd x) tls"

lemma race_loop_winner:
  "world_ok w \<Longrightarrow> race_loop tls arrivals winner errs w = (w', winner', errs') \<Longrightarrow>
   (case winner of
      Some l \<Rightarrow> winner' = Some l
    | None \<Rightarrow> (case filter (leg_up tls) arrivals of
                 [] \<Rightarrow> winner' = None
               | x # _ \<Rightarrow> \<exists>l. winner' = Some l \<and> lg_addr l = udp_string (fst x))) \<and>
   map fst errs' = map fst errs @ map (udp_string \<circ> fst) (filter (Not \<circ> leg_up tls) arrivals)"
proof (induction tls arrivals winner errs w rule: race_loop.induct)
  case (1 tls winner errs w)
  then show ?case by (simp split: option.splits)
next
  case (2 tls a env rest winner errs w)
  obtain w1 r where d: "listenAndDialQUIC tls env a w = (w1, r)" by (cases "listenAndDialQUIC tls env a w")
  from "2.prems"(1) d show ?case
  proof (cases rule: listenAndDialQUIC_cases)
    case (up leg)
    then have u: "leg_up tls (a, env)" by (simp add: leg_up_def)
    have w1: "world_ok w1" "world_ok (leg_close leg w1)" using up(2) by (auto simp: leg_from_def)
    show ?thesis
    proof (cases winner)
      case None
      from "2.IH"(2)[OF d[symmetric] up(1) None w1(1)] "2.prems"(2) d up(1,5) None u
      show ?thesis by simp
    next
      case (Some l)
      from "2.IH"(3)[OF d[symmetric] up(1) Some w1(2)] "2.prems"(2) d up(1) Some u
      show ?thesis by simp
    qed
  next
    case (down e)
    then have u: "\<not> leg_up tls (a, env)" by (simp add: leg_up_def)
    from "2.IH"(1)[OF d[symmetric] down(1,2)] "2.prems"(2) d down(1) u show ?thesis by (simp split: option.splits)
  qed
qed

section \<open>The handshake and the session\<close>

definition sess_from :: "'x world_scheme \<Rightarrow> session \<Rightarrow> 'y world_scheme \<Rightarrow> bool" where
  "sess_from w0 s w \<longleftrightarrow> world_ok w \<and> w_open w = w_open w0 \<union> sess_res s \<and> sess_res s \<inter> w_open w0 = {}"

lemma finishCONNECTIP_from:
  assumes l: "leg_from w0 leg w" and t: "fe_template env" and f: "finishCONNECTIP env leg dev w = (w', r)"
  shows "case r of Inl e \<Rightarrow> world_ok w' \<and> w_open w' = w_open w0
       | Inr s \<Rightarrow> sess_from w0 s w' \<and> \<not> ss_done s \<and> ss_dev s = dev \<and> ss_AssignedPrefixes s \<noteq> []"
proof -
  obtain w1 ipc where o1: "open_res IPConn w = (w1, ipc)" by (cases "open_res IPConn w")
  have wk: "world_ok w" using l by (simp add: leg_from_def)
  have f1: "world_ok w1" "w_open w1 = insert ipc (w_open w)" "ipc \<notin> w_open w"
    using open_res_fresh[OF wk o1] by auto
  have c0: "world_ok (leg_close leg w) \<and> w_open (leg_close leg w) = w_open w0"
    using leg_from_close[OF l] wk by auto
  have c1: "world_ok (leg_close leg (close_res (Some ipc) w1)) \<and>
      w_open (leg_close leg (close_res (Some ipc) w1)) = w_open w0"
    using l f1 by (auto simp: leg_from_def)
  consider (early) e where "(w', r) = (leg_close leg w, Inl e)"
    | (late) e where "(w', r) = (leg_close leg (close_res (Some ipc) w1), Inl e)"
    | (up) ps rs where "ps \<noteq> []" "(w', r) = (w1, Inr \<lparr>ss_udpConn = lg_udpConn leg, ss_ownUDP = lg_ownUDP leg,
        ss_qconn = lg_qconn leg, ss_ipconn = Some ipc, ss_dev = dev, ss_AssignedPrefixes = ps, ss_Routes = rs,
        ss_DialAddr = lg_addr leg, ss_done = False\<rparr>)"
    using f t o1 by (auto simp: finishCONNECTIP_def split: if_splits option.splits)
  then show ?thesis
  proof cases
    case up
    with l f1 show ?thesis
      by (auto simp: sess_from_def leg_from_def sess_res_def leg_res_def)
  qed (use c0 c1 in auto)
qed

lemma Session_Close_open [simp]: "w_open (fst (Session_Close s w)) = w_open w - sess_res s"
  by (auto simp: Session_Close_def sess_res_def Let_def)

lemma Session_Close_ok: "world_ok w \<Longrightarrow> world_ok (fst (Session_Close s w))"
  by (auto simp: Session_Close_def Let_def)

lemma Session_Close_done: "ss_done (snd (Session_Close s w))"
  by (simp add: Session_Close_def Let_def)

text \<open>The outcome of the dial, whatever its form.\<close>

lemma raceQUIC_from:
  assumes "world_ok w" "raceQUIC tls arrivals w = (w', r)"
  shows "case r of Inl e \<Rightarrow> world_ok w' \<and> w_open w' = w_open w | Inr leg \<Rightarrow> leg_from w leg w'"
proof -
  obtain w1 win errs where l: "race_loop tls arrivals None [] w = (w1, win, errs)"
    by (cases "race_loop tls arrivals None [] w")
  have "race_from w None w" using assms(1) by (simp add: race_from_def)
  from race_loop_from[OF this l] assms(2) l show ?thesis
    by (auto simp: raceQUIC_def race_from_def split: option.splits)
qed

lemma leg_dial_from:
  assumes w: "world_ok w" and d: "leg_dial ok tls a l w = (w', r)" and l: "\<not> lg_ownUDP l"
  shows "case r of Inl e \<Rightarrow> world_ok w' \<and> w_open w' = w_open w | Inr leg \<Rightarrow> leg_from w leg w'"
proof -
  obtain w1 q where q: "open_res QConn w = (w1, q)" by (cases "open_res QConn w")
  from open_res_fresh[OF w q] d q l w show ?thesis
    by (auto simp: leg_dial_def leg_from_def leg_res_def split: if_splits)
qed

definition dial_outcome ::
  "connect_env \<Rightarrow> tls_config \<Rightarrow> udp_addr \<Rightarrow> int \<Rightarrow> bool \<Rightarrow> 'x world_scheme \<Rightarrow> 'x world_scheme \<times> (connect_error + quic_leg)" where
  "dial_outcome env tls a alt pc w =
     (if pc then
        leg_dial (de_dial (ce_single env)) tls a
          \<lparr>lg_udpConn = None, lg_ownUDP = False, lg_qconn = None, lg_addr = udp_string a\<rparr> w
      else if length (dualDialAddrs (Some a) alt) = 1
      then listenAndDialQUIC tls (ce_single env) (hd (dualDialAddrs (Some a) alt)) w
      else raceQUIC tls (ce_arrivals env (dualDialAddrs (Some a) alt)) w)"

lemma dial_outcome_from:
  assumes "world_ok w" "dial_outcome env tls a alt pc w = (w', r)"
  shows "case r of Inl e \<Rightarrow> world_ok w' \<and> w_open w' = w_open w | Inr leg \<Rightarrow> leg_from w leg w'"
proof -
  have li: "case r of Inl e \<Rightarrow> world_ok w' \<and> w_open w' = w_open w | Inr leg \<Rightarrow> leg_from w leg w'"
    if "listenAndDialQUIC tls e x w = (w', r)" for e x
    using assms(1) that by (cases rule: listenAndDialQUIC_cases) auto
  consider "pc" | "\<not> pc" "length (dualDialAddrs (Some a) alt) = 1" | "\<not> pc" "length (dualDialAddrs (Some a) alt) \<noteq> 1"
    by blast
  then show ?thesis
    using leg_dial_from[OF assms(1)] raceQUIC_from[OF assms(1)] li assms(2)
    by cases (auto simp: dial_outcome_def)
qed

lemma Connect_cases:
  assumes "ConnectWithPacketConn env p dev pc w = (w', r)"
  obtains (early) e where "w' = w" "r = Inl e"
    | (failed) q a tls e where "Validate p = Inr q" "ce_resolve env (pf_Server q) = Some a"
        "buildTLSConfig (ce_readFile env) (ce_appendCerts env) (ce_loadPair env) q = Inr tls"
        "dial_outcome env tls a (pf_AltPort q) pc w = (w', Inl e)" "r = Inl e"
    | (dialed) q a tls w1 leg where "Validate p = Inr q" "ce_resolve env (pf_Server q) = Some a"
        "buildTLSConfig (ce_readFile env) (ce_appendCerts env) (ce_loadPair env) q = Inr tls"
        "dial_outcome env tls a (pf_AltPort q) pc w = (w1, Inr leg)" "finishCONNECTIP (ce_finish env) leg dev w1 = (w', r)"
proof (cases "Validate p")
  case (Inl e)
  with assms early show thesis by (auto simp: ConnectWithPacketConn_def)
next
  case (Inr q)
  note v = Inr
  show thesis
  proof (cases "ce_resolve env (pf_Server q)")
    case None
    with v assms early show thesis by (auto simp: ConnectWithPacketConn_def)
  next
    case (Some a)
    note a = Some
    show thesis
    proof (cases "buildTLSConfig (ce_readFile env) (ce_appendCerts env) (ce_loadPair env) q")
      case (Inl e)
      with v a assms early show thesis by (auto simp: ConnectWithPacketConn_def)
    next
      case (Inr tls)
      obtain w1 d where d: "dial_outcome env tls a (pf_AltPort q) pc w = (w1, d)" by fastforce
      with v a Inr assms have "(w', r) = (case d of Inl e \<Rightarrow> (w1, Inl e) | Inr leg \<Rightarrow> finishCONNECTIP (ce_finish env) leg dev w1)"
        by (simp add: ConnectWithPacketConn_def dial_outcome_def Let_def split: sum.splits prod.splits)
      with v a Inr d failed dialed show thesis by (cases d) auto
    qed
  qed
qed

section \<open>The session provider\<close>

text \<open>Connecting and closing meet the contract of their users.\<close>

lemma Connect_from:
  assumes "world_ok w" "ConnectWithPacketConn env p dev pc w = (w', r)" "fe_template (ce_finish env)"
  shows "case r of Inl e \<Rightarrow> world_ok w' \<and> w_open w' = w_open w
       | Inr s \<Rightarrow> sess_from w s w' \<and> \<not> ss_done s \<and> ss_dev s = dev \<and> ss_AssignedPrefixes s \<noteq> []"
  using assms(2)
proof (cases rule: Connect_cases)
  case (failed q a tls e)
  from dial_outcome_from[OF assms(1) failed(4)] failed(5) show ?thesis by simp
next
  case (dialed q a tls w1 leg)
  from dial_outcome_from[OF assms(1) dialed(4)] have "leg_from w leg w1" by simp
  from finishCONNECTIP_from[OF this assms(3) dialed(5)] show ?thesis .
qed (simp add: assms(1))

lemma Connect_template: "ConnectWithPacketConn env p dev pc w = (w', Inr s) \<Longrightarrow> fe_template (ce_finish env)"
  by (erule Connect_cases) (auto simp: finishCONNECTIP_def split: if_splits)

definition dial_of :: "connect_env \<times> profile \<times> bool \<times> bool \<Rightarrow> 'x world_scheme \<Rightarrow> 'x world_scheme \<times> (connect_error + session)" where
  "dial_of d w = (case d of (env, p, dev, pc) \<Rightarrow> ConnectWithPacketConn env p dev pc w)"

definition dial_good :: "connect_env \<times> profile \<times> bool \<times> bool \<Rightarrow> bool" where
  "dial_good d \<longleftrightarrow> fe_template (ce_finish (fst d))"

interpretation cl: session_provider world_ok w_open sess_res dial_good dial_of Session_Close
proof
  fix w w' :: "'x world_scheme" and d s
  assume w: "world_ok w" and d: "dial_of d w = (w', Inr s)"
  obtain env p dev pc where e: "d = (env, p, dev, pc)" by (cases d)
  from Connect_from[OF w d[unfolded dial_of_def e prod.case] Connect_template[OF d[unfolded dial_of_def e prod.case]]]
  show "world_ok w' \<and> w_open w' = w_open w \<union> sess_res s \<and> sess_res s \<inter> w_open w = {}"
    by (simp add: sess_from_def)
next
  fix w w' :: "'x world_scheme" and d e
  assume w: "world_ok w" and g: "dial_good d" and d: "dial_of d w = (w', Inl e)"
  obtain env p dev pc where e: "d = (env, p, dev, pc)" by (cases d)
  from Connect_from[OF w d[unfolded dial_of_def e prod.case]] g e
  show "world_ok w' \<and> w_open w' = w_open w" by (simp add: dial_good_def)
qed (simp_all add: Session_Close_ok sess_res_def Session_Close_done)


definition client_profile :: profile where
  "client_profile = \<lparr>pf_Server = ''10.0.0.1:53'', pf_ServerName = ''vpn'', pf_AltPort = 80, pf_CA = ''ca.pem'',
     pf_Cert = [], pf_Key = [], pf_Insecure = False, pf_TUNName = ''masque0'', pf_MTU = 1369,
     pf_DNS = [''1.1.1.1''], pf_BindInterface = []\<rparr>"

definition demo_env :: "(tls_config \<Rightarrow> bool) \<Rightarrow> bool \<Rightarrow> connect_env" where
  "demo_env accept template =
     \<lparr>ce_resolve = (\<lambda>s. Some \<lparr>ua_IP = Addr4 0x0a000001, ua_Port = 53\<rparr>),
      ce_readFile = (\<lambda>f. if f = ''ca.pem'' then Some ''pem'' else None),
      ce_appendCerts = (\<lambda>c. True), ce_loadPair = (\<lambda>c k. False),
      ce_arrivals = (\<lambda>as. map (\<lambda>a. (a, \<lparr>de_listen = True, de_dial = accept\<rparr>)) (rev as)),
      ce_single = \<lparr>de_listen = True, de_dial = accept\<rparr>,
      ce_finish = \<lparr>fe_template = template, fe_request = True, fe_client = True, fe_status = Some 200,
        fe_prefixes = Some [prefix_from (Addr4 0x0a080006) 32], fe_routes = Some []\<rparr>\<rparr>"

definition world0 :: world where
  "world0 = \<lparr>w_next = 0, w_open = {}\<rparr>"

lemma world0_ok: "world_ok world0"
  by (simp add: world0_def world_ok_def)


text \<open>
  A server name that is no URI template leaks: the panic of the template parser is
  recovered in \<open>ConnectWithPacketConn\<close>, where the QUIC connection and its socket are out of
  reach. Whenever the dial succeeded, the connect fails and they stay open.
\<close>

theorem connect_template_leak:
  assumes "world_ok w" "\<not> fe_template (ce_finish env)" "Validate p = Inr q" "ce_resolve env (pf_Server q) = Some a"
    "buildTLSConfig (ce_readFile env) (ce_appendCerts env) (ce_loadPair env) q = Inr tls"
    "pf_AltPort q = 0" "de_listen (ce_single env)" "de_dial (ce_single env) tls"
  shows "\<exists>w' u c. Connect env p dev w = (w', Inl CPanic) \<and> u \<noteq> c \<and> u \<notin> w_open w \<and> c \<notin> w_open w \<and>
    w_open w' = w_open w \<union> {u, c}"
proof -
  have "dualDialAddrs (Some a) 0 = [a]" by (simp add: dualDialAddrs_def)
  moreover obtain w1 r where d: "listenAndDialQUIC tls (ce_single env) a w = (w1, r)" by fastforce
  moreover from assms(1) d obtain leg where leg: "r = Inr leg" "leg_from w leg w1" "\<exists>u c. leg_res leg = {u, c} \<and> u \<noteq> c"
  proof (cases rule: listenAndDialQUIC_cases)
    case (up leg)
    from up(6) have "\<exists>u c. leg_res leg = {u, c} \<and> u \<noteq> c" by blast
    with up(1,2) show ?thesis by (rule that)
  next
    case down
    with assms(7,8) show ?thesis by simp
  qed
  ultimately have c: "Connect env p dev w = (w1, Inl CPanic)"
    by (simp add: Connect_def ConnectWithPacketConn_def finishCONNECTIP_def Let_def assms(2-6))
  from leg(3) obtain u c where u: "leg_res leg = {u, c}" "u \<noteq> c" by blast
  have "u \<notin> w_open w" "c \<notin> w_open w" "w_open w1 = w_open w \<union> {u, c}"
    using leg(2) u(1) by (simp_all add: leg_from_def)
  with c u(2) show ?thesis by (intro exI[of _ w1] exI[of _ u] exI[of _ c] conjI)
qed

definition bad_name_profile :: profile where
  "bad_name_profile = client_profile\<lparr>pf_ServerName := ''vpn{'', pf_AltPort := 0\<rparr>"

theorem connect_template_leak_witness:
  "\<exists>w' u c. Connect (demo_env (\<lambda>c. True) False) bad_name_profile False world0 = (w', Inl CPanic) \<and>
     u \<noteq> c \<and> w_open w' = {u, c}"
proof -
  let ?env = "demo_env (\<lambda>c. True) False"
  have v: "Validate bad_name_profile = Inr bad_name_profile" by code_simp
  have "is_ok (buildTLSConfig (ce_readFile ?env) (ce_appendCerts ?env) (ce_loadPair ?env) bad_name_profile)"
    by code_simp
  then obtain tls where tls: "buildTLSConfig (ce_readFile ?env) (ce_appendCerts ?env) (ce_loadPair ?env) bad_name_profile = Inr tls"
    by (auto simp: is_ok_iff)
  have r: "ce_resolve ?env (pf_Server bad_name_profile) = Some \<lparr>ua_IP = Addr4 0x0a000001, ua_Port = 53\<rparr>"
    by (simp add: demo_env_def)
  have "\<exists>w' u c. Connect ?env bad_name_profile False world0 = (w', Inl CPanic) \<and> u \<noteq> c \<and>
      u \<notin> w_open world0 \<and> c \<notin> w_open world0 \<and> w_open w' = w_open world0 \<union> {u, c}"
    by (rule connect_template_leak[OF world0_ok _ v r tls]) (simp_all add: demo_env_def bad_name_profile_def)
  then show ?thesis by (auto simp: world0_def)
qed

section \<open>The race between the ports\<close>

text \<open>
  C30. The dual-port race keeps exactly one connection: the first successful handshake in the
  order of arrival, with its address; every other leg is closed, whether it failed or came
  too late. If none succeeds nothing stays open and the error lists one cause for every
  address, in the order of arrival.
\<close>

theorem race_first_success:
  assumes "world_ok w" "raceQUIC tls arrivals w = (w', r)"
  shows "case filter (leg_up tls) arrivals of
      [] \<Rightarrow> w_open w' = w_open w \<and> (\<exists>errs. r = Inl (CAllPorts errs) \<and> map fst errs = map (udp_string \<circ> fst) arrivals)
    | (a, env) # late \<Rightarrow> \<exists>leg. r = Inr leg \<and> lg_addr leg = udp_string a \<and>
        w_open w' = w_open w \<union> leg_res leg \<and> w_open (leg_close leg w') = w_open w"
proof -
  obtain w1 win errs where l: "race_loop tls arrivals None [] w = (w1, win, errs)"
    by (cases "race_loop tls arrivals None [] w")
  note n = race_loop_winner[OF assms(1) l] and f = raceQUIC_from[OF assms]
  show ?thesis
  proof (cases "filter (leg_up tls) arrivals")
    case Nil
    then have "filter (Not \<circ> leg_up tls) arrivals = arrivals" by (auto simp: filter_empty_conv filter_id_conv)
    with Nil n f l assms(2) show ?thesis by (auto simp: raceQUIC_def)
  next
    case (Cons x late)
    obtain a env where x: "x = (a, env)" by (cases x)
    with Cons n obtain leg where "win = Some leg" "lg_addr leg = udp_string a" by auto
    with Cons x f l assms(2) leg_from_close show ?thesis by (auto simp: raceQUIC_def leg_from_def)
  qed
qed

definition demo_arrivals :: "(udp_addr \<times> dial_env) list" where
  "demo_arrivals =
     [(\<lparr>ua_IP = Addr4 0x0a000001, ua_Port = 53\<rparr>, \<lparr>de_listen = True, de_dial = (\<lambda>c. False)\<rparr>),
      (\<lparr>ua_IP = Addr4 0x0a000001, ua_Port = 80\<rparr>, \<lparr>de_listen = True, de_dial = (\<lambda>c. True)\<rparr>),
      (\<lparr>ua_IP = Addr4 0x0a000001, ua_Port = 81\<rparr>, \<lparr>de_listen = True, de_dial = (\<lambda>c. True)\<rparr>)]"

definition demo_tls :: tls_config where
  "demo_tls = \<lparr>tc_ServerName = ''vpn'', tc_NextProtos = [''h3''], tc_RootCAs = None, tc_InsecureSkipVerify = True,
     tc_Certificates = []\<rparr>"

theorem race_first_success_witness:
  "\<exists>leg. snd (raceQUIC demo_tls demo_arrivals world0) = Inr leg \<and> lg_addr leg = ''10.0.0.1:80''"
proof -
  obtain w' r where c: "raceQUIC demo_tls demo_arrivals world0 = (w', r)" by fastforce
  have f: "map fst (filter (leg_up demo_tls) demo_arrivals) =
      [\<lparr>ua_IP = Addr4 0x0a000001, ua_Port = 80\<rparr>, \<lparr>ua_IP = Addr4 0x0a000001, ua_Port = 81\<rparr>]"
    by (simp add: demo_arrivals_def leg_up_def)
  have "udp_string \<lparr>ua_IP = Addr4 0x0a000001, ua_Port = 80\<rparr> = ''10.0.0.1:80''" by code_simp
  with race_first_success[OF world0_ok c] f c show ?thesis
    by (cases "filter (leg_up demo_tls) demo_arrivals") (auto split: prod.splits)
qed

end
