(* ===== verification/ClientRun.thy ===== *)
theory ClientRun
  imports ClientProps
begin

text \<open>Whom the client connects to, and what a running session forwards.\<close>

section \<open>Server authentication\<close>

lemma buildTLSConfig_spec:
  assumes "buildTLSConfig rf ac lp p = Inr c"
  shows "tc_ServerName c = pf_ServerName p" "tc_InsecureSkipVerify c = pf_Insecure p" "tc_NextProtos c = [''h3'']"
    "\<not> pf_Insecure p \<Longrightarrow> \<exists>pem. rf (pf_CA p) = Some pem \<and> ac pem \<and> tc_RootCAs c = Some pem"
  using assms
  by (auto simp: buildTLSConfig_def Let_def res_bind_def split: if_splits option.splits sum.splits)

lemma Validate_keeps:
  assumes "Validate p = Inr q"
  shows "pf_Server q = pf_Server p" "pf_ServerName q = pf_ServerName p" "pf_Insecure q = pf_Insecure p"
    "pf_CA q = pf_CA p" "pf_AltPort q = pf_AltPort p"
  using assms by (auto simp: Validate_def Let_def split: if_splits option.splits)

text \<open>Everyone the client may reach refuses a handshake that verifies against a CA of the profile.\<close>

definition dial_envs :: "connect_env \<Rightarrow> dial_env set" where
  "dial_envs env = insert (ce_single env) {e. \<exists>as a. (a, e) \<in> set (ce_arrivals env as)}"

definition impostor :: "connect_env \<Rightarrow> profile \<Rightarrow> bool" where
  "impostor env p \<longleftrightarrow>
     (\<forall>e \<in> dial_envs env. \<forall>c. \<not> tc_InsecureSkipVerify c \<and> tc_ServerName c = pf_ServerName p \<and>
        tc_RootCAs c = ce_readFile env (pf_CA p) \<and> tc_RootCAs c \<noteq> None \<longrightarrow> \<not> de_dial e c)"

lemma dial_outcome_env:
  assumes "world_ok w" "dial_outcome env tls a alt pc w = (w', Inr leg)"
  shows "\<exists>e \<in> dial_envs env. de_dial e tls"
proof -
  consider (pc) "pc" | (one) "\<not> pc" "length (dualDialAddrs (Some a) alt) = 1"
    | (race) "\<not> pc" "length (dualDialAddrs (Some a) alt) \<noteq> 1" by blast
  then show ?thesis
  proof cases
    case pc
    with assms(2) have "de_dial (ce_single env) tls"
      by (auto simp: dial_outcome_def leg_dial_def split: if_splits)
    then show ?thesis by (auto simp: dial_envs_def)
  next
    case one
    with assms(2) have "listenAndDialQUIC tls (ce_single env) (hd (dualDialAddrs (Some a) alt)) w = (w', Inr leg)"
      by (simp add: dial_outcome_def)
    with assms(1) show ?thesis by (cases rule: listenAndDialQUIC_cases) (auto simp: dial_envs_def)
  next
    case race
    let ?as = "ce_arrivals env (dualDialAddrs (Some a) alt)"
    obtain w1 win errs where l: "race_loop tls ?as None [] w = (w1, win, errs)"
      by (cases "race_loop tls ?as None [] w")
    from race assms(2) l have "win = Some leg"
      by (auto simp: dial_outcome_def raceQUIC_def split: option.splits)
    with race_loop_winner[OF assms(1) l] obtain x rest where "filter (leg_up tls) ?as = x # rest"
      by (cases "filter (leg_up tls) ?as") auto
    then have "x \<in> set (filter (leg_up tls) ?as)" by simp
    then have x: "x \<in> set ?as" "de_dial (snd x) tls" by (simp_all add: leg_up_def)
    then have "(fst x, snd x) \<in> set ?as" by simp
    then have "snd x \<in> dial_envs env" unfolding dial_envs_def by blast
    with x(2) show ?thesis by blast
  qed
qed

text \<open>
  Without the insecure switch no session comes about with a server that cannot prove its
  identity: if everyone reachable refuses every handshake that verifies against the CA of
  the profile under the profile's server name, connecting fails and leaves nothing open.
\<close>

theorem impostor_rejected:
  assumes "world_ok w" "\<not> pf_Insecure p" "impostor env p" "ConnectWithPacketConn env p dev pc w = (w', r)"
  shows "(\<exists>e. r = Inl e) \<and> w_open w' = w_open w"
  using assms(4)
proof (cases rule: Connect_cases)
  case (failed q a tls e)
  from dial_outcome_from[OF assms(1) failed(4)] failed(5) show ?thesis by simp
next
  case (dialed q a tls w1 leg)
  note tls = buildTLSConfig_spec[OF dialed(3)] and q = Validate_keeps[OF dialed(1)]
  from tls(4) q assms(2) obtain pem where pem: "ce_readFile env (pf_CA p) = Some pem" "tc_RootCAs tls = Some pem" by auto
  have "\<not> de_dial e tls" if "e \<in> dial_envs env" for e
    using assms(2,3) tls(1,2) q pem that unfolding impostor_def by auto
  with dial_outcome_env[OF assms(1) dialed(4)] show ?thesis by blast
qed simp

theorem impostor_rejected_witness:
  "\<exists>w' e. ConnectWithPacketConn (demo_env tc_InsecureSkipVerify True) client_profile False False world0 = (w', Inl e) \<and>
     w_open w' = {}"
proof -
  let ?env = "demo_env tc_InsecureSkipVerify True"
  obtain w' r where c: "ConnectWithPacketConn ?env client_profile False False world0 = (w', r)" by fastforce
  have "\<not> pf_Insecure client_profile" by (simp add: client_profile_def)
  moreover have "impostor ?env client_profile"
    by (auto simp: impostor_def dial_envs_def demo_env_def)
  ultimately show ?thesis using impostor_rejected[OF world0_ok _ _ c] c by (auto simp: world0_def)
qed

section \<open>One packet\<close>

lemma prepareOutgoing_drops:
  assumes "\<forall>x \<in> set ps. prefix_wf x" "assigned_src p ps \<noteq> NoAddr"
  shows "ip_version p = 4 \<and> 20 \<le> length p \<or> ip_version p = 6 \<and> 40 \<le> length p"
  using assms by (auto simp: assigned_src_def split: if_splits)

lemma assigned_src_normalize [simp]: "assigned_src (fst (normalizeTTL p)) ps = assigned_src p ps"
  by (simp add: assigned_src_def ttl.rw_version ttl.rw_length)

lemma outgoing_spec:
  assumes ps: "\<forall>x \<in> set ps. prefix_wf x"
  shows "case outgoing ps p of
      None \<Rightarrow> assigned_src p ps = NoAddr
    | Some q \<Rightarrow> assigned_src p ps \<noteq> NoAddr \<and> src_of q = assigned_src p ps \<and> 2 \<le> uint (hop_limit q) \<and>
        length q = length p \<and> dstIP q = dstIP p \<and> drop 24 q = drop 24 p \<and>
        (ip_version p = 4 \<and> header_ok p \<longrightarrow> header_ok q)"
proof -
  let ?n = "fst (normalizeTTL p)"
  obtain t f where n: "normalizeTTL p = (?n, t, f)" by (cases "normalizeTTL p") auto
  obtain q d rw where po: "prepareOutgoing ?n ps = (q, d, rw)" by (cases "prepareOutgoing ?n ps")
  note r = prepareOutgoing_result[OF ps po]
  show ?thesis
  proof (cases d)
    case True
    with r po show ?thesis by (simp add: outgoing_def)
  next
    case False
    with r have a: "assigned_src p ps \<noteq> NoAddr" by simp
    note l = prepareOutgoing_drops[OF ps a]
    have "hop_limit q = hop_limit ?n"
      by (rule prepareOutgoing_hop_limit[of _ ps]) (use po l in \<open>auto simp: ttl.rw_length\<close>)
    with normalizeTTL_hop_limit[OF l] have hop: "2 \<le> uint (hop_limit q)" by simp
    have "drop 12 ?n = drop 12 p" by (rule ttl.rw_payload) (auto simp: touched_ttl_def split: if_splits)
    then have "drop 12 (drop 12 ?n) = drop 12 (drop 12 p)" by simp
    then have pay: "drop 24 q = drop 24 p" using r by simp
    have "header_ok ?n" if "ip_version p = 4 \<and> header_ok p"
      using normalizeTTL_result[OF n] that by (cases f) auto
    then have "header_ok q" if "ip_version p = 4 \<and> header_ok p"
      using r that False by (cases rw) (auto simp: ttl.rw_version)
    with a hop pay r False po show ?thesis
      by (simp add: outgoing_def ttl.rw_length ttl.rw_dstIP)
  qed
qed

section \<open>The forwarding loop\<close>

definition conn_packets :: "run_event list \<Rightarrow> bytes list" where
  "conn_packets evs = List.map_filter (\<lambda>e. case e of ConnPacket p _ \<Rightarrow> Some p | _ \<Rightarrow> None) evs"

definition tun_packets :: "run_event list \<Rightarrow> bytes list" where
  "tun_packets evs = concat (map (\<lambda>e. case e of TunRead b \<Rightarrow> map fst b | _ \<Rightarrow> []) evs)"

lemma packets_simps [simp]:
  "conn_packets [] = []" "conn_packets (ConnPacket p ok # evs) = p # conn_packets evs"
  "conn_packets (TunRead b # evs) = conn_packets evs"
  "tun_packets [] = []" "tun_packets (ConnPacket p ok # evs) = tun_packets evs"
  "tun_packets (TunRead b # evs) = map fst b @ tun_packets evs"
  "tun_packets (ConnReadErr # evs) = tun_packets evs" "tun_packets (TunReadErr # evs) = tun_packets evs"
  "tun_packets (CtxDone # evs) = tun_packets evs"
  by (simp_all add: conn_packets_def tun_packets_def map_filter_simps)

lemma map_filter_append: "List.map_filter f (xs @ ys) = List.map_filter f xs @ List.map_filter f ys"
  by (simp add: List.map_filter_def)

lemma send_batch_sent:
  "send_batch ps b = (sent, good) \<Longrightarrow>
   prefix sent (List.map_filter (outgoing ps) (map fst b)) \<and>
   (good \<longrightarrow> sent = List.map_filter (outgoing ps) (map fst b))"
proof (induction ps b arbitrary: sent good rule: send_batch.induct)
  case (2 ps pkt ok rest)
  then show ?case
    by (cases "outgoing ps pkt") (auto simp: map_filter_simps split: if_splits prod.splits)
qed (simp add: map_filter_simps)

lemma run_loop_forwards:
  "run_loop ps evs tun conn = (tun', conn', r) \<Longrightarrow>
   \<exists>t c. tun' = tun @ t \<and> conn' = conn @ c \<and> prefix t (conn_packets evs) \<and>
     prefix c (List.map_filter (outgoing ps) (tun_packets evs)) \<and>
     (r = StillRunning \<longrightarrow> t = conn_packets evs \<and> c = List.map_filter (outgoing ps) (tun_packets evs)) \<and>
     r \<noteq> NoDevice"
proof (induction ps evs tun conn rule: run_loop.induct)
  case (2 ps pkt ok evs tun conn)
  show ?case
  proof (cases ok)
    case True
    with "2.IH" "2.prems" show ?thesis by fastforce
  next
    case False
    with "2.prems" show ?thesis by auto
  qed
next
  case (6 ps b evs tun conn)
  obtain sent good where s: "send_batch ps b = (sent, good)" by (cases "send_batch ps b")
  note sb = send_batch_sent[OF s]
  show ?case
  proof (cases good)
    case True
    with s have s': "(sent, True) = send_batch ps b" by simp
    from "6.prems" s True have "run_loop ps evs tun (conn @ sent) = (tun', conn', r)" by simp
    from "6.IH"[OF s' refl this] sb True show ?thesis by (fastforce simp: map_filter_append)
  next
    case False
    with "6.prems" s sb show ?thesis by (auto simp: map_filter_append prefix_append)
  qed
qed (auto simp: map_filter_simps)

lemma outgoing_some:
  assumes "\<forall>x \<in> set ps. prefix_wf x" "q \<in> set (List.map_filter (outgoing ps) pkts)"
  shows "\<exists>p \<in> set pkts. assigned_src p ps \<noteq> NoAddr \<and> src_of q = assigned_src p ps \<and> 2 \<le> uint (hop_limit q) \<and>
    length q = length p \<and> dstIP q = dstIP p \<and> drop 24 q = drop 24 p"
proof -
  from assms(2) obtain p where "p \<in> set pkts" "outgoing ps p = Some q" by (auto simp: List.map_filter_def)
  with outgoing_spec[OF assms(1), of p] show ?thesis by auto
qed

text \<open>
  A running session forwards both ways in order and adds nothing: the device gets a prefix
  of the packets the connection delivered, the server a prefix of the device's packets as
  prepared, each with the assigned source of its family, a hop limit of at least 2 and the
  length, destination and payload of the packet it came from. While the session runs
  nothing read is missing, and when it stops, for whatever reason, it is closed.
\<close>

theorem session_run_forwards:
  assumes "\<forall>x \<in> set (ss_AssignedPrefixes s). prefix_wf x" "Session_Run s evs w = (w', s', tun, conn, r)"
  shows "prefix tun (conn_packets evs) \<and>
    prefix conn (List.map_filter (outgoing (ss_AssignedPrefixes s)) (tun_packets evs)) \<and>
    (\<forall>q \<in> set conn. \<exists>p \<in> set (tun_packets evs). assigned_src p (ss_AssignedPrefixes s) \<noteq> NoAddr \<and>
       src_of q = assigned_src p (ss_AssignedPrefixes s) \<and> 2 \<le> uint (hop_limit q) \<and>
       length q = length p \<and> dstIP q = dstIP p \<and> drop 24 q = drop 24 p) \<and>
    (if r = NoDevice then \<not> ss_dev s
     else if r = StillRunning then s' = s \<and> tun = conn_packets evs \<and>
       conn = List.map_filter (outgoing (ss_AssignedPrefixes s)) (tun_packets evs)
     else ss_done s' \<and> w_open w' = w_open w - sess_res s)"
proof (cases "ss_dev s")
  case False
  with assms(2) show ?thesis by (auto simp: Session_Run_def)
next
  case True
  let ?ps = "ss_AssignedPrefixes s"
  obtain t c x where l: "run_loop ?ps evs [] [] = (t, c, x)" by (cases "run_loop ?ps evs [] []")
  from run_loop_forwards[OF l] have f: "prefix t (conn_packets evs)"
    "prefix c (List.map_filter (outgoing ?ps) (tun_packets evs))" "x \<noteq> NoDevice"
    "x = StillRunning \<Longrightarrow> t = conn_packets evs \<and> c = List.map_filter (outgoing ?ps) (tun_packets evs)" by auto
  have r: "tun = t" "conn = c" "r = x" "x = StillRunning \<Longrightarrow> s' = s"
    "x \<noteq> StillRunning \<Longrightarrow> w' = fst (Session_Close s w) \<and> s' = snd (Session_Close s w)"
    using assms(2) True l by (auto simp: Session_Run_def split: run_result.splits prod.splits)
  have "set c \<subseteq> set (List.map_filter (outgoing ?ps) (tun_packets evs))"
    using f(2) by (auto simp: prefix_def)
  then have "\<forall>q \<in> set c. \<exists>p \<in> set (tun_packets evs). assigned_src p ?ps \<noteq> NoAddr \<and> src_of q = assigned_src p ?ps \<and>
      2 \<le> uint (hop_limit q) \<and> length q = length p \<and> dstIP q = dstIP p \<and> drop 24 q = drop 24 p"
    using outgoing_some[OF assms(1)] by blast
  with f r show ?thesis by (simp add: Session_Close_done)
qed

definition demo_session :: session where
  "demo_session = \<lparr>ss_udpConn = None, ss_ownUDP = False, ss_qconn = None, ss_ipconn = None, ss_dev = True,
     ss_AssignedPrefixes = demo_assigned, ss_Routes = [], ss_DialAddr = [], ss_done = False\<rparr>"

theorem session_run_forwards_witness:
  "\<exists>w' s' tun q. Session_Run demo_session [TunRead [(demo_packet, True)], CtxDone] world0 = (w', s', tun, [q], Cancelled) \<and>
     src_of q = Addr4 0x0a080006 \<and> 2 \<le> uint (hop_limit q)"
proof -
  let ?evs = "[TunRead [(demo_packet, True)], CtxDone]"
  obtain w' s' tun conn r where c: "Session_Run demo_session ?evs world0 = (w', s', tun, conn, r)"
    by (metis prod_cases5)
  have "snd (snd (snd (snd (Session_Run demo_session ?evs world0)))) = Cancelled"
    "length (fst (snd (snd (snd (Session_Run demo_session ?evs world0))))) = 1"
    "assigned_src demo_packet demo_assigned = Addr4 0x0a080006" by code_simp+
  with c obtain q where q: "conn = [q]" "r = Cancelled" "assigned_src demo_packet demo_assigned = Addr4 0x0a080006"
    by (auto simp: length_Suc_conv)
  have "\<forall>x \<in> set (ss_AssignedPrefixes demo_session). prefix_wf x"
    by (simp add: demo_session_def demo_assigned_def prefix_from_def prefix_wf_def)
  from session_run_forwards[OF this c] q have "src_of q = Addr4 0x0a080006 \<and> 2 \<le> uint (hop_limit q)"
    by (simp add: demo_session_def)
  with c q show ?thesis by blast
qed

end
