(* ===== verification/Pump.thy ===== *)
theory Pump
  imports ClientRun
begin

text \<open>
  The reconnecting pump (\<open>internal/clientcore/pump.go\<close>): one TUN device, a session that is
  replaced when it dies. The goroutine of \<open>Run\<close> and the TUN reader are step machines over
  shared memory; a step is one statement of the code up to the next access to shared state or
  the next blocking call, and every interleaving of steps is a list of events. The redial
  function is the argument it is in the code.
\<close>

section \<open>Shared memory\<close>

text \<open>Sessions are shared by pointer: a pointer is an index into the sessions ever dialled.\<close>

record mem = world +
  sessions :: "session list"
  ctx_done :: bool

definition close_session :: "nat \<Rightarrow> 'x mem_scheme \<Rightarrow> 'x mem_scheme" where
  "close_session i m =
     (case Session_Close (sessions m ! i) m of
        (m, s) \<Rightarrow> m\<lparr>sessions := (sessions m)[i := s]\<rparr>)"

datatype tun_error = DevRead | DevWrite

datatype pump_result = PNoDevice | PCancelled | PTunFailed tun_error

text \<open>The statement of \<open>Run\<close> to execute next. \<open>RRecv\<close> is blocked in \<open>ReadPacket\<close>.\<close>

datatype run_pc = RTop | RTun | RSess | RDial | RFailed | RSleep | RCheck nat | RSet nat
  | RRead nat | RRecv nat | RClose | RAfter | RReturn pump_result | RDone pump_result

text \<open>The TUN reader. \<open>TIdle\<close> is blocked in the device's \<open>Read\<close>.\<close>

datatype tun_pc = TIdle | TErr | TGot "bytes list" | TPick "bytes list" | TSend nat "bytes list" | TDone

text \<open>\<open>pm_sent\<close> and \<open>pm_delivered\<close> record what was written to sessions and to the device.\<close>

record pump = mem +
  pm_sess :: "nat option"
  pm_dev :: bool
  pm_tunErr :: "tun_error option"
  pm_backoff :: int
  pm_run :: run_pc
  pm_tun :: tun_pc
  pm_sent :: "(nat \<times> bytes) list"
  pm_delivered :: "bytes list"

definition reconnectMinBackoff :: int where "reconnectMinBackoff = 1"
definition reconnectMaxBackoff :: int where "reconnectMaxBackoff = 15"

section \<open>Methods\<close>

definition attach_tun :: "bool \<Rightarrow> nat \<Rightarrow> 'x mem_scheme \<Rightarrow> 'x mem_scheme" where
  "attach_tun dev i m = m\<lparr>sessions := (sessions m)[i := AttachTUN dev (sessions m ! i)]\<rparr>"

definition setSession :: "nat \<Rightarrow> 'x pump_scheme \<Rightarrow> 'x pump_scheme" where
  "setSession i p = p\<lparr>pm_sess := Some i\<rparr>"

definition closeSession :: "'x pump_scheme \<Rightarrow> 'x pump_scheme" where
  "closeSession p =
     (let s = pm_sess p; p = p\<lparr>pm_sess := None\<rparr>
      in case s of None \<Rightarrow> p | Some i \<Rightarrow> close_session i p)"

definition setTunErr :: "tun_error \<Rightarrow> 'x pump_scheme \<Rightarrow> 'x pump_scheme" where
  "setTunErr e p = (if pm_tunErr p = None then p\<lparr>pm_tunErr := Some e\<rparr> else p)"

definition Pump_RTT :: "(resource \<Rightarrow> int) \<Rightarrow> 'x pump_scheme \<Rightarrow> int" where
  "Pump_RTT smoothed p = Session_RTT smoothed (map_option ((!) (sessions p)) (pm_sess p))"

definition next_backoff :: "int \<Rightarrow> int" where
  "next_backoff b = (if 2 * b > reconnectMaxBackoff then reconnectMaxBackoff else 2 * b)"

section \<open>Steps\<close>

datatype 'd pump_event =
  EvCancel | EvRun | EvRedial 'd | EvTimer bool | EvConnPacket bytes bool | EvConnErr
| EvTun | EvTunBatch "bytes list" | EvTunErr | EvWrite bool

type_synonym ('d, 'x) redial = "'d \<Rightarrow> 'x pump_scheme \<Rightarrow> 'x pump_scheme \<times> (connect_error + nat)"

definition goto :: "run_pc \<Rightarrow> 'x pump_scheme \<Rightarrow> 'x pump_scheme" where
  "goto pc p = p\<lparr>pm_run := pc\<rparr>"

text \<open>Statements of \<open>Run\<close> and \<open>readConn\<close> that do not block.\<close>

definition run_step :: "'x pump_scheme \<Rightarrow> 'x pump_scheme" where
  "run_step p =
     (case pm_run p of
        RTop \<Rightarrow> goto (if ctx_done p then RReturn PCancelled else RTun) p
      | RTun \<Rightarrow> goto (case pm_tunErr p of Some e \<Rightarrow> RReturn (PTunFailed e) | None \<Rightarrow> RSess) p
      | RSess \<Rightarrow> goto (case pm_sess p of None \<Rightarrow> RDial | Some i \<Rightarrow> RRead i) p
      | RFailed \<Rightarrow> goto (if ctx_done p then RReturn PCancelled else RSleep) p
      | RCheck i \<Rightarrow>
          (case pm_tunErr p of
             Some e \<Rightarrow> goto (RReturn (PTunFailed e)) (close_session i p)
           | None \<Rightarrow> goto (RSet i) p)
      | RSet i \<Rightarrow> goto (RRead i) ((setSession i (attach_tun (pm_dev p) i p))\<lparr>pm_backoff := reconnectMinBackoff\<rparr>)
      | RRead i \<Rightarrow> goto (if ctx_done p then RClose else RRecv i) p
      | RClose \<Rightarrow> goto RAfter (closeSession p)
      | RAfter \<Rightarrow>
          goto (if ctx_done p then RDone PCancelled
                else case pm_tunErr p of Some e \<Rightarrow> RDone (PTunFailed e) | None \<Rightarrow> RTop) p
      | RReturn r \<Rightarrow> goto (RDone r) (closeSession p)
      | _ \<Rightarrow> p)"

text \<open>The end of the backoff sleep; without the timer it ends only when the context is done.\<close>

definition sleep_step :: "bool \<Rightarrow> 'x pump_scheme \<Rightarrow> 'x pump_scheme" where
  "sleep_step timer p =
     (if pm_run p = RSleep \<and> timer then goto RTop (p\<lparr>pm_backoff := next_backoff (pm_backoff p)\<rparr>)
      else if pm_run p = RSleep \<and> ctx_done p then goto (RReturn PCancelled) p
      else p)"

definition redial_step :: "('d, 'x) redial \<Rightarrow> 'd \<Rightarrow> 'x pump_scheme \<Rightarrow> 'x pump_scheme" where
  "redial_step redial d p =
     (if pm_run p = RDial then
        (case redial d p of
           (p, Inl _) \<Rightarrow> goto RFailed p
         | (p, Inr i) \<Rightarrow> goto (RCheck i) p)
      else p)"

text \<open>\<open>ReadPacket\<close> returns an error or a packet, whose write to the device may fail.\<close>

definition recv_step :: "(bytes \<times> bool) option \<Rightarrow> 'x pump_scheme \<Rightarrow> 'x pump_scheme" where
  "recv_step r p =
     (case pm_run p of
        RRecv i \<Rightarrow>
          (case r of
             None \<Rightarrow> goto RClose p
           | Some (pkt, ok) \<Rightarrow>
               if ok then goto (RRead i) (p\<lparr>pm_delivered := pm_delivered p @ [pkt]\<rparr>)
               else goto RClose (setTunErr DevWrite p))
      | _ \<Rightarrow> p)"

text \<open>The device's \<open>Read\<close> returns a batch or an error.\<close>

definition tun_read_step :: "bytes list option \<Rightarrow> 'x pump_scheme \<Rightarrow> 'x pump_scheme" where
  "tun_read_step r p =
     (if pm_tun p = TIdle then
        (case r of
           None \<Rightarrow> (setTunErr DevRead p)\<lparr>pm_tun := TErr\<rparr>
         | Some pkts \<Rightarrow> p\<lparr>pm_tun := TGot pkts\<rparr>)
      else p)"

definition tun_step :: "'x pump_scheme \<Rightarrow> 'x pump_scheme" where
  "tun_step p =
     (case pm_tun p of
        TErr \<Rightarrow> (closeSession p)\<lparr>pm_tun := TDone\<rparr>
      | TGot pkts \<Rightarrow> p\<lparr>pm_tun := if ctx_done p then TDone else TPick pkts\<rparr>
      | TPick pkts \<Rightarrow>
          p\<lparr>pm_tun := (case pm_sess p of
              None \<Rightarrow> TIdle
            | Some i \<Rightarrow> if ss_ipconn (sessions p ! i) = None then TIdle else TSend i pkts)\<rparr>
      | TSend i [] \<Rightarrow> p\<lparr>pm_tun := TIdle\<rparr>
      | TSend i (pkt # pkts) \<Rightarrow>
          (if outgoing (ss_AssignedPrefixes (sessions p ! i)) pkt = None then p\<lparr>pm_tun := TSend i pkts\<rparr> else p)
      | _ \<Rightarrow> p)"

definition write_step :: "bool \<Rightarrow> 'x pump_scheme \<Rightarrow> 'x pump_scheme" where
  "write_step ok p =
     (case pm_tun p of
        TSend i (pkt # pkts) \<Rightarrow>
          (case outgoing (ss_AssignedPrefixes (sessions p ! i)) pkt of
             None \<Rightarrow> p
           | Some q \<Rightarrow>
               if ok then p\<lparr>pm_sent := pm_sent p @ [(i, q)], pm_tun := TSend i pkts\<rparr>
               else p\<lparr>pm_tun := TIdle\<rparr>)
      | _ \<Rightarrow> p)"

fun pump_step :: "('d, 'x) redial \<Rightarrow> 'd pump_event \<Rightarrow> 'x pump_scheme \<Rightarrow> 'x pump_scheme" where
  "pump_step redial EvCancel p = p\<lparr>ctx_done := True\<rparr>"
| "pump_step redial EvRun p = run_step p"
| "pump_step redial (EvRedial d) p = redial_step redial d p"
| "pump_step redial (EvTimer t) p = sleep_step t p"
| "pump_step redial (EvConnPacket pkt ok) p = recv_step (Some (pkt, ok)) p"
| "pump_step redial EvConnErr p = recv_step None p"
| "pump_step redial EvTun p = tun_step p"
| "pump_step redial (EvTunBatch pkts) p = tun_read_step (Some pkts) p"
| "pump_step redial EvTunErr p = tun_read_step None p"
| "pump_step redial (EvWrite ok) p = write_step ok p"

definition pump_exec :: "('d, 'x) redial \<Rightarrow> 'd pump_event list \<Rightarrow> 'x pump_scheme \<Rightarrow> 'x pump_scheme" where
  "pump_exec redial evs p = fold (pump_step redial) evs p"

text \<open>\<open>NewPump\<close> and the start of \<open>Run\<close>, which refuses to run without a device.\<close>

definition NewPump :: "nat option \<Rightarrow> bool \<Rightarrow> 'x pump_scheme \<Rightarrow> 'x pump_scheme" where
  "NewPump s dev m =
     (let m = (case s of None \<Rightarrow> m | Some i \<Rightarrow> attach_tun dev i m)
      in m\<lparr>pm_sess := s, pm_dev := dev, pm_tunErr := None\<rparr>)"

definition Pump_Run :: "'x pump_scheme \<Rightarrow> 'x pump_scheme" where
  "Pump_Run p =
     (if \<not> pm_dev p then p\<lparr>pm_run := RDone PNoDevice, pm_tun := TDone\<rparr>
      else p\<lparr>pm_run := RTop, pm_tun := TIdle, pm_backoff := reconnectMinBackoff, pm_sent := [], pm_delivered := []\<rparr>)"

end
