(* ===== verification/PumpProps.thy ===== *)
theory PumpProps
  imports Pump
begin

text \<open>
  The pump under every interleaving of its two goroutines: accounting of the sessions it
  dials, the reasons for which it returns, its backoff, what it sends, and how it ends.
\<close>

section \<open>Accounting\<close>

definition acc :: "resource set \<Rightarrow> 'x mem_scheme \<Rightarrow> bool" where
  "acc B m \<longleftrightarrow> cl.accounts m B (sessions m)"

lemma accounts_cong:
  "w_open m' = w_open m \<Longrightarrow> w_next m' = w_next m \<Longrightarrow> cl.accounts m' B h = cl.accounts m B h"
  by (simp add: cl.accounts_def world_ok_def)

lemma accounts_res:
  "cl.accounts m B h \<Longrightarrow> i < length h \<Longrightarrow> sess_res s = sess_res (h ! i) \<Longrightarrow> cl.accounts m B (h[i := s])"
proof -
  assume a: "cl.accounts m B h" and i: "i < length h" and s: "sess_res s = sess_res (h ! i)"
  have "sess_res (h[i := s] ! j) = sess_res (h ! j)" if "j < length h" for j
    using that i s by (cases "j = i") auto
  moreover from this have "sess_res ` set (h[i := s]) = sess_res ` set h"
    unfolding set_conv_nth by (auto simp: image_def)
  ultimately show ?thesis using a by (simp add: cl.accounts_def)
qed

lemma Session_Close_world:
  "\<exists>o'. fst (Session_Close s w) = w\<lparr>w_open := o'\<rparr>"
proof -
  have c: "\<exists>o'. close_res ro w = w\<lparr>w_open := o'\<rparr>" for ro and w :: "'a world_scheme"
    by (cases ro) (auto simp: close_res_def intro: exI[of _ "w_open w"])
  then show ?thesis
    by (auto simp: Session_Close_def Let_def close_res_def split: option.splits intro: exI[of _ "w_open w"])
qed

lemma close_session_eq:
  "close_session i m = m\<lparr>w_open := w_open m - sess_res (sessions m ! i),
     sessions := (sessions m)[i := (sessions m ! i)\<lparr>ss_done := True\<rparr>]\<rparr>"
proof -
  obtain m' s where c: "Session_Close (sessions m ! i) m = (m', s)" by (cases "Session_Close (sessions m ! i) m")
  have "w_open m' = w_open m - sess_res (sessions m ! i)" using Session_Close_open[of "sessions m ! i" m] c by simp
  moreover obtain o' where "m' = m\<lparr>w_open := o'\<rparr>" using Session_Close_world[of "sessions m ! i" m] c by auto
  moreover have "s = (sessions m ! i)\<lparr>ss_done := True\<rparr>"
    using c by (auto simp: Session_Close_def Let_def split: if_splits)
  ultimately show ?thesis using c by (simp add: close_session_def)
qed

lemma acc_close_session:
  assumes "acc B m" "i < length (sessions m)"
  shows "acc B (close_session i m)"
proof -
  obtain m' s where c: "Session_Close (sessions m ! i) m = (m', s)" by (cases "Session_Close (sessions m ! i) m")
  obtain o' where w: "m' = m\<lparr>w_open := o'\<rparr>" using Session_Close_world[of "sessions m ! i" m] c by auto
  have "close_session i m = m'\<lparr>sessions := (sessions m)[i := s]\<rparr>" unfolding close_session_def c w by simp
  with cl.accounts_close[OF assms(1)[unfolded acc_def] assms(2) c] show ?thesis
    by (simp add: acc_def accounts_cong[of "m'\<lparr>sessions := _\<rparr>" m'])
qed

lemma acc_cong:
  "acc B m \<Longrightarrow> w_open m' = w_open m \<Longrightarrow> w_next m' = w_next m \<Longrightarrow> sessions m' = sessions m \<Longrightarrow> acc B m'"
  using accounts_cong[of m' m B "sessions m"] by (simp add: acc_def)

text \<open>What a redial function owes the pump; it leaves the pump's own state alone.\<close>

definition pump_frame :: "'x pump_scheme \<Rightarrow> 'x pump_scheme \<Rightarrow> bool" where
  "pump_frame p q \<longleftrightarrow> pm_sess q = pm_sess p \<and> pm_dev q = pm_dev p \<and> pm_tunErr q = pm_tunErr p \<and>
     pm_backoff q = pm_backoff p \<and> pm_run q = pm_run p \<and> pm_tun q = pm_tun p \<and> pm_sent q = pm_sent p \<and>
     pm_delivered q = pm_delivered p \<and> (ctx_done p \<longrightarrow> ctx_done q)"

definition same_session :: "session \<Rightarrow> session \<Rightarrow> bool" where
  "same_session s t \<longleftrightarrow> ss_AssignedPrefixes t = ss_AssignedPrefixes s \<and> (ss_done s \<longrightarrow> ss_done t)"

definition heap_step :: "session list \<Rightarrow> session list \<Rightarrow> bool" where
  "heap_step h g \<longleftrightarrow> length h \<le> length g \<and> (\<forall>i < length h. same_session (h ! i) (g ! i))"

definition redial_ok :: "('d \<Rightarrow> bool) \<Rightarrow> ('d, 'x) redial \<Rightarrow> bool" where
  "redial_ok good redial \<longleftrightarrow>
     (\<forall>B d p p' r. good d \<and> acc B p \<and> redial d p = (p', r) \<longrightarrow>
        acc B p' \<and> pump_frame p p' \<and> heap_step (sessions p) (sessions p') \<and>
        (\<forall>j. length (sessions p) \<le> j \<and> j < length (sessions p') \<and> r \<noteq> Inr j \<longrightarrow> ss_done (sessions p' ! j)) \<and>
        (\<forall>j. length (sessions p) \<le> j \<and> j < length (sessions p') \<longrightarrow>
           (\<forall>x \<in> set (ss_AssignedPrefixes (sessions p' ! j)). prefix_wf x)) \<and>
        (\<forall>i. r = Inr i \<longrightarrow> length (sessions p) \<le> i \<and> i < length (sessions p')))"

section \<open>The invariant\<close>

text \<open>The session that \<open>Run\<close> holds before it is the pump's, and where the pump has none.\<close>

fun run_holds :: "run_pc \<Rightarrow> nat option" where
  "run_holds (RCheck i) = Some i"
| "run_holds (RSet i) = Some i"
| "run_holds _ = None"

definition no_sess_pc :: "run_pc \<Rightarrow> bool" where
  "no_sess_pc pc = (case pc of RDial \<Rightarrow> True | RFailed \<Rightarrow> True | RSleep \<Rightarrow> True | RCheck _ \<Rightarrow> True
     | RSet _ \<Rightarrow> True | RAfter \<Rightarrow> True | RDone _ \<Rightarrow> True | _ \<Rightarrow> False)"

definition result_ok :: "'x pump_scheme \<Rightarrow> pump_result \<Rightarrow> bool" where
  "result_ok p r = (case r of PNoDevice \<Rightarrow> False | PCancelled \<Rightarrow> ctx_done p | PTunFailed e \<Rightarrow> pm_tunErr p = Some e)"

lemma result_ok_cong: "result_ok p r \<Longrightarrow> ctx_done q = ctx_done p \<Longrightarrow> pm_tunErr q = pm_tunErr p \<Longrightarrow> result_ok q r"
  by (simp add: result_ok_def split: pump_result.splits)

definition pump_inv :: "resource set \<Rightarrow> 'x pump_scheme \<Rightarrow> bool" where
  "pump_inv B p \<longleftrightarrow> acc B p \<and>
     (\<forall>i < length (sessions p). \<not> ss_done (sessions p ! i) \<longrightarrow> pm_sess p = Some i \<or> run_holds (pm_run p) = Some i) \<and>
     (no_sess_pc (pm_run p) \<longrightarrow> pm_sess p = None) \<and>
     (\<forall>i. pm_sess p = Some i \<or> run_holds (pm_run p) = Some i \<longrightarrow> i < length (sessions p)) \<and>
     (\<forall>r. pm_run p = RReturn r \<or> pm_run p = RDone r \<longrightarrow> result_ok p r)"

lemma pump_invI:
  assumes "acc B p"
    and "\<And>i. i < length (sessions p) \<Longrightarrow> \<not> ss_done (sessions p ! i) \<Longrightarrow> pm_sess p = Some i \<or> run_holds (pm_run p) = Some i"
    and "no_sess_pc (pm_run p) \<Longrightarrow> pm_sess p = None"
    and "\<And>i. pm_sess p = Some i \<Longrightarrow> i < length (sessions p)"
    and "\<And>i. run_holds (pm_run p) = Some i \<Longrightarrow> i < length (sessions p)"
    and "\<And>r. pm_run p = RReturn r \<or> pm_run p = RDone r \<Longrightarrow> result_ok p r"
  shows "pump_inv B p"
  using assms unfolding pump_inv_def by blast

lemma pump_invD:
  assumes "pump_inv B p"
  shows "acc B p"
    and "\<And>i. i < length (sessions p) \<Longrightarrow> \<not> ss_done (sessions p ! i) \<Longrightarrow> pm_sess p = Some i \<or> run_holds (pm_run p) = Some i"
    and "no_sess_pc (pm_run p) \<Longrightarrow> pm_sess p = None"
    and "\<And>i. pm_sess p = Some i \<Longrightarrow> i < length (sessions p)"
    and "\<And>i. run_holds (pm_run p) = Some i \<Longrightarrow> i < length (sessions p)"
    and "\<And>r. pm_run p = RReturn r \<or> pm_run p = RDone r \<Longrightarrow> result_ok p r"
  using assms unfolding pump_inv_def by blast+

text \<open>Moves that touch no session: the control points may change as long as what they claim holds.\<close>

lemma pump_inv_local:
  assumes "pump_inv B p"
    and "w_open q = w_open p" "w_next q = w_next p" "sessions q = sessions p" "pm_sess q = pm_sess p"
    and "run_holds (pm_run q) = run_holds (pm_run p)"
    and "no_sess_pc (pm_run q) \<Longrightarrow> pm_sess p = None"
    and "\<And>r. pm_run q = RReturn r \<or> pm_run q = RDone r \<Longrightarrow> result_ok q r"
  shows "pump_inv B q"
proof (rule pump_invI)
  show "acc B q" using pump_invD(1)[OF assms(1)] assms(2-4) by (rule acc_cong)
  show "pm_sess q = Some i \<or> run_holds (pm_run q) = Some i"
    if "i < length (sessions q)" "\<not> ss_done (sessions q ! i)" for i
    using that pump_invD(2)[OF assms(1), of i] unfolding assms(4,5,6) by blast
  show "i < length (sessions q)" if "pm_sess q = Some i" for i
    using that pump_invD(4)[OF assms(1)] unfolding assms(4,5) by blast
  show "i < length (sessions q)" if "run_holds (pm_run q) = Some i" for i
    using that pump_invD(5)[OF assms(1)] unfolding assms(4,6) by blast
  show "pm_sess q = None" if "no_sess_pc (pm_run q)" using assms(5) assms(7)[OF that] by simp
qed (rule assms(8))

lemma close_session_sel [simp]:
  "length (sessions (close_session i m)) = length (sessions m)"
  "j < length (sessions m) \<Longrightarrow> ss_done (sessions (close_session i m) ! j) \<longleftrightarrow> j = i \<or> ss_done (sessions m ! j)"
  "j < length (sessions m) \<Longrightarrow> ss_AssignedPrefixes (sessions (close_session i m) ! j) = ss_AssignedPrefixes (sessions m ! j)"
  "ctx_done (close_session i m) = ctx_done m"
  by (cases "j = i"; simp add: close_session_eq)+

lemma close_session_pump [simp]:
  "pm_sess (close_session i p) = pm_sess p" "pm_dev (close_session i p) = pm_dev p"
  "pm_tunErr (close_session i p) = pm_tunErr p" "pm_backoff (close_session i p) = pm_backoff p"
  "pm_run (close_session i p) = pm_run p" "pm_tun (close_session i p) = pm_tun p"
  "pm_sent (close_session i p) = pm_sent p" "pm_delivered (close_session i p) = pm_delivered p"
  by (simp_all add: close_session_eq)

lemma closeSession_sel [simp]:
  "pm_sess (closeSession p) = None" "pm_dev (closeSession p) = pm_dev p"
  "pm_tunErr (closeSession p) = pm_tunErr p" "pm_backoff (closeSession p) = pm_backoff p"
  "pm_run (closeSession p) = pm_run p" "pm_tun (closeSession p) = pm_tun p"
  "pm_sent (closeSession p) = pm_sent p" "pm_delivered (closeSession p) = pm_delivered p"
  "ctx_done (closeSession p) = ctx_done p" "length (sessions (closeSession p)) = length (sessions p)"
  by (simp_all add: closeSession_def Let_def split: option.splits)

lemma closeSession_done [simp]:
  "j < length (sessions p) \<Longrightarrow>
   ss_done (sessions (closeSession p) ! j) \<longleftrightarrow> pm_sess p = Some j \<or> ss_done (sessions p ! j)"
  by (auto simp: closeSession_def Let_def split: option.splits)

lemma acc_closeSession: "acc B p \<Longrightarrow> (\<And>i. pm_sess p = Some i \<Longrightarrow> i < length (sessions p)) \<Longrightarrow> acc B (closeSession p)"
  unfolding closeSession_def Let_def
  by (auto split: option.splits intro!: acc_close_session intro: acc_cong)

lemma pump_inv_closeSession:
  assumes "pump_inv B p" "run_holds pc = run_holds (pm_run p)"
    "\<And>r. pc = RReturn r \<or> pc = RDone r \<Longrightarrow> result_ok p r" "pm_run q = pc" "ctx_done q = ctx_done p"
    "pm_tunErr q = pm_tunErr p" "w_open q = w_open (closeSession p)" "w_next q = w_next (closeSession p)"
    "sessions q = sessions (closeSession p)" "pm_sess q = None"
  shows "pump_inv B q"
proof (rule pump_invI)
  have "acc B (closeSession p)" using pump_invD(1,4)[OF assms(1)] by (rule acc_closeSession)
  then show "acc B q" using assms(7-9) by (rule acc_cong)
  show "pm_sess q = Some i \<or> run_holds (pm_run q) = Some i"
    if "i < length (sessions q)" "\<not> ss_done (sessions q ! i)" for i
    using that pump_invD(2)[OF assms(1), of i] assms(2,4,9) by auto
  show "result_ok q r" if "pm_run q = RReturn r \<or> pm_run q = RDone r" for r
    using that assms(3)[of r] assms(4-6) by (auto intro: result_ok_cong)
qed (use pump_invD(5)[OF assms(1)] assms(2,4,9,10) in auto)

section \<open>Every step keeps it\<close>

lemma goto_sel [simp]:
  "pm_run (goto pc p) = pc" "pm_sess (goto pc p) = pm_sess p" "pm_tunErr (goto pc p) = pm_tunErr p"
  "sessions (goto pc p) = sessions p" "ctx_done (goto pc p) = ctx_done p" "w_open (goto pc p) = w_open p"
  "w_next (goto pc p) = w_next p" "pm_tun (goto pc p) = pm_tun p" "pm_backoff (goto pc p) = pm_backoff p"
  "pm_sent (goto pc p) = pm_sent p" "pm_delivered (goto pc p) = pm_delivered p" "pm_dev (goto pc p) = pm_dev p"
  by (simp_all add: goto_def)

lemma setTunErr_sel [simp]:
  "pm_sess (setTunErr e p) = pm_sess p" "sessions (setTunErr e p) = sessions p"
  "ctx_done (setTunErr e p) = ctx_done p" "w_open (setTunErr e p) = w_open p" "w_next (setTunErr e p) = w_next p"
  "pm_run (setTunErr e p) = pm_run p" "pm_tun (setTunErr e p) = pm_tun p" "pm_backoff (setTunErr e p) = pm_backoff p"
  "pm_sent (setTunErr e p) = pm_sent p" "pm_delivered (setTunErr e p) = pm_delivered p" "pm_dev (setTunErr e p) = pm_dev p"
  "pm_tunErr (setTunErr e p) = Some (case pm_tunErr p of None \<Rightarrow> e | Some e' \<Rightarrow> e')"
  by (simp_all add: setTunErr_def split: option.splits)

lemma result_ok_mono:
  "result_ok p r \<Longrightarrow> (ctx_done p \<Longrightarrow> ctx_done q) \<Longrightarrow> (\<And>e. pm_tunErr p = Some e \<Longrightarrow> pm_tunErr q = Some e) \<Longrightarrow> result_ok q r"
  by (simp add: result_ok_def split: pump_result.splits)

text \<open>A jump to a control point that claims nothing new.\<close>

lemma pump_inv_goto:
  assumes "pump_inv B p" "run_holds pc = run_holds (pm_run p)" "no_sess_pc pc \<Longrightarrow> pm_sess p = None"
    "\<And>r. pc = RReturn r \<or> pc = RDone r \<Longrightarrow> result_ok p r"
  shows "pump_inv B (goto pc p)"
  using assms(1) by (rule pump_inv_local) (use assms in \<open>auto intro: result_ok_cong\<close>)

lemma pump_inv_run_step:
  assumes i: "pump_inv B p"
  shows "pump_inv B (run_step p)"
proof (cases "pm_run p")
  case RTop
  then show ?thesis using i by (auto simp: run_step_def result_ok_def no_sess_pc_def intro!: pump_inv_goto)
next
  case RTun
  then show ?thesis using i
    by (cases "pm_tunErr p") (auto simp: run_step_def result_ok_def no_sess_pc_def intro!: pump_inv_goto)
next
  case RSess
  then show ?thesis using i
    by (cases "pm_sess p") (auto simp: run_step_def result_ok_def no_sess_pc_def intro!: pump_inv_goto)
next
  case RFailed
  then have "pm_sess p = None" using pump_invD(3)[OF i] by (simp add: no_sess_pc_def)
  then show ?thesis using i RFailed
    by (auto simp: run_step_def result_ok_def no_sess_pc_def intro!: pump_inv_goto)
next
  case (RCheck k)
  then have n: "pm_sess p = None" "k < length (sessions p)"
    using pump_invD(3)[OF i] pump_invD(5)[OF i, of k] by (simp_all add: no_sess_pc_def)
  show ?thesis
  proof (cases "pm_tunErr p")
    case None
    then show ?thesis using i RCheck n by (auto simp: run_step_def no_sess_pc_def intro!: pump_inv_goto)
  next
    case (Some e)
    have "acc B (close_session k p)" using pump_invD(1)[OF i] n(2) by (rule acc_close_session)
    then have "acc B (goto (RReturn (PTunFailed e)) (close_session k p))" by (rule acc_cong) simp_all
    then have "pump_inv B (goto (RReturn (PTunFailed e)) (close_session k p))"
    proof (rule pump_invI)
      fix j assume "j < length (sessions (goto (RReturn (PTunFailed e)) (close_session k p)))"
        "\<not> ss_done (sessions (goto (RReturn (PTunFailed e)) (close_session k p)) ! j)"
      then have "j < length (sessions p)" "\<not> ss_done (sessions p ! j)" "j \<noteq> k" by simp_all
      with pump_invD(2)[OF i, of j] RCheck n(1) have False by simp
      then show "pm_sess (goto (RReturn (PTunFailed e)) (close_session k p)) = Some j \<or>
          run_holds (pm_run (goto (RReturn (PTunFailed e)) (close_session k p))) = Some j" by simp
    qed (use n Some in \<open>auto simp: result_ok_def\<close>)
    with RCheck Some show ?thesis by (simp add: run_step_def)
  qed
next
  case (RSet k)
  define q where "q = goto (RRead k) ((setSession k (attach_tun (pm_dev p) k p))\<lparr>pm_backoff := reconnectMinBackoff\<rparr>)"
  have n: "pm_sess p = None" "k < length (sessions p)"
    using RSet pump_invD(3)[OF i] pump_invD(5)[OF i, of k] by (simp_all add: no_sess_pc_def)
  have q: "sessions q = (sessions p)[k := AttachTUN (pm_dev p) (sessions p ! k)]" "w_open q = w_open p"
    "w_next q = w_next p" "pm_sess q = Some k" "pm_run q = RRead k"
    by (simp_all add: q_def setSession_def attach_tun_def)
  have l: "length (sessions q) = length (sessions p)" using q(1) by simp
  have "pump_inv B q"
  proof (rule pump_invI)
    have "cl.accounts p B (sessions q)"
      unfolding q(1) using pump_invD(1)[OF i] n(2) unfolding acc_def
      by (rule accounts_res) (simp add: AttachTUN_def sess_res_def)
    then show "acc B q" unfolding acc_def using accounts_cong[OF q(2,3)] by blast
    fix j assume j: "j < length (sessions q)" "\<not> ss_done (sessions q ! j)"
    have "j = k"
    proof (rule ccontr)
      assume "j \<noteq> k"
      with j q(1) have "j < length (sessions p)" "\<not> ss_done (sessions p ! j)" by simp_all
      with pump_invD(2)[OF i, of j] RSet n(1) \<open>j \<noteq> k\<close> show False by simp
    qed
    with q(4) show "pm_sess q = Some j \<or> run_holds (pm_run q) = Some j" by simp
  qed (use n q(4,5) l in \<open>simp_all add: no_sess_pc_def\<close>)
  with RSet show ?thesis by (simp add: run_step_def q_def)
next
  case (RRead k)
  then show ?thesis using i by (auto simp: run_step_def no_sess_pc_def intro!: pump_inv_goto)
next
  case RClose
  have "pump_inv B (goto RAfter (closeSession p))"
    by (rule pump_inv_closeSession[OF i, of RAfter]) (simp_all add: RClose)
  with RClose show ?thesis by (simp add: run_step_def)
next
  case RAfter
  then have "pm_sess p = None" using pump_invD(3)[OF i] by (simp add: no_sess_pc_def)
  then show ?thesis using i RAfter
    by (cases "pm_tunErr p") (auto simp: run_step_def result_ok_def no_sess_pc_def intro!: pump_inv_goto)
next
  case (RReturn r)
  have "result_ok p r" using pump_invD(6)[OF i] RReturn by simp
  then have "pump_inv B (goto (RDone r) (closeSession p))"
    by (intro pump_inv_closeSession[OF i, of "RDone r"]) (simp_all add: RReturn)
  with RReturn show ?thesis by (simp add: run_step_def)
qed (use i in \<open>simp_all add: run_step_def\<close>)

lemma pump_inv_sleep_step: "pump_inv B p \<Longrightarrow> pump_inv B (sleep_step t p)"
proof -
  assume i: "pump_inv B p"
  have "pump_inv B (goto RTop (p\<lparr>pm_backoff := next_backoff (pm_backoff p)\<rparr>))" if "pm_run p = RSleep"
    using i by (rule pump_inv_local) (use that in \<open>simp_all add: no_sess_pc_def\<close>)
  moreover have "pump_inv B (goto (RReturn PCancelled) p)" if "pm_run p = RSleep" "ctx_done p"
    using i by (rule pump_inv_goto) (use that in \<open>auto simp: no_sess_pc_def result_ok_def\<close>)
  ultimately show ?thesis using i by (simp add: sleep_step_def)
qed

lemma pump_inv_recv_step: "pump_inv B p \<Longrightarrow> pump_inv B (recv_step r p)"
proof -
  assume i: "pump_inv B p"
  have "pump_inv B (goto RClose p)" if "pm_run p = RRecv k" for k
    using i by (rule pump_inv_goto) (use that in \<open>auto simp: no_sess_pc_def\<close>)
  moreover have "pump_inv B (goto RClose (setTunErr DevWrite p))" if "pm_run p = RRecv k" for k
    using i by (rule pump_inv_local) (use that in \<open>simp_all add: no_sess_pc_def\<close>)
  moreover have "pump_inv B (goto (RRead k) (p\<lparr>pm_delivered := d\<rparr>))" if "pm_run p = RRecv k" for k d
    using i by (rule pump_inv_local) (use that in \<open>simp_all add: no_sess_pc_def\<close>)
  ultimately show ?thesis using i
    by (simp add: recv_step_def split: run_pc.splits option.splits)
qed

lemma pump_inv_tun_moves:
  assumes "pump_inv B p" "w_open q = w_open p" "w_next q = w_next p" "sessions q = sessions p" "pm_sess q = pm_sess p"
    "pm_run q = pm_run p" "ctx_done p \<longrightarrow> ctx_done q" "\<And>e. pm_tunErr p = Some e \<Longrightarrow> pm_tunErr q = Some e"
  shows "pump_inv B q"
  using assms(1-5) by (rule pump_inv_local)
    (use assms(6-8) pump_invD(3,6)[OF assms(1)] in \<open>auto intro: result_ok_mono\<close>)

lemma pump_inv_redial_step:
  assumes i: "pump_inv B p" and ok: "redial_ok good redial" and g: "good d"
  shows "pump_inv B (redial_step redial d p)"
proof (cases "pm_run p = RDial")
  case False
  with i show ?thesis by (simp add: redial_step_def)
next
  case True
  obtain q r where d: "redial d p = (q, r)" by (cases "redial d p")
  have r: "acc B q" "pump_frame p q" "heap_step (sessions p) (sessions q)"
    "\<And>j. length (sessions p) \<le> j \<Longrightarrow> j < length (sessions q) \<Longrightarrow> r \<noteq> Inr j \<Longrightarrow> ss_done (sessions q ! j)"
    "\<And>k. r = Inr k \<Longrightarrow> k < length (sessions q)"
    using ok g pump_invD(1)[OF i] d unfolding redial_ok_def by blast+
  have n: "pm_sess q = None" using pump_invD(3)[OF i] True r(2) by (simp add: no_sess_pc_def pump_frame_def)
  have old: "ss_done (sessions q ! j)" if "j < length (sessions p)" for j
  proof -
    have "ss_done (sessions p ! j)" using pump_invD(2)[OF i that] pump_invD(3)[OF i] True
      by (auto simp: no_sess_pc_def)
    with r(3) that show ?thesis by (auto simp: heap_step_def same_session_def)
  qed
  have inv: "pump_inv B (goto pc q)" if "\<And>j. r = Inr j \<longleftrightarrow> run_holds pc = Some j" "\<And>x. pc \<noteq> RReturn x \<and> pc \<noteq> RDone x" for pc
  proof (rule pump_invI)
    show "acc B (goto pc q)" using r(1) by (rule acc_cong) simp_all
    fix j assume j: "j < length (sessions (goto pc q))" "\<not> ss_done (sessions (goto pc q) ! j)"
    then have "r = Inr j" using old[of j] r(4)[of j] by (cases "j < length (sessions p)") auto
    with that(1)[of j] show "pm_sess (goto pc q) = Some j \<or> run_holds (pm_run (goto pc q)) = Some j" by simp
  qed (use n that r(5) in auto)
  show ?thesis
  proof (cases r)
    case (Inl e)
    with d True inv[of RFailed] show ?thesis by (simp add: redial_step_def)
  next
    case (Inr k)
    with d True inv[of "RCheck k"] show ?thesis by (simp add: redial_step_def)
  qed
qed

lemma pump_inv_step:
  assumes i: "pump_inv B p" and ok: "redial_ok good redial" and g: "\<forall>d. ev = EvRedial d \<longrightarrow> good d"
  shows "pump_inv B (pump_step redial ev p)"
proof (cases ev)
  case EvCancel
  show ?thesis unfolding EvCancel using i by (auto intro: pump_inv_tun_moves)
next
  case EvTun
  have "pump_inv B (tun_step p)"
  proof (cases "pm_tun p")
    case TErr
    have "pump_inv B ((closeSession p)\<lparr>pm_tun := TDone\<rparr>)"
      by (rule pump_inv_closeSession[OF i refl]) (use pump_invD(6)[OF i] in simp_all)
    with TErr show ?thesis by (simp add: tun_step_def)
  next
    case (TSend k pkts)
    with i show ?thesis by (cases pkts) (auto simp: tun_step_def intro: pump_inv_tun_moves)
  qed (use i in \<open>auto simp: tun_step_def intro: pump_inv_tun_moves\<close>)
  with EvTun show ?thesis by simp
next
  case EvTunErr
  with i show ?thesis by (auto simp: tun_read_step_def intro: pump_inv_tun_moves)
next
  case (EvTunBatch b)
  with i show ?thesis by (auto simp: tun_read_step_def intro: pump_inv_tun_moves)
next
  case (EvWrite ok)
  with i show ?thesis
    by (auto simp: write_step_def split: tun_pc.splits list.splits option.splits intro: pump_inv_tun_moves)
qed (use i g in \<open>simp_all add: pump_inv_run_step pump_inv_sleep_step pump_inv_recv_step pump_inv_redial_step[OF i ok]\<close>)

lemma pump_exec_simps [simp]:
  "pump_exec redial [] p = p" "pump_exec redial (e # evs) p = pump_exec redial evs (pump_step redial e p)"
  by (simp_all add: pump_exec_def)

definition good_events :: "('d \<Rightarrow> bool) \<Rightarrow> 'd pump_event list \<Rightarrow> bool" where
  "good_events good evs \<longleftrightarrow> list_all (\<lambda>e. case e of EvRedial d \<Rightarrow> good d | _ \<Rightarrow> True) evs"

lemma pump_inv_exec:
  "redial_ok good redial \<Longrightarrow> good_events good evs \<Longrightarrow> pump_inv B p \<Longrightarrow> pump_inv B (pump_exec redial evs p)"
proof (induction evs arbitrary: p)
  case (Cons e evs)
  have "pump_inv B (pump_step redial e p)"
    by (rule pump_inv_step[OF Cons.prems(3,1)]) (use Cons.prems(2) in \<open>auto simp: good_events_def\<close>)
  with Cons.IH[OF Cons.prems(1)] Cons.prems(2) show ?case by (simp add: good_events_def)
qed simp

text \<open>The pump at its start: a session fresh from the dial, or none.\<close>

definition pump_ready :: "resource set \<Rightarrow> nat option \<Rightarrow> 'x mem_scheme \<Rightarrow> bool" where
  "pump_ready B s m \<longleftrightarrow> acc B m \<and> (\<forall>i. s = Some i \<longrightarrow> i < length (sessions m)) \<and>
     (\<forall>i < length (sessions m). \<not> ss_done (sessions m ! i) \<longrightarrow> s = Some i)"

lemma attach_tun_sel [simp]:
  "w_open (attach_tun dev i m) = w_open m" "w_next (attach_tun dev i m) = w_next m"
  "length (sessions (attach_tun dev i m)) = length (sessions m)" "ctx_done (attach_tun dev i m) = ctx_done m"
  "j < length (sessions m) \<Longrightarrow> ss_done (sessions (attach_tun dev i m) ! j) = ss_done (sessions m ! j)"
  "j < length (sessions m) \<Longrightarrow> ss_AssignedPrefixes (sessions (attach_tun dev i m) ! j) = ss_AssignedPrefixes (sessions m ! j)"
  by (cases "j = i"; simp add: attach_tun_def AttachTUN_def)+

lemma acc_attach_tun:
  assumes "acc B m" "i < length (sessions m)"
  shows "acc B (attach_tun dev i m)"
proof -
  have "cl.accounts m B ((sessions m)[i := AttachTUN dev (sessions m ! i)])"
    using assms unfolding acc_def by (rule accounts_res) (simp add: AttachTUN_def sess_res_def)
  then show ?thesis unfolding acc_def using accounts_cong[of "attach_tun dev i m" m] by (simp add: attach_tun_def)
qed

lemma pump_inv_start:
  assumes "pump_ready B s m"
  shows "pump_inv B (Pump_Run (NewPump s True m))"
proof -
  define q where "q = (case s of None \<Rightarrow> m | Some i \<Rightarrow> attach_tun True i m)"
  have m: "acc B m" "\<And>i. s = Some i \<Longrightarrow> i < length (sessions m)"
    "\<And>i. i < length (sessions m) \<Longrightarrow> \<not> ss_done (sessions m ! i) \<Longrightarrow> s = Some i"
    using assms unfolding pump_ready_def by blast+
  have q: "acc B q" "length (sessions q) = length (sessions m)"
    "\<And>j. j < length (sessions m) \<Longrightarrow> ss_done (sessions q ! j) = ss_done (sessions m ! j)"
    using m(1,2) by (auto simp: q_def acc_attach_tun split: option.splits)
  have r: "sessions (Pump_Run (NewPump s True m)) = sessions q" "pm_sess (Pump_Run (NewPump s True m)) = s"
    "pm_run (Pump_Run (NewPump s True m)) = RTop" "w_open (Pump_Run (NewPump s True m)) = w_open q"
    "w_next (Pump_Run (NewPump s True m)) = w_next q"
    by (simp_all add: Pump_Run_def NewPump_def Let_def q_def)
  show ?thesis
  proof (rule pump_invI)
    show "acc B (Pump_Run (NewPump s True m))" by (rule acc_cong[OF q(1) r(4,5,1)])
    show "pm_sess (Pump_Run (NewPump s True m)) = Some j \<or> run_holds (pm_run (Pump_Run (NewPump s True m))) = Some j"
      if "j < length (sessions (Pump_Run (NewPump s True m)))" "\<not> ss_done (sessions (Pump_Run (NewPump s True m)) ! j)" for j
      using that m(3)[of j] q(3)[of j] unfolding r q(2) by blast
    show "j < length (sessions (Pump_Run (NewPump s True m)))" if "pm_sess (Pump_Run (NewPump s True m)) = Some j" for j
      using that m(2)[of j] unfolding r q(2) by blast
  qed (simp_all add: r no_sess_pc_def)
qed

end
