(* ===== verification/PumpSpec.thy ===== *)
theory PumpSpec
  imports PumpProps
begin

text \<open>What the pump promises, with a redial that connects as \<open>Connect\<close> does.\<close>

section \<open>Redialling with the client\<close>

text \<open>The closure of a caller that only connects: the new session joins the shared memory.\<close>

definition alloc_session :: "'x mem_scheme \<times> (connect_error + session) \<Rightarrow> 'x mem_scheme \<times> (connect_error + nat)" where
  "alloc_session r =
     (case r of
        (m, Inl e) \<Rightarrow> (m, Inl e)
      | (m, Inr s) \<Rightarrow> (m\<lparr>sessions := sessions m @ [s]\<rparr>, Inr (length (sessions m))))"

definition connect_redial :: "(connect_env \<times> profile \<times> bool \<times> bool, 'x) redial" where
  "connect_redial d p = alloc_session (dial_of d p)"

text \<open>A good dial: the template parses and the server assigns well-formed prefixes.\<close>

definition good_dial :: "connect_env \<times> profile \<times> bool \<times> bool \<Rightarrow> bool" where
  "good_dial d \<longleftrightarrow> dial_good d \<and>
     (\<forall>ps. fe_prefixes (ce_finish (fst d)) = Some ps \<longrightarrow> (\<forall>x \<in> set ps. prefix_wf x))"

text \<open>Connecting touches nothing but the network resources.\<close>

definition net_only :: "'x world_scheme \<Rightarrow> 'x world_scheme \<Rightarrow> bool" where
  "net_only w w' \<longleftrightarrow> (\<exists>n s. w' = w\<lparr>w_next := n, w_open := s\<rparr>)"

lemma net_only_refl [intro, simp]: "net_only w w"
  unfolding net_only_def by (intro exI[of _ "w_next w"] exI[of _ "w_open w"]) simp

lemma net_only_trans [trans]: "net_only a b \<Longrightarrow> net_only b c \<Longrightarrow> net_only a c"
proof -
  assume "net_only a b" "net_only b c"
  then obtain n s n' s' where "b = a\<lparr>w_next := n, w_open := s\<rparr>" "c = b\<lparr>w_next := n', w_open := s'\<rparr>"
    unfolding net_only_def by blast
  then have "c = a\<lparr>w_next := n', w_open := s'\<rparr>" by simp
  then show ?thesis unfolding net_only_def by blast
qed

lemma net_only_open_upd: "net_only w (w\<lparr>w_open := s\<rparr>)"
  unfolding net_only_def by (intro exI[of _ "w_next w"] exI[of _ s]) simp

lemma net_only_close_res: "net_only w (close_res r w)"
  by (cases r) (simp_all add: close_res_def net_only_open_upd)

lemma net_only_open_res: "open_res mk w = (w', r) \<Longrightarrow> net_only w w'"
  by (auto simp: open_res_def net_only_def Let_def)

lemma net_only_leg_close: "net_only w (leg_close l w)"
  unfolding leg_close_def Let_def
  by (auto intro: net_only_trans net_only_close_res)

lemma net_only_leg_dial: "leg_dial ok tls a l w = (w', r) \<Longrightarrow> net_only w w'"
  by (auto simp: leg_dial_def split: if_splits prod.splits dest: net_only_open_res)

lemma net_only_listen:
  assumes "listenAndDialQUIC tls env a w = (w', r)"
  shows "net_only w w'"
proof (cases "de_listen env")
  case True
  obtain w1 s where s: "open_res UDPSock w = (w1, s)" by (cases "open_res UDPSock w")
  let ?leg = "\<lparr>lg_udpConn = Some s, lg_ownUDP = True, lg_qconn = None, lg_addr = udp_string a\<rparr>"
  obtain w2 d where d: "leg_dial (de_dial env) tls a ?leg w1 = (w2, d)" by (cases "leg_dial (de_dial env) tls a ?leg w1")
  have "net_only w w2" using net_only_open_res[OF s] net_only_leg_dial[OF d] by (rule net_only_trans)
  moreover have "w' = w2 \<or> w' = leg_close ?leg w2"
    using assms True s d by (auto simp: listenAndDialQUIC_def Let_def split: sum.splits)
  ultimately show ?thesis using net_only_leg_close net_only_trans by blast
qed (use assms in \<open>simp add: listenAndDialQUIC_def\<close>)

lemma net_only_race: "race_loop tls arrivals winner errs w = (w', winner', errs') \<Longrightarrow> net_only w w'"
proof (induction tls arrivals winner errs w rule: race_loop.induct)
  case (2 tls a env rest winner errs w)
  obtain w1 r where d: "listenAndDialQUIC tls env a w = (w1, r)" by (cases "listenAndDialQUIC tls env a w")
  note n = net_only_listen[OF d]
  show ?case
  proof (cases r)
    case (Inl e)
    with "2.IH"(1)[OF d[symmetric]] "2.prems" d have "net_only w1 w'" by simp
    with n show ?thesis by (rule net_only_trans)
  next
    case (Inr leg)
    show ?thesis
    proof (cases winner)
      case None
      with "2.IH"(2)[OF d[symmetric] Inr None] "2.prems" d Inr have "net_only w1 w'" by simp
      with n show ?thesis by (rule net_only_trans)
    next
      case (Some l)
      with "2.IH"(3)[OF d[symmetric] Inr Some] "2.prems" d Inr have "net_only (leg_close leg w1) w'" by simp
      with n net_only_leg_close net_only_trans show ?thesis by blast
    qed
  qed
qed simp

lemma net_only_dial_outcome:
  assumes "dial_outcome env tls a alt pc w = (w', r)"
  shows "net_only w w'"
proof -
  consider "pc" | "\<not> pc" "length (dualDialAddrs (Some a) alt) = 1" | "\<not> pc" "length (dualDialAddrs (Some a) alt) \<noteq> 1"
    by blast
  then show ?thesis
  proof cases
    case 3
    let ?as = "ce_arrivals env (dualDialAddrs (Some a) alt)"
    obtain w1 win errs where l: "race_loop tls ?as None [] w = (w1, win, errs)"
      by (cases "race_loop tls ?as None [] w")
    with 3 assms have "w' = w1" by (auto simp: dial_outcome_def raceQUIC_def split: option.splits)
    with net_only_race[OF l] show ?thesis by simp
  qed (use assms net_only_leg_dial net_only_listen in \<open>auto simp: dial_outcome_def\<close>)
qed

lemma net_only_finish:
  assumes "finishCONNECTIP env leg dev w = (w', r)"
  shows "net_only w w'"
proof -
  obtain w1 ipc where o1: "open_res IPConn w = (w1, ipc)" by (cases "open_res IPConn w")
  have "w' = w \<or> w' = leg_close leg w \<or> w' = w1 \<or> w' = leg_close leg (close_res (Some ipc) w1)"
    using assms o1 by (auto simp: finishCONNECTIP_def split: if_splits option.splits)
  moreover have "net_only w w1" using o1 by (rule net_only_open_res)
  moreover from this net_only_close_res have "net_only w (close_res (Some ipc) w1)" by (rule net_only_trans)
  ultimately show ?thesis using net_only_leg_close net_only_trans by blast
qed

lemma net_only_Connect:
  assumes "ConnectWithPacketConn env p dev pc w = (w', r)"
  shows "net_only w w'"
  using assms
proof (cases rule: Connect_cases)
  case (failed q a tls e)
  then show ?thesis by (auto dest: net_only_dial_outcome)
next
  case (dialed q a tls w1 leg)
  from net_only_dial_outcome[OF dialed(4)] net_only_finish[OF dialed(5)] show ?thesis by (rule net_only_trans)
qed simp

lemma Connect_prefixes:
  assumes "ConnectWithPacketConn env p dev pc w = (w', Inr s)"
  shows "fe_prefixes (ce_finish env) = Some (ss_AssignedPrefixes s)" "\<not> ss_done s"
  using assms
  by (cases rule: Connect_cases, simp, simp, auto simp: finishCONNECTIP_def split: if_splits option.splits prod.splits)+

lemma alloc_session_ok:
  fixes p :: "'x pump_scheme"
  assumes g: "good_dial d" and a: "acc B p" and r: "alloc_session (dial_of d p) = (q, r)"
  shows "acc B q \<and> pump_frame p q \<and> heap_step (sessions p) (sessions q) \<and>
    (case r of Inl e \<Rightarrow> sessions q = sessions p
     | Inr i \<Rightarrow> i = length (sessions p) \<and> length (sessions q) = Suc i \<and> \<not> ss_done (sessions q ! i) \<and>
         take i (sessions q) = sessions p \<and> (\<forall>x \<in> set (ss_AssignedPrefixes (sessions q ! i)). prefix_wf x))"
proof -
  obtain env pr dev pc where d: "d = (env, pr, dev, pc)" by (cases d)
  obtain m x where c: "dial_of d p = (m, x)" by (cases "dial_of d p")
  from net_only_Connect[of env pr dev pc p m x] c d obtain n s where m: "m = p\<lparr>w_next := n, w_open := s\<rparr>"
    by (auto simp: net_only_def dial_of_def)
  have "acc B p" "dial_good d" using a g by (simp_all add: good_dial_def)
  show ?thesis
  proof (cases x)
    case (Inl e)
    from cl.accounts_dial_err[OF a[unfolded acc_def] \<open>dial_good d\<close> c[unfolded Inl]] have "acc B m" by (simp add: acc_def m)
    with Inl r c m show ?thesis by (auto simp: alloc_session_def pump_frame_def heap_step_def same_session_def)
  next
    case (Inr t)
    let ?q = "m\<lparr>sessions := sessions m @ [t]\<rparr>"
    from cl.accounts_dial_ok[OF a[unfolded acc_def] c[unfolded Inr]] have "cl.accounts m B (sessions p @ [t])" .
    then have "acc B ?q" unfolding acc_def using accounts_cong[of ?q m B] m by simp
    moreover have "fe_prefixes (ce_finish env) = Some (ss_AssignedPrefixes t)" "\<not> ss_done t"
      using Connect_prefixes[of env pr dev pc p m t] c Inr d by (simp_all add: dial_of_def)
    ultimately show ?thesis using g Inr r c m d
      by (auto simp: alloc_session_def pump_frame_def heap_step_def same_session_def nth_append good_dial_def)
  qed
qed

lemma connect_redial_ok: "redial_ok good_dial connect_redial"
  unfolding redial_ok_def connect_redial_def
proof (intro allI impI, elim conjE)
  fix B d and p p' :: "'x pump_scheme" and r
  assume g: "good_dial d" and a: "acc B p" and r: "alloc_session (dial_of d p) = (p', r)"
  from alloc_session_ok[OF g a r]
  show "acc B p' \<and> pump_frame p p' \<and> heap_step (sessions p) (sessions p') \<and>
     (\<forall>j. length (sessions p) \<le> j \<and> j < length (sessions p') \<and> r \<noteq> Inr j \<longrightarrow> ss_done (sessions p' ! j)) \<and>
     (\<forall>j. length (sessions p) \<le> j \<and> j < length (sessions p') \<longrightarrow>
        (\<forall>x \<in> set (ss_AssignedPrefixes (sessions p' ! j)). prefix_wf x)) \<and>
     (\<forall>i. r = Inr i \<longrightarrow> length (sessions p) \<le> i \<and> i < length (sessions p'))"
    by (cases r) (auto simp: less_Suc_eq)
qed

text \<open>What a good dial needs of its environment, whatever the profile.\<close>

definition good_env :: "connect_env \<Rightarrow> bool" where
  "good_env env \<longleftrightarrow> fe_template (ce_finish env) \<and>
     (\<forall>ps. fe_prefixes (ce_finish env) = Some ps \<longrightarrow> (\<forall>x \<in> set ps. prefix_wf x))"

lemma good_dial_env: "good_dial (env, prof, a, b) \<longleftrightarrow> good_env env"
  by (simp add: good_dial_def good_env_def dial_good_def)

section \<open>What the pump's own steps leave alone\<close>

lemma more_close_session [simp]: "pump.more (close_session i p) = pump.more p"
  by (simp add: close_session_eq)

lemma more_closeSession [simp]: "pump.more (closeSession p) = pump.more p"
  by (simp add: closeSession_def Let_def split: option.splits)

lemma more_goto [simp]: "pump.more (goto pc p) = pump.more p"
  by (simp add: goto_def)

lemma more_setTunErr [simp]: "pump.more (setTunErr e p) = pump.more p"
  by (simp add: setTunErr_def)

lemma more_steps [simp]:
  "pump.more (run_step p) = pump.more p" "pump.more (sleep_step s p) = pump.more p" "pump.more (recv_step r p) = pump.more p"
  "pump.more (tun_step p) = pump.more p" "pump.more (tun_read_step b p) = pump.more p" "pump.more (write_step ok p) = pump.more p"
  by (simp_all add: run_step_def sleep_step_def recv_step_def tun_step_def tun_read_step_def write_step_def
      setSession_def attach_tun_def split: run_pc.splits tun_pc.splits option.splits list.splits)

lemma more_connect_redial:
  assumes "connect_redial d p = (q, r)"
  shows "pump.more q = pump.more p"
proof -
  obtain env pr dev pc where d: "d = (env, pr, dev, pc)" by (cases d)
  obtain m x where c: "dial_of d p = (m, x)" by (cases "dial_of d p")
  from net_only_Connect[of env pr dev pc p m x] c d have "pump.more m = pump.more p"
    by (auto simp: net_only_def dial_of_def)
  with assms c show ?thesis by (cases x) (auto simp: connect_redial_def alloc_session_def)
qed

lemma ctx_steps [simp]:
  "ctx_done (run_step p) = ctx_done p" "ctx_done (sleep_step s p) = ctx_done p" "ctx_done (recv_step r p) = ctx_done p"
  "ctx_done (tun_step p) = ctx_done p" "ctx_done (tun_read_step b p) = ctx_done p" "ctx_done (write_step ok p) = ctx_done p"
  by (simp_all add: run_step_def sleep_step_def recv_step_def tun_step_def tun_read_step_def write_step_def setSession_def
      split: run_pc.splits tun_pc.splits option.splits list.splits)

lemma ctx_connect_redial:
  assumes "connect_redial d p = (q, r)"
  shows "ctx_done q = ctx_done p"
proof -
  obtain env pr dev pc where d: "d = (env, pr, dev, pc)" by (cases d)
  obtain m x where c: "dial_of d p = (m, x)" by (cases "dial_of d p")
  from net_only_Connect[of env pr dev pc p m x] c d have "ctx_done m = ctx_done p"
    by (auto simp: net_only_def dial_of_def)
  with assms c show ?thesis by (cases x) (auto simp: connect_redial_def alloc_session_def)
qed

lemma pump_ready_cong:
  "pump_ready B s m \<Longrightarrow> w_open m' = w_open m \<Longrightarrow> w_next m' = w_next m \<Longrightarrow> sessions m' = sessions m \<Longrightarrow> pump_ready B s m'"
proof -
  assume a: "pump_ready B s m" "w_open m' = w_open m" "w_next m' = w_next m" "sessions m' = sessions m"
  from a(1) have "acc B m" by (simp add: pump_ready_def)
  then have "acc B m'" using a(2-4) by (rule acc_cong)
  with a(1) show ?thesis unfolding pump_ready_def a(4) by blast
qed

lemma pump_ready_same:
  "w_open m' = w_open m \<Longrightarrow> w_next m' = w_next m \<Longrightarrow> sessions m' = sessions m \<Longrightarrow> pump_ready B s m' = pump_ready B s m"
  using pump_ready_cong[of B s m m'] pump_ready_cong[of B s m' m] by metis

lemma all_done_quiet:
  assumes "acc B m" "\<And>i. i < length (sessions m) \<Longrightarrow> ss_done (sessions m ! i)"
  shows "w_open m = B"
proof -
  have "sess_res x = {}" if "x \<in> set (sessions m)" for x
    using that assms(2) by (auto simp: in_set_conv_nth sess_res_def)
  with cl.accounts_quiet[OF assms(1)[unfolded acc_def]] show ?thesis by blast
qed

end
