(* ===== verification/PumpRuns.thy ===== *)
theory PumpRuns
  imports PumpSpec
begin

text \<open>The pump's properties, over all its runs.\<close>

definition pump_run :: "('d, 'x) redial \<Rightarrow> nat option \<Rightarrow> 'x pump_scheme \<Rightarrow> 'd pump_event list \<Rightarrow> 'x pump_scheme" where
  "pump_run redial s m evs = pump_exec redial evs (Pump_Run (NewPump s True m))"

lemma pump_run_inv:
  "redial_ok good redial \<Longrightarrow> pump_ready B s m \<Longrightarrow> good_events good evs \<Longrightarrow> pump_inv B (pump_run redial s m evs)"
  unfolding pump_run_def by (intro pump_inv_exec pump_inv_start)

text \<open>A memory with one fresh session, and a pump on it.\<close>

definition demo_conn :: session where
  "demo_conn = \<lparr>ss_udpConn = Some (UDPSock 0), ss_ownUDP = True, ss_qconn = Some (QConn 1), ss_ipconn = Some (IPConn 2),
     ss_dev = False, ss_AssignedPrefixes = demo_assigned, ss_Routes = [], ss_DialAddr = [], ss_done = False\<rparr>"

definition demo_pump :: pump where
  "demo_pump = \<lparr>w_next = 3, w_open = {UDPSock 0, QConn 1, IPConn 2}, sessions = [demo_conn], ctx_done = False,
     pm_sess = None, pm_dev = False, pm_tunErr = None, pm_backoff = 1, pm_run = RTop, pm_tun = TDone,
     pm_sent = [], pm_delivered = []\<rparr>"

definition demo_dial :: "connect_env \<times> profile \<times> bool \<times> bool" where
  "demo_dial = (demo_env (\<lambda>c. True) True, client_profile, False, False)"

lemma demo_ready: "pump_ready {} (Some 0) demo_pump"
  by (auto simp: pump_ready_def acc_def cl.accounts_def demo_pump_def demo_conn_def world_ok_def sess_res_def)

lemma demo_dial_good: "good_dial demo_dial"
  by (simp add: good_dial_def dial_good_def demo_dial_def demo_env_def prefix_from_def prefix_wf_def)

section \<open>Sessions\<close>

lemma one_session:
  assumes i: "pump_inv B p" and "k < length (sessions p)" "\<not> ss_done (sessions p ! k)"
    and "j < length (sessions p)" "\<not> ss_done (sessions p ! j)"
  shows "k = j"
proof -
  have "pm_sess p = None" if "run_holds (pm_run p) = Some x" for x
    using that pump_invD(3)[OF i] by (cases "pm_run p") (auto simp: no_sess_pc_def)
  with pump_invD(2)[OF i, of k] pump_invD(2)[OF i, of j] assms(2-) show ?thesis by auto
qed





section \<open>Backoff\<close>

text \<open>The retries that waited out their backoff since the last session was set.\<close>

fun retries :: "('d, 'x) redial \<Rightarrow> 'd pump_event list \<Rightarrow> 'x pump_scheme \<Rightarrow> nat \<Rightarrow> nat" where
  "retries redial [] p k = k"
| "retries redial (ev # evs) p k =
     retries redial evs (pump_step redial ev p)
       (if pm_run p = RSleep \<and> ev = EvTimer True then Suc k
        else if ev = EvRun \<and> (case pm_run p of RSet _ \<Rightarrow> True | _ \<Rightarrow> False) then 0 else k)"

lemma next_backoff_min: "next_backoff (min 15 (2 ^ k)) = min 15 (2 ^ Suc k)"
proof (cases "k < 4")
  case True
  then have "k = 0 \<or> k = 1 \<or> k = 2 \<or> k = 3" by auto
  then show ?thesis by (auto simp: next_backoff_def reconnectMaxBackoff_def)
next
  case False
  then have "(2::int) ^ 4 \<le> 2 ^ k" by (intro power_increasing) auto
  then show ?thesis by (simp add: next_backoff_def reconnectMaxBackoff_def)
qed

lemma backoff_run_step:
  "pm_backoff (run_step p) = (if (case pm_run p of RSet _ \<Rightarrow> True | _ \<Rightarrow> False) then 1 else pm_backoff p)"
  by (auto simp: run_step_def reconnectMinBackoff_def split: run_pc.splits option.splits)

lemma backoff_other:
  "pm_backoff (recv_step r p) = pm_backoff p" "pm_backoff (tun_step p) = pm_backoff p"
  "pm_backoff (tun_read_step t p) = pm_backoff p" "pm_backoff (write_step ok p) = pm_backoff p"
  by (auto simp: recv_step_def tun_step_def tun_read_step_def write_step_def
      split: run_pc.splits tun_pc.splits option.splits list.splits)

lemma redial_frame:
  assumes "redial_ok good redial" "good d" "acc B p" "redial d p = (q, r)"
  shows "pump_frame p q" "heap_step (sessions p) (sessions q)"
    "\<And>i. r = Inr i \<Longrightarrow> length (sessions p) \<le> i \<and> i < length (sessions q)"
    "\<And>j x. length (sessions p) \<le> j \<Longrightarrow> j < length (sessions q) \<Longrightarrow> x \<in> set (ss_AssignedPrefixes (sessions q ! j)) \<Longrightarrow> prefix_wf x"
    "\<And>j. length (sessions p) \<le> j \<Longrightarrow> j < length (sessions q) \<Longrightarrow> r \<noteq> Inr j \<Longrightarrow> ss_done (sessions q ! j)"
  using assms unfolding redial_ok_def by blast+

lemma redial_step_cases:
  assumes "redial_ok good redial" "good d" "pump_inv B p"
  obtains (idle) "redial_step redial d p = p"
    | (moved) q r pc where "redial_step redial d p = goto pc q" "pump_frame p q" "heap_step (sessions p) (sessions q)"
        "pm_run p = RDial" "pc = RFailed \<or> (\<exists>i. pc = RCheck i)" "redial d p = (q, r)"
        "\<And>j x. length (sessions p) \<le> j \<Longrightarrow> j < length (sessions q) \<Longrightarrow> x \<in> set (ss_AssignedPrefixes (sessions q ! j)) \<Longrightarrow> prefix_wf x"
proof (cases "pm_run p = RDial")
  case True
  obtain q r where d: "redial d p = (q, r)" by (cases "redial d p")
  note f = redial_frame[OF assms(1,2) pump_invD(1)[OF assms(3)] d]
  show thesis
  proof (cases r)
    case (Inl e)
    show thesis by (rule moved[of RFailed q r]) (use True d Inl f(1,2) f(4) in \<open>auto simp: redial_step_def\<close>)
  next
    case (Inr i)
    show thesis by (rule moved[of "RCheck i" q r]) (use True d Inr f(1,2) f(4) in \<open>auto simp: redial_step_def\<close>)
  qed
qed (use idle in \<open>simp add: redial_step_def\<close>)

lemma pump_step_backoff:
  assumes "redial_ok good redial" "pump_inv B p" "\<forall>d. ev = EvRedial d \<longrightarrow> good d" "pm_backoff p = min 15 (2 ^ k)"
  shows "pm_backoff (pump_step redial ev p) = min 15 (2 ^
    (if pm_run p = RSleep \<and> ev = EvTimer True then Suc k
     else if ev = EvRun \<and> (case pm_run p of RSet _ \<Rightarrow> True | _ \<Rightarrow> False) then 0 else k))"
proof (cases ev)
  case (EvRedial d)
  with assms(3) have "good d" by simp
  from redial_step_cases[OF assms(1) this assms(2)] have "pm_backoff (redial_step redial d p) = pm_backoff p"
    by cases (simp_all add: pump_frame_def)
  with EvRedial assms(4) show ?thesis by simp
next
  case (EvTimer t)
  then show ?thesis using assms(4) next_backoff_min[of k] by (cases t) (auto simp: sleep_step_def)
qed (use assms(4) in \<open>auto simp: backoff_run_step backoff_other\<close>)

lemma pump_exec_backoff:
  "redial_ok good redial \<Longrightarrow> good_events good evs \<Longrightarrow> pump_inv B p \<Longrightarrow> pm_backoff p = min 15 (2 ^ k) \<Longrightarrow>
   pm_backoff (pump_exec redial evs p) = min 15 (2 ^ retries redial evs p k)"
proof (induction evs arbitrary: p k)
  case (Cons e evs)
  have g: "\<forall>d. e = EvRedial d \<longrightarrow> good d" using Cons.prems(2) by (auto simp: good_events_def)
  have gs: "good_events good evs" using Cons.prems(2) by (simp add: good_events_def)
  show ?case unfolding pump_exec_simps retries.simps
    by (rule Cons.IH[OF Cons.prems(1) gs pump_inv_step[OF Cons.prems(3,1) g]
        pump_step_backoff[OF Cons.prems(1,3) g Cons.prems(4)]])
qed simp

text \<open>
  The backoff is exponential with a ceiling: after \<open>k\<close> retries that waited since the last
  session was set it is \<open>2 ^ k\<close> seconds, at most 15, and a new session starts over at one.
\<close>

theorem pump_backoff:
  assumes "redial_ok good redial" "pump_ready B s m" "good_events good evs"
  shows "pm_backoff (pump_run redial s m evs) =
    min reconnectMaxBackoff (2 ^ retries redial evs (Pump_Run (NewPump s True m)) 0)"
  unfolding pump_run_def reconnectMaxBackoff_def
  by (rule pump_exec_backoff[OF assms(1,3) pump_inv_start[OF assms(2)]])
    (simp add: Pump_Run_def NewPump_def Let_def reconnectMinBackoff_def)

theorem pump_backoff_witness:
  "pm_backoff (pump_run connect_redial (Some 0) demo_pump [EvConnErr]) = 1"
proof -
  have "good_events good_dial [EvConnErr]" by (simp add: good_events_def)
  from pump_backoff[OF connect_redial_ok demo_ready this] show ?thesis
    by (simp add: reconnectMaxBackoff_def Pump_Run_def)
qed

section \<open>What is sent\<close>

definition wf_sessions :: "'x mem_scheme \<Rightarrow> bool" where
  "wf_sessions m \<longleftrightarrow> (\<forall>i < length (sessions m). \<forall>x \<in> set (ss_AssignedPrefixes (sessions m ! i)). prefix_wf x)"

definition sent_inv :: "'x pump_scheme \<Rightarrow> bool" where
  "sent_inv p \<longleftrightarrow> wf_sessions p \<and> (\<forall>i pkts. pm_tun p = TSend i pkts \<longrightarrow> i < length (sessions p)) \<and>
     (\<forall>(i, q) \<in> set (pm_sent p). i < length (sessions p) \<and>
        (\<exists>pkt. outgoing (ss_AssignedPrefixes (sessions p ! i)) pkt = Some q))"

lemma heap_step_refl [simp, intro]: "heap_step h h"
  by (simp add: heap_step_def same_session_def)

lemma heap_step_close_session: "heap_step (sessions m) (sessions (close_session i m))"
  by (simp add: heap_step_def same_session_def)

lemma heap_step_closeSession: "heap_step (sessions p) (sessions (closeSession p))"
  by (simp add: closeSession_def Let_def heap_step_close_session[of "p\<lparr>pm_sess := None\<rparr>", simplified] split: option.splits)

text \<open>Moves that neither send nor let go of prefixes.\<close>

lemma sent_inv_move:
  assumes "sent_inv p" "heap_step (sessions p) (sessions q)" "pm_sent q = pm_sent p"
    and "\<And>i pkts. pm_tun q = TSend i pkts \<Longrightarrow> i < length (sessions p)"
    and "\<And>j x. length (sessions p) \<le> j \<Longrightarrow> j < length (sessions q) \<Longrightarrow> x \<in> set (ss_AssignedPrefixes (sessions q ! j)) \<Longrightarrow> prefix_wf x"
  shows "sent_inv q"
proof -
  have l: "length (sessions p) \<le> length (sessions q)"
    and s: "\<And>i. i < length (sessions p) \<Longrightarrow> ss_AssignedPrefixes (sessions q ! i) = ss_AssignedPrefixes (sessions p ! i)"
    using assms(2) by (auto simp: heap_step_def same_session_def)
  have "prefix_wf x" if "i < length (sessions q)" "x \<in> set (ss_AssignedPrefixes (sessions q ! i))" for i x
    using that assms(1) assms(5)[of i x] s[of i]
    by (cases "i < length (sessions p)") (auto simp: sent_inv_def wf_sessions_def)
  then have w: "wf_sessions q" by (simp add: wf_sessions_def)
  have "i < length (sessions q) \<and> (\<exists>pkt. outgoing (ss_AssignedPrefixes (sessions q ! i)) pkt = Some x)"
    if "(i, x) \<in> set (pm_sent q)" for i x
  proof -
    have "i < length (sessions p) \<and> (\<exists>pkt. outgoing (ss_AssignedPrefixes (sessions p ! i)) pkt = Some x)"
      using assms(1,3) that by (auto simp: sent_inv_def)
    with l s[of i] show ?thesis by auto
  qed
  then have c: "\<forall>(i, x) \<in> set (pm_sent q). i < length (sessions q) \<and>
      (\<exists>pkt. outgoing (ss_AssignedPrefixes (sessions q ! i)) pkt = Some x)" by blast
  have "i < length (sessions q)" if "pm_tun q = TSend i pkts" for i pkts
    using assms(4)[OF that] l by simp
  with w c show ?thesis by (simp add: sent_inv_def)
qed

lemma sent_inv_same:
  "sent_inv p \<Longrightarrow> sessions q = sessions p \<Longrightarrow> pm_sent q = pm_sent p \<Longrightarrow> pm_tun q = pm_tun p \<Longrightarrow> sent_inv q"
  by (simp add: sent_inv_def wf_sessions_def)

lemma sent_inv_tun: "sent_inv p \<Longrightarrow> pm_tun p = TSend i pkts \<Longrightarrow> i < length (sessions p)"
  by (simp add: sent_inv_def)

text \<open>Moves of \<open>Run\<close>: the reader and what it sent stay, no session is added.\<close>

lemma sent_inv_run_move:
  assumes "sent_inv p" "heap_step (sessions p) (sessions q)" "length (sessions q) = length (sessions p)"
    "pm_sent q = pm_sent p" "pm_tun q = pm_tun p"
  shows "sent_inv q"
  by (rule sent_inv_move[OF assms(1,2,4)]) (use assms(3,5) sent_inv_tun[OF assms(1)] in simp_all)

lemma sent_inv_run_step:
  assumes "sent_inv p"
  shows "sent_inv (run_step p)"
proof -
  have tun: "pm_tun (run_step p) = pm_tun p" "pm_sent (run_step p) = pm_sent p"
    by (auto simp: run_step_def setSession_def attach_tun_def goto_def split: run_pc.splits option.splits)
  have at: "heap_step (sessions p) (sessions (goto pc (setSession i (attach_tun dev i p)\<lparr>pm_backoff := b\<rparr>)))" for pc i dev b
    by (simp add: heap_step_def same_session_def setSession_def)
  have "heap_step (sessions p) (sessions (run_step p)) \<and> length (sessions (run_step p)) = length (sessions p)"
    using at by (auto simp: run_step_def heap_step_close_session heap_step_closeSession setSession_def
        split: run_pc.splits option.splits)
  with sent_inv_run_move[OF assms] tun show ?thesis by blast
qed

lemma sent_inv_tun_step:
  assumes s: "sent_inv p" and i: "pump_inv B p"
  shows "sent_inv (tun_step p)"
proof (cases "pm_tun p")
  case TErr
  have "sent_inv ((closeSession p)\<lparr>pm_tun := TDone\<rparr>)"
    by (rule sent_inv_move[OF s]) (simp_all add: heap_step_closeSession)
  with TErr show ?thesis by (simp add: tun_step_def)
next
  case (TGot pkts)
  have "sent_inv (p\<lparr>pm_tun := if ctx_done p then TDone else TPick pkts\<rparr>)"
    by (rule sent_inv_move[OF s]) (simp_all split: if_splits)
  with TGot show ?thesis by (simp add: tun_step_def)
next
  case (TPick pkts)
  have "sent_inv (p\<lparr>pm_tun := (case pm_sess p of None \<Rightarrow> TIdle
      | Some i \<Rightarrow> if ss_ipconn (sessions p ! i) = None then TIdle else TSend i pkts)\<rparr>)"
    by (rule sent_inv_move[OF s]) (use pump_invD(4)[OF i] in \<open>simp_all split: option.splits if_splits\<close>)
  with TPick show ?thesis by (simp add: tun_step_def)
next
  case (TSend k pkts)
  note k = sent_inv_tun[OF s TSend]
  have "sent_inv (p\<lparr>pm_tun := pc\<rparr>)" if "pc = TIdle \<or> (\<exists>r. pc = TSend k r)" for pc
    by (rule sent_inv_move[OF s]) (use k that in auto)
  with TSend s show ?thesis by (cases pkts) (auto simp: tun_step_def)
qed (use s in \<open>simp_all add: tun_step_def\<close>)

lemma sent_inv_write_step:
  assumes s: "sent_inv p"
  shows "sent_inv (write_step ok p)"
proof -
  have "sent_inv (write_step ok p)"
    if k: "pm_tun p = TSend k (pkt # pkts)" and q: "outgoing (ss_AssignedPrefixes (sessions p ! k)) pkt = Some q" for k pkt pkts q
  proof (cases ok)
    case True
    have "sent_inv (p\<lparr>pm_sent := pm_sent p @ [(k, q)], pm_tun := TSend k pkts\<rparr>)"
      using s q sent_inv_tun[OF s k] unfolding sent_inv_def wf_sessions_def by auto
    with True k q show ?thesis by (simp add: write_step_def)
  next
    case False
    have "sent_inv (p\<lparr>pm_tun := TIdle\<rparr>)" by (rule sent_inv_move[OF s]) simp_all
    with False k q show ?thesis by (simp add: write_step_def)
  qed
  with s show ?thesis
    by (cases "write_step ok p = p") (auto simp: write_step_def split: tun_pc.splits list.splits option.splits)
qed

lemma sent_inv_step:
  assumes s: "sent_inv p" and i: "pump_inv B p" and ok: "redial_ok good redial" and g: "\<forall>d. ev = EvRedial d \<longrightarrow> good d"
  shows "sent_inv (pump_step redial ev p)"
proof (cases ev)
  case (EvRedial d)
  with g have gd: "good d" by simp
  have "sent_inv (redial_step redial d p)"
  proof (cases rule: redial_step_cases[OF ok gd i, case_names idle moved])
    case (moved q r pc)
    have "k < length (sessions p)" if "pm_tun (goto pc q) = TSend k pkts" for k pkts
      using sent_inv_tun[OF s, of k pkts] that moved(2) by (simp add: pump_frame_def)
    moreover have "pm_sent (goto pc q) = pm_sent p" using moved(2) by (simp add: pump_frame_def)
    ultimately show ?thesis unfolding moved(1)
      by (intro sent_inv_move[OF s]) (use moved(3,7) in simp_all)
  qed (simp add: s)
  with EvRedial show ?thesis by simp
next
  case (EvTimer t)
  have "sent_inv (sleep_step t p)" by (rule sent_inv_same[OF s]) (auto simp: sleep_step_def)
  with EvTimer show ?thesis by simp
next
  case (EvConnPacket pkt ok)
  have "sent_inv (recv_step (Some (pkt, ok)) p)"
    by (rule sent_inv_same[OF s]) (auto simp: recv_step_def split: run_pc.splits)
  with EvConnPacket show ?thesis by simp
next
  case EvConnErr
  have "sent_inv (recv_step None p)"
    by (rule sent_inv_same[OF s]) (auto simp: recv_step_def split: run_pc.splits)
  with EvConnErr show ?thesis by simp
next
  case (EvTunBatch b)
  have "sent_inv (tun_read_step (Some b) p)"
    by (rule sent_inv_move[OF s]) (auto simp: tun_read_step_def sent_inv_tun[OF s] split: if_splits)
  with EvTunBatch show ?thesis by simp
next
  case EvTunErr
  have "sent_inv (tun_read_step None p)"
    by (rule sent_inv_move[OF s]) (auto simp: tun_read_step_def sent_inv_tun[OF s] split: if_splits)
  with EvTunErr show ?thesis by simp
next
  case EvCancel
  have "sent_inv (p\<lparr>ctx_done := True\<rparr>)" by (rule sent_inv_same[OF s]) simp_all
  with EvCancel show ?thesis by simp
qed (use s in \<open>simp_all add: sent_inv_run_step sent_inv_tun_step[OF s i] sent_inv_write_step\<close>)

lemma sent_inv_exec:
  "redial_ok good redial \<Longrightarrow> good_events good evs \<Longrightarrow> pump_inv B p \<Longrightarrow> sent_inv p \<Longrightarrow> sent_inv (pump_exec redial evs p)"
proof (induction evs arbitrary: p)
  case (Cons e evs)
  have g: "\<forall>d. e = EvRedial d \<longrightarrow> good d" using Cons.prems(2) by (auto simp: good_events_def)
  have gs: "good_events good evs" using Cons.prems(2) by (simp add: good_events_def)
  show ?case unfolding pump_exec_simps
    by (rule Cons.IH[OF Cons.prems(1) gs pump_inv_step[OF Cons.prems(3,1) g]
        sent_inv_step[OF Cons.prems(4,3,1) g]])
qed simp

lemma sent_inv_start:
  assumes "pump_ready B s m" "wf_sessions m"
  shows "sent_inv (Pump_Run (NewPump s True m))"
  using assms
  by (cases s) (auto simp: sent_inv_def wf_sessions_def Pump_Run_def NewPump_def Let_def pump_ready_def)

lemma outgoing_assigned:
  assumes "\<forall>x \<in> set ps. prefix_wf x" "outgoing ps pkt = Some q"
  shows "assigned_src q ps \<noteq> NoAddr \<and> src_of q = assigned_src q ps \<and> 2 \<le> uint (hop_limit q)"
proof -
  have "q = fst (prepareOutgoing (fst (normalizeTTL pkt)) ps)"
    using assms(2) by (auto simp: outgoing_def split: prod.splits if_splits)
  then have "assigned_src q ps = assigned_src pkt ps"
    by (simp add: assigned_src_def src.rw_version src.rw_length ttl.rw_version ttl.rw_length)
  with outgoing_spec[OF assms(1), of pkt] assms(2) show ?thesis by auto
qed

text \<open>
  C26. Whatever the interleaving and however often the session is replaced, every packet the
  pump sends carries the address that the session it is sent on was assigned for its family,
  and a hop limit of at least 2.
\<close>

theorem pump_sends_assigned:
  assumes "redial_ok good redial" "pump_ready B s m" "wf_sessions m" "good_events good evs"
    and "(i, q) \<in> set (pm_sent (pump_run redial s m evs))"
  shows "let ps = ss_AssignedPrefixes (sessions (pump_run redial s m evs) ! i)
    in assigned_src q ps \<noteq> NoAddr \<and> src_of q = assigned_src q ps \<and> 2 \<le> uint (hop_limit q)"
proof -
  let ?p = "pump_run redial s m evs"
  have "sent_inv ?p" unfolding pump_run_def
    by (rule sent_inv_exec[OF assms(1,4) pump_inv_start[OF assms(2)] sent_inv_start[OF assms(2,3)]])
  with assms(5) obtain pkt where "i < length (sessions ?p)" "outgoing (ss_AssignedPrefixes (sessions ?p ! i)) pkt = Some q"
    "\<forall>x \<in> set (ss_AssignedPrefixes (sessions ?p ! i)). prefix_wf x"
    by (auto simp: sent_inv_def wf_sessions_def)
  with outgoing_assigned show ?thesis by simp
qed

theorem pump_sends_assigned_witness:
  "let p = pump_run connect_redial (Some 0) demo_pump [EvTunBatch [demo_packet], EvTun, EvTun, EvWrite True];
       ps = ss_AssignedPrefixes (sessions p ! 0)
   in assigned_src (snd (hd (pm_sent p))) ps \<noteq> NoAddr \<and> src_of (snd (hd (pm_sent p))) = assigned_src (snd (hd (pm_sent p))) ps \<and>
      2 \<le> uint (hop_limit (snd (hd (pm_sent p))))"
proof -
  let ?evs = "[EvTunBatch [demo_packet], EvTun, EvTun, EvWrite True]"
  have wf: "wf_sessions demo_pump"
    by (simp add: wf_sessions_def demo_pump_def demo_conn_def demo_assigned_def prefix_from_def prefix_wf_def)
  have "outgoing demo_assigned demo_packet \<noteq> None" by code_simp
  then obtain q where q: "outgoing demo_assigned demo_packet = Some q" by blast
  have "pm_sent (pump_run connect_redial (Some 0) demo_pump ?evs) = [(0, q)]"
    by (simp add: pump_run_def Pump_Run_def NewPump_def demo_pump_def tun_read_step_def tun_step_def write_step_def
        attach_tun_def AttachTUN_def demo_conn_def q)
  then have "hd (pm_sent (pump_run connect_redial (Some 0) demo_pump ?evs)) = (0, q)"
    "(0, q) \<in> set (pm_sent (pump_run connect_redial (Some 0) demo_pump ?evs))" by simp_all
  with pump_sends_assigned[OF connect_redial_ok demo_ready wf _ this(2)] show ?thesis
    by (simp add: good_events_def)
qed

section \<open>The end\<close>

fun run_rank :: "run_pc \<Rightarrow> nat" where
  "run_rank (RDone _) = 0" | "run_rank (RReturn _) = 1" | "run_rank RAfter = 1"
| "run_rank RClose = 2" | "run_rank RTop = 2" | "run_rank RFailed = 2"
| "run_rank RSleep = 3" | "run_rank (RRead _) = 3" | "run_rank (RRecv _) = 4" | "run_rank (RSet _) = 4"
| "run_rank (RCheck _) = 5" | "run_rank RDial = 6" | "run_rank RSess = 7" | "run_rank RTun = 8"

text \<open>How often the goroutine of \<open>Run\<close> moves.\<close>

fun run_moves :: "('d, 'x) redial \<Rightarrow> 'd pump_event list \<Rightarrow> 'x pump_scheme \<Rightarrow> nat" where
  "run_moves redial [] p = 0"
| "run_moves redial (ev # evs) p =
     (let q = pump_step redial ev p in (if pm_run q \<noteq> pm_run p then 1 else 0) + run_moves redial evs q)"

lemma run_pc_tun_steps:
  "pm_run (tun_step p) = pm_run p" "pm_run (tun_read_step r p) = pm_run p" "pm_run (write_step ok p) = pm_run p"
  by (auto simp: tun_step_def tun_read_step_def write_step_def split: tun_pc.splits option.splits list.splits)

lemma cancelled_step:
  assumes c: "ctx_done p" and i: "pump_inv B p" and ok: "redial_ok good redial" and g: "\<forall>d. ev = EvRedial d \<longrightarrow> good d"
  shows "ctx_done (pump_step redial ev p) \<and>
    (pm_run (pump_step redial ev p) = pm_run p \<or> run_rank (pm_run (pump_step redial ev p)) < run_rank (pm_run p))"
proof (cases ev)
  case (EvRedial d)
  with g have gd: "good d" by simp
  have "ctx_done (redial_step redial d p) \<and>
    (pm_run (redial_step redial d p) = pm_run p \<or> run_rank (pm_run (redial_step redial d p)) < run_rank (pm_run p))"
  proof (cases rule: redial_step_cases[OF ok gd i, case_names idle moved])
    case idle
    with c show ?thesis by simp
  next
    case (moved q r pc)
    with c show ?thesis by (auto simp: pump_frame_def)
  qed
  with EvRedial show ?thesis by simp
next
  case EvRun
  have "pm_run (run_step p) = pm_run p \<or> run_rank (pm_run (run_step p)) < run_rank (pm_run p)"
    using c by (cases "pm_run p") (auto simp: run_step_def split: option.splits)
  with c show ?thesis using EvRun by simp
next
  case (EvTimer t)
  with c show ?thesis by (cases "pm_run p") (auto simp: sleep_step_def)
next
  case (EvConnPacket pkt w)
  with c show ?thesis by (cases "pm_run p") (auto simp: recv_step_def)
next
  case EvConnErr
  with c show ?thesis by (cases "pm_run p") (auto simp: recv_step_def)
next
  case EvTun
  with c show ?thesis by (simp add: run_pc_tun_steps)
next
  case (EvWrite w)
  with c show ?thesis by (simp add: run_pc_tun_steps)
qed (use c in \<open>simp_all add: run_pc_tun_steps\<close>)

lemma cancelled_moves:
  "redial_ok good redial \<Longrightarrow> good_events good evs \<Longrightarrow> pump_inv B p \<Longrightarrow> ctx_done p \<Longrightarrow>
   run_moves redial evs p + run_rank (pm_run (pump_exec redial evs p)) \<le> run_rank (pm_run p)"
proof (induction evs arbitrary: p)
  case (Cons e evs)
  have g: "\<forall>d. e = EvRedial d \<longrightarrow> good d" using Cons.prems(2) by (auto simp: good_events_def)
  have gs: "good_events good evs" using Cons.prems(2) by (simp add: good_events_def)
  note st = cancelled_step[OF Cons.prems(4,3,1) g]
  have "run_moves redial evs (pump_step redial e p) + run_rank (pm_run (pump_exec redial evs (pump_step redial e p)))
      \<le> run_rank (pm_run (pump_step redial e p))"
    by (rule Cons.IH[OF Cons.prems(1) gs pump_inv_step[OF Cons.prems(3,1) g]]) (use st in simp)
  with st show ?case by (auto simp: Let_def)
qed simp

lemma run_rank_bound: "run_rank pc \<le> 8"
  by (cases pc) simp_all

lemma run_enabled:
  assumes c: "ctx_done p" and n: "\<forall>r. pm_run p \<noteq> RDone r"
  shows "\<exists>ev \<in> {EvRun, EvTimer False, EvConnErr, EvRedial d}. pm_run (pump_step redial ev p) \<noteq> pm_run p"
proof -
  have "pm_run (run_step p) \<noteq> pm_run p \<or> pm_run (sleep_step False p) \<noteq> pm_run p \<or> pm_run (recv_step None p) \<noteq> pm_run p \<or>
      pm_run (redial_step redial d p) \<noteq> pm_run p"
    using c n by (cases "pm_run p") (auto simp: run_step_def sleep_step_def recv_step_def redial_step_def
        split: option.splits prod.splits sum.splits)
  then show ?thesis by auto
qed

text \<open>
  C27. After a cancellation \<open>Run\<close> is at most 8 of its own moves from returning, whatever the
  TUN reader, the server and the redials do, and as long as it has not returned the call it
  waits for can let it move on. It never starts over.
\<close>

theorem pump_cancel_ends:
  assumes "redial_ok good redial" "pump_ready B s m" "good_events good before" "good_events good evs"
    and "p = pump_run redial s m before" "ctx_done p"
  shows "run_moves redial evs p \<le> 8 \<and>
    (run_moves redial evs p = 8 \<longrightarrow> (\<exists>r. pm_run (pump_exec redial evs p) = RDone r)) \<and>
    (\<forall>d. (\<forall>r. pm_run p \<noteq> RDone r) \<longrightarrow>
       (\<exists>ev \<in> {EvRun, EvTimer False, EvConnErr, EvRedial d}. pm_run (pump_step redial ev p) \<noteq> pm_run p))"
proof -
  have i: "pump_inv B p" unfolding assms(5) using assms(1-3) by (rule pump_run_inv)
  note m = cancelled_moves[OF assms(1,4) i assms(6)] run_rank_bound[of "pm_run p"]
  have a: "run_moves redial evs p \<le> 8" using m by linarith
  have "\<exists>r. pm_run (pump_exec redial evs p) = RDone r" if "run_moves redial evs p = 8"
    using m that by (cases "pm_run (pump_exec redial evs p)") simp_all
  then have b: "run_moves redial evs p = 8 \<longrightarrow> (\<exists>r. pm_run (pump_exec redial evs p) = RDone r)" by blast
  have "\<forall>d. (\<forall>r. pm_run p \<noteq> RDone r) \<longrightarrow>
      (\<exists>ev \<in> {EvRun, EvTimer False, EvConnErr, EvRedial d}. pm_run (pump_step redial ev p) \<noteq> pm_run p)"
    by (intro allI impI) (rule run_enabled[OF assms(6)])
  with a b show ?thesis by (intro conjI)
qed

theorem pump_cancel_ends_witness:
  "let p = pump_run connect_redial (Some 0) demo_pump [EvRun, EvRun, EvRun, EvRun, EvCancel]
   in pm_run p = RRecv 0 \<and> run_moves connect_redial [EvTunErr, EvConnErr, EvRun, EvRun, EvRun] p \<le> 8"
proof -
  let ?p = "pump_run connect_redial (Some 0) demo_pump [EvRun, EvRun, EvRun, EvRun, EvCancel]"
  have c: "ctx_done ?p" "pm_run ?p = RRecv 0"
    by (simp_all add: pump_run_def Pump_Run_def NewPump_def demo_pump_def run_step_def attach_tun_def goto_def)
  have g: "good_events good_dial [EvRun, EvRun, EvRun, EvRun, EvCancel]"
    "good_events good_dial [EvTunErr, EvConnErr, EvRun, EvRun, EvRun]" by (simp_all add: good_events_def)
  from pump_cancel_ends[OF connect_redial_ok demo_ready g refl c(1)] c(2) show ?thesis by (simp add: Let_def)
qed

text \<open>
  C28. A TUN failure can be lost. If the reader fails between \<open>Run\<close>'s check of the TUN error
  and its \<open>setSession\<close>, the reader's \<open>closeSession\<close> finds no session: \<open>Run\<close> goes on to
  block in \<open>ReadPacket\<close> on the fresh, open session, with a dead reader and the error on
  record, and nothing but the server moves it, not even a cancellation.
\<close>

theorem pump_lost_tun_error:
  assumes "pm_run p = RSet i" "pm_tun p = TIdle" "pm_sess p = None" "pm_tunErr p = None" "\<not> ctx_done p"
    and "i < length (sessions p)" "\<not> ss_done (sessions p ! i)"
  shows "let q = pump_exec redial [EvTunErr, EvTun, EvRun, EvRun] p
    in pm_tun q = TDone \<and> pm_tunErr q = Some DevRead \<and> pm_run q = RRecv i \<and> \<not> ss_done (sessions q ! i) \<and>
       (\<forall>ev. ev = EvConnErr \<or> (\<exists>pkt ok. ev = EvConnPacket pkt ok) \<or>
          (let q' = pump_step redial ev q in pm_run q' = RRecv i \<and> \<not> ss_done (sessions q' ! i)))"
proof -
  define q where "q = pump_exec redial [EvTunErr, EvTun, EvRun, EvRun] p"
  have q: "pm_tun q = TDone" "pm_tunErr q = Some DevRead" "pm_run q = RRecv i" "\<not> ss_done (sessions q ! i)"
    using assms
    by (simp_all add: q_def tun_read_step_def setTunErr_def tun_step_def closeSession_def run_step_def goto_def
        setSession_def attach_tun_def AttachTUN_def)
  have "pm_run (pump_step redial ev q) = RRecv i \<and> \<not> ss_done (sessions (pump_step redial ev q) ! i)"
    if "ev \<noteq> EvConnErr" "\<forall>pkt ok. ev \<noteq> EvConnPacket pkt ok" for ev
    using that q
    by (cases ev) (auto simp: run_step_def sleep_step_def redial_step_def tun_step_def tun_read_step_def write_step_def)
  with q show ?thesis unfolding q_def[symmetric] Let_def by blast
qed

definition lost_events :: "(connect_env \<times> profile \<times> bool \<times> bool) pump_event list" where
  "lost_events = [EvRun, EvRun, EvRun, EvRun, EvConnErr, EvRun, EvRun, EvRun, EvRun, EvRun, EvRedial demo_dial, EvRun]"

theorem pump_lost_tun_error_witness:
  "\<exists>q. q = pump_exec connect_redial [EvTunErr, EvTun, EvRun, EvRun] (pump_run connect_redial (Some 0) demo_pump lost_events) \<and>
     pm_tunErr q = Some DevRead \<and> pm_run q = RRecv 1 \<and> \<not> ss_done (sessions q ! 1)"
proof -
  let ?p = "pump_run connect_redial (Some 0) demo_pump lost_events"
  have "pm_run ?p = RSet 1 \<and> pm_tun ?p = TIdle \<and> pm_sess ?p = None \<and> pm_tunErr ?p = None \<and> \<not> ctx_done ?p \<and>
      length (sessions ?p) = 2 \<and> \<not> ss_done (sessions ?p ! 1)"
    by code_simp
  with pump_lost_tun_error[of ?p 1 connect_redial] show ?thesis by (simp add: Let_def)
qed

end
