(* ===== verification/Fifo.thy ===== *)
theory Fifo
  imports Prelude "HOL-Library.Sublist"
begin

text \<open>
  The contract of a bounded, lossy packet queue as its users see it: every operation leaves
  the queue alone, appends what it offers while there is room, or removes the oldest packet,
  handing it out or dropping it. The client side, proved once here: over any sequence of
  operations the packets handed out are a subsequence of the packets offered, in order,
  unaltered and without duplicates, and the queue never exceeds its capacity.
\<close>

lemma subseq_insert_mid: "subseq xs (a @ b) \<Longrightarrow> subseq xs (a @ c @ b)"
proof -
  assume "subseq xs (a @ b)"
  moreover have "subseq (a @ b) (a @ c @ b)" by (simp add: subseq_append' list_emb_append2)
  ultimately show ?thesis by (rule subseq_order.order_trans)
qed

locale fifo_queue =
  fixes inv :: "'s \<Rightarrow> bool"
    and step :: "'o \<Rightarrow> 's \<Rightarrow> 's \<times> 'r"
    and content :: "'s \<Rightarrow> 'a list"
    and offer :: "'o \<Rightarrow> 'a list"
    and got :: "'o \<Rightarrow> 'r \<Rightarrow> 'a list"
    and cap :: nat
  assumes step_inv: "inv s \<Longrightarrow> inv (fst (step c s))"
    and step_content: "inv s \<Longrightarrow> step c s = (s', r) \<Longrightarrow>
      (\<exists>acc. subseq acc (offer c) \<and> content s' = content s @ acc \<and> got c r = []) \<or>
      (\<exists>y. content s = y # content s' \<and> (got c r = [y] \<or> got c r = []))"
    and step_bound: "inv s \<Longrightarrow> length (content s) \<le> cap \<Longrightarrow> length (content (fst (step c s))) \<le> cap"
begin

fun run_queue :: "'o list \<Rightarrow> 's \<Rightarrow> 's \<times> 'a list" where
  "run_queue [] s = (s, [])"
| "run_queue (c # cs) s =
     (case step c s of (s, r) \<Rightarrow> (case run_queue cs s of (s, ys) \<Rightarrow> (s, got c r @ ys)))"

lemma run_queue_inv: "inv s \<Longrightarrow> inv (fst (run_queue cs s))"
proof (induction cs arbitrary: s)
  case (Cons c cs)
  from Cons.IH[OF step_inv[OF Cons.prems, of c]] show ?case by (simp add: split_beta)
qed simp

lemma run_queue_bound: "inv s \<Longrightarrow> length (content s) \<le> cap \<Longrightarrow> length (content (fst (run_queue cs s))) \<le> cap"
proof (induction cs arbitrary: s)
  case (Cons c cs)
  from Cons.IH[OF step_inv[OF Cons.prems(1), of c] step_bound[OF Cons.prems, of c]]
  show ?case by (simp add: split_beta)
qed simp

lemma run_queue_subseq:
  "inv s \<Longrightarrow> run_queue cs s = (s', ys) \<Longrightarrow> subseq (ys @ content s') (content s @ concat (map offer cs))"
proof (induction cs arbitrary: s ys)
  case (Cons c cs)
  obtain s1 r where st: "step c s = (s1, r)" by (cases "step c s")
  obtain s2 zs where run: "run_queue cs s1 = (s2, zs)" by (cases "run_queue cs s1")
  have e: "s' = s2" "ys = got c r @ zs" using Cons.prems(2) st run by auto
  have "inv s1" using step_inv[OF Cons.prems(1), of c] st by simp
  from Cons.IH[OF this run[folded e(1)]] e(1) have ih: "subseq (zs @ content s2) (content s1 @ concat (map offer cs))" by simp
  from step_content[OF Cons.prems(1) st] show ?case
  proof (elim disjE exE conjE)
    fix acc assume a: "subseq acc (offer c)" "content s1 = content s @ acc" "got c r = []"
    have "subseq (content s @ acc @ concat (map offer cs)) (content s @ offer c @ concat (map offer cs))"
      using a(1) by (simp add: subseq_append')
    moreover have "subseq (zs @ content s2) (content s @ acc @ concat (map offer cs))" using ih a(2) by simp
    ultimately show ?thesis using e a(3) subseq_order.order_trans by fastforce
  next
    fix y assume a: "content s = y # content s1" "got c r = [y]"
    then show ?thesis using subseq_insert_mid[OF ih] e by simp
  next
    fix y assume a: "content s = y # content s1" "got c r = []"
    then have "subseq (zs @ content s2) (y # content s1 @ concat (map offer cs))"
      using ih by (simp add: list_emb_Cons)
    then show ?thesis using e a subseq_insert_mid[of "zs @ content s2" "y # content s1" "concat (map offer cs)" "offer c"] by simp
  qed
qed simp

end

end
