(* ===== verification/Bridge.thy ===== *)
theory Bridge
  imports Fifo NetParse
begin

text \<open>
  The packet bridge and the datagram pipe of the mobile package
  (\<open>mobile/packet_bridge.go\<close>, \<open>datagram.go\<close>, \<open>memory.go\<close>): bounded channels of pooled
  buffers. Buffers live in an explicit store, so that recycling one that is still queued
  would be visible. One state holds the buffer pool, one bridge and one pipe.
\<close>

section \<open>The buffer pool\<close>

text \<open>The array behind a buffer, the length of the slice, its capacity; the pool of free buffers.\<close>

record bufmem =
  bm_arr :: "nat \<Rightarrow> nat \<Rightarrow> byte"
  bm_len :: "nat \<Rightarrow> nat"
  bm_cap :: "nat \<Rightarrow> int"
  bm_next :: nat
  bm_pool :: "nat list"

definition packetBufSize :: int where "packetBufSize = 2048"

definition buf_bytes :: "'x bufmem_scheme \<Rightarrow> nat \<Rightarrow> bytes" where
  "buf_bytes m p = map (bm_arr m p) [0..<bm_len m p]"

definition new_buf :: "int \<Rightarrow> 'x bufmem_scheme \<Rightarrow> 'x bufmem_scheme \<times> nat" where
  "new_buf cap m =
     (let p = bm_next m
      in (m\<lparr>bm_next := p + 1, bm_arr := (bm_arr m)(p := (\<lambda>_. 0)), bm_cap := (bm_cap m)(p := cap)\<rparr>, p))"

text \<open>\<open>sync.Pool\<close> hands out any free buffer, or a new one.\<close>

definition pool_Get :: "nat option \<Rightarrow> 'x bufmem_scheme \<Rightarrow> 'x bufmem_scheme \<times> nat" where
  "pool_Get pick m =
     (case pick of
        Some p \<Rightarrow> if p \<in> set (bm_pool m) then (m\<lparr>bm_pool := remove1 p (bm_pool m)\<rparr>, p) else new_buf packetBufSize m
      | None \<Rightarrow> new_buf packetBufSize m)"

definition copy_buf :: "bytes \<Rightarrow> nat \<Rightarrow> 'x bufmem_scheme \<Rightarrow> 'x bufmem_scheme" where
  "copy_buf src p m =
     m\<lparr>bm_arr := (bm_arr m)(p := (\<lambda>i. if i < length src then src ! i else bm_arr m p i)),
       bm_len := (bm_len m)(p := length src)\<rparr>"

definition getBuf :: "nat option \<Rightarrow> bytes \<Rightarrow> 'x bufmem_scheme \<Rightarrow> 'x bufmem_scheme \<times> nat" where
  "getBuf pick src m =
     (case (if int (length src) > packetBufSize then new_buf (int (length src)) m else pool_Get pick m) of
        (m, p) \<Rightarrow> (copy_buf src p m, p))"

definition putBuf :: "nat \<Rightarrow> 'x bufmem_scheme \<Rightarrow> 'x bufmem_scheme" where
  "putBuf p m =
     (if bm_cap m p \<noteq> packetBufSize then m
      else m\<lparr>bm_len := (bm_len m)(p := nat packetBufSize), bm_pool := p # bm_pool m\<rparr>)"

definition defaultExtensionLimitMB :: int where "defaultExtensionLimitMB = 12"

text \<open>The memory limit in bytes and the collector's percentage.\<close>

definition TuneForExtension :: "int \<Rightarrow> 64 word \<times> int" where
  "TuneForExtension limitMB =
     (let limitMB = (if limitMB \<le> 0 then defaultExtensionLimitMB else limitMB)
      in (push_bit 20 (word_of_int limitMB), 40))"

definition HeapKB :: "64 word \<Rightarrow> 64 word" where
  "HeapKB heapAlloc = drop_bit 10 heapAlloc"

section \<open>The state\<close>

text \<open>Channels hold buffers; \<open>dp_poke\<close> is the one-element channel that wakes a reader.\<close>

record io = bufmem +
  br_attached :: bool
  br_mtu :: int
  br_fromOS :: "nat list"
  br_toOS :: "nat list"
  br_closed :: bool
  dp_incoming :: "nat list"
  dp_closed :: bool
  dp_poke :: bool
  dp_readDead :: "int option"

definition bridgeQueue :: nat where "bridgeQueue = 64"
definition datagramQueue :: nat where "datagramQueue = 64"

section \<open>The bridge\<close>

definition newBridgeTUN :: "int \<Rightarrow> 'x io_scheme \<Rightarrow> 'x io_scheme" where
  "newBridgeTUN mtu io =
     io\<lparr>br_attached := True, br_mtu := (if mtu \<le> 0 then 1369 else mtu), br_fromOS := [], br_toOS := [], br_closed := False\<rparr>"

datatype io_result = IoOk | IoErr | IoClosed | IoShort | IoBlocked | IoTimeout | IoRetry
  | IoTun bytes | IoPkt bytes | IoDgram bytes | IoCount nat bool

text \<open>
  A \<open>select\<close> with several ready cases takes any of them: \<open>sel\<close> chooses the closed case when
  it is ready beside another.
\<close>

definition bridge_WritePacket :: "nat option \<Rightarrow> bool \<Rightarrow> bytes \<Rightarrow> 'x io_scheme \<Rightarrow> 'x io_scheme \<times> io_result" where
  "bridge_WritePacket pick sel pkt io =
     (if pkt = [] then (io, IoOk)
      else if \<not> br_attached io then (io, IoErr)
      else case getBuf pick pkt io of
        (io, cp) \<Rightarrow>
          if br_closed io \<and> (sel \<or> length (br_fromOS io) \<ge> bridgeQueue) then (putBuf cp io, IoErr)
          else if length (br_fromOS io) < bridgeQueue then (io\<lparr>br_fromOS := br_fromOS io @ [cp]\<rparr>, IoOk)
          else (putBuf cp io, IoOk))"

text \<open>\<open>Read\<close> fills the first of the caller's buffers, of the given lengths.\<close>

definition bridge_Read :: "bool \<Rightarrow> nat list \<Rightarrow> nat \<Rightarrow> 'x io_scheme \<Rightarrow> 'x io_scheme \<times> io_result" where
  "bridge_Read sel lens offset io =
     (if lens = [] then (io, IoShort)
      else if br_closed io \<and> (sel \<or> br_fromOS io = []) then (io, IoClosed)
      else case br_fromOS io of
             [] \<Rightarrow> (io, IoBlocked)
           | p # rest \<Rightarrow>
               let io = io\<lparr>br_fromOS := rest\<rparr>; pkt = buf_bytes io p
               in if offset + length pkt > hd lens then (putBuf p io, IoShort)
                  else (putBuf p io, IoTun pkt))"

fun bridge_Write :: "nat \<Rightarrow> (nat option \<times> bool \<times> bytes) list \<Rightarrow> nat \<Rightarrow> 'x io_scheme \<Rightarrow> 'x io_scheme \<times> io_result" where
  "bridge_Write offset [] n io = (io, IoCount n True)"
| "bridge_Write offset ((pick, sel, buf) # bufs) n io =
     (if offset > length buf then bridge_Write offset bufs n io
      else case getBuf pick (drop offset buf) io of
        (io, p) \<Rightarrow>
          if br_closed io \<and> (sel \<or> length (br_toOS io) \<ge> bridgeQueue) then (putBuf p io, IoCount n False)
          else if length (br_toOS io) < bridgeQueue
          then bridge_Write offset bufs (n + 1) (io\<lparr>br_toOS := br_toOS io @ [p]\<rparr>)
          else bridge_Write offset bufs (n + 1) (putBuf p io))"

definition bridge_ReadPacket :: "bool \<Rightarrow> 'x io_scheme \<Rightarrow> 'x io_scheme \<times> io_result" where
  "bridge_ReadPacket sel io =
     (if \<not> br_attached io then (io, IoClosed)
      else if br_closed io \<and> (sel \<or> br_toOS io = []) then (io, IoClosed)
      else case br_toOS io of
             [] \<Rightarrow> (io, IoBlocked)
           | p # rest \<Rightarrow>
               let io = io\<lparr>br_toOS := rest\<rparr>; out = buf_bytes io p in (putBuf p io, IoPkt out))"

definition bridge_Close :: "'x io_scheme \<Rightarrow> 'x io_scheme" where
  "bridge_Close io = io\<lparr>br_closed := True\<rparr>"

section \<open>The datagram pipe\<close>

text \<open>\<open>resolve\<close> is the standard library's address resolution.\<close>

definition NewDatagramPipe ::
  "(string \<Rightarrow> int \<Rightarrow> bool) \<Rightarrow> bool \<Rightarrow> string \<Rightarrow> int \<Rightarrow> 'x io_scheme \<Rightarrow> ('x io_scheme) option" where
  "NewDatagramPipe resolve has_writer host port io =
     (if \<not> has_writer then None
      else if host = [] \<or> port \<le> 0 \<or> port > 65535 then None
      else if \<not> resolve host port then None
      else Some (io\<lparr>dp_incoming := [], dp_closed := False, dp_poke := False, dp_readDead := None\<rparr>))"

definition pipe_deliver :: "nat option \<Rightarrow> bool \<Rightarrow> bytes \<Rightarrow> 'x io_scheme \<Rightarrow> 'x io_scheme" where
  "pipe_deliver pick sel b io =
     (case getBuf pick b io of
        (io, cp) \<Rightarrow>
          if dp_closed io \<and> (sel \<or> length (dp_incoming io) \<ge> datagramQueue) then putBuf cp io
          else if length (dp_incoming io) < datagramQueue then io\<lparr>dp_incoming := dp_incoming io @ [cp]\<rparr>
          else putBuf cp io)"

definition Deliver :: "nat option \<Rightarrow> bool \<Rightarrow> bytes \<Rightarrow> 'x io_scheme \<Rightarrow> 'x io_scheme" where
  "Deliver pick sel b io = (if b = [] then io else pipe_deliver pick sel b io)"

definition pipe_Close :: "'x io_scheme \<Rightarrow> 'x io_scheme" where
  "pipe_Close io = io\<lparr>dp_closed := True\<rparr>"

definition SetReadDeadline :: "int option \<Rightarrow> 'x io_scheme \<Rightarrow> 'x io_scheme" where
  "SetReadDeadline t io = io\<lparr>dp_readDead := t, dp_poke := True\<rparr>"

definition readDeadlineErr :: "int \<Rightarrow> 'x io_scheme \<Rightarrow> bool" where
  "readDeadlineErr now io = (case dp_readDead io of None \<Rightarrow> False | Some dl \<Rightarrow> dl \<le> now)"

text \<open>
  One round of \<open>ReadFrom\<close>: the checks at the top, and the \<open>select\<close>, which waits with the
  deadline read before it. A round that is poked starts over.
\<close>

definition ReadFrom_top :: "int \<Rightarrow> 'x io_scheme \<Rightarrow> io_result option" where
  "ReadFrom_top now io =
     (if dp_closed io then Some IoClosed
      else if readDeadlineErr now io then Some IoTimeout
      else None)"

datatype select_case = SelClosed | SelIncoming | SelTimer int | SelPoke

definition ReadFrom_select :: "nat \<Rightarrow> int option \<Rightarrow> select_case \<Rightarrow> 'x io_scheme \<Rightarrow> 'x io_scheme \<times> io_result" where
  "ReadFrom_select n dl c io =
     (case c of
        SelClosed \<Rightarrow> (io, if dp_closed io then IoClosed else IoBlocked)
      | SelIncoming \<Rightarrow>
          (case dp_incoming io of
             [] \<Rightarrow> (io, IoBlocked)
           | p # rest \<Rightarrow>
               let io = io\<lparr>dp_incoming := rest\<rparr> in (putBuf p io, IoDgram (take n (buf_bytes io p))))
      | SelTimer now \<Rightarrow> (io, case dl of None \<Rightarrow> IoBlocked | Some d \<Rightarrow> if d \<le> now then IoTimeout else IoBlocked)
      | SelPoke \<Rightarrow> if dp_poke io then (io\<lparr>dp_poke := False\<rparr>, IoRetry) else (io, IoBlocked))"

definition pipe_WriteTo :: "bool \<Rightarrow> bytes \<Rightarrow> 'x io_scheme \<Rightarrow> io_result" where
  "pipe_WriteTo writer_ok p io =
     (if dp_closed io then IoClosed
      else if p = [] then IoCount 0 True
      else if writer_ok then IoCount (length p) True else IoErr)"

section \<open>All operations\<close>

datatype io_op =
  OpWritePacket "nat option" bool bytes | OpRead bool "nat list" nat | OpWrite nat "(nat option \<times> bool \<times> bytes) list"
| OpReadPacket bool | OpBridgeClose | OpDeliver "nat option" bool bytes | OpSelect nat "int option" select_case
| OpSetDeadline "int option" | OpPipeClose

fun io_step :: "io_op \<Rightarrow> 'x io_scheme \<Rightarrow> 'x io_scheme \<times> io_result" where
  "io_step (OpWritePacket pick sel pkt) io = bridge_WritePacket pick sel pkt io"
| "io_step (OpRead sel lens offset) io = bridge_Read sel lens offset io"
| "io_step (OpWrite offset bufs) io = bridge_Write offset bufs 0 io"
| "io_step (OpReadPacket sel) io = bridge_ReadPacket sel io"
| "io_step OpBridgeClose io = (bridge_Close io, IoOk)"
| "io_step (OpDeliver pick sel b) io = (Deliver pick sel b io, IoOk)"
| "io_step (OpSelect n dl c) io = ReadFrom_select n dl c io"
| "io_step (OpSetDeadline t) io = (SetReadDeadline t io, IoOk)"
| "io_step OpPipeClose io = (pipe_Close io, IoOk)"

end
