(* ===== verification/BridgeProps.thy ===== *)
theory BridgeProps
  imports Bridge
begin

text \<open>Recycling a buffer never touches a queued packet; the three queues are bounded and in order.\<close>

section \<open>Ownership of buffers\<close>

text \<open>The free buffers and the queued ones \<open>qs\<close> are all different.\<close>

definition bufs_ok :: "'x bufmem_scheme \<Rightarrow> nat list \<Rightarrow> bool" where
  "bufs_ok m qs \<longleftrightarrow> distinct (bm_pool m) \<and> distinct qs \<and> set (bm_pool m) \<inter> set qs = {} \<and>
     (\<forall>p \<in> set (bm_pool m) \<union> set qs. p < bm_next m)"

lemma bufs_ok_cong: "bufs_ok m qs \<Longrightarrow> distinct rs \<Longrightarrow> set rs \<subseteq> set qs \<Longrightarrow> bufs_ok m rs"
  by (auto simp: bufs_ok_def)

lemma bufs_ok_state:
  "bm_pool m' = bm_pool m \<Longrightarrow> bm_next m' = bm_next m \<Longrightarrow> bufs_ok m' qs = bufs_ok m qs"
  by (simp add: bufs_ok_def)

lemma getBuf_ok:
  assumes "bufs_ok m qs" "getBuf pick src m = (m', p)"
  shows "bufs_ok m' (p # qs)" "p \<notin> set qs" "buf_bytes m' p = src" "\<And>q. q \<in> set qs \<Longrightarrow> buf_bytes m' q = buf_bytes m q"
proof -
  have copy: "buf_bytes (copy_buf src p k) p = src" for k :: "'a bufmem_scheme"
    by (rule nth_equalityI) (auto simp: buf_bytes_def copy_buf_def)
  have other: "buf_bytes (copy_buf src p k) q = buf_bytes k q" if "q \<noteq> p" for q and k :: "'a bufmem_scheme"
    using that by (simp add: buf_bytes_def copy_buf_def)
  have pool: "bm_pool (copy_buf src p k) = bm_pool k" "bm_next (copy_buf src p k) = bm_next k" for k :: "'a bufmem_scheme"
    by (simp_all add: copy_buf_def)
  consider (fresh) k cap where "new_buf cap m = (k, p)" "m' = copy_buf src p k"
    | (pooled) k where "p \<in> set (bm_pool m)" "k = m\<lparr>bm_pool := remove1 p (bm_pool m)\<rparr>" "m' = copy_buf src p k"
    using assms(2) by (auto simp: getBuf_def pool_Get_def split: if_splits prod.splits option.splits)
  then have "bufs_ok m' (p # qs) \<and> p \<notin> set qs \<and> buf_bytes m' p = src \<and> (\<forall>q \<in> set qs. buf_bytes m' q = buf_bytes m q)"
  proof cases
    case fresh
    then have k: "p = bm_next m" "bm_next k = Suc p" "bm_pool k = bm_pool m" "\<And>q. q \<noteq> p \<Longrightarrow> buf_bytes k q = buf_bytes m q"
      by (auto simp: new_buf_def Let_def buf_bytes_def)
    have new: "p \<notin> set qs" "p \<notin> set (bm_pool m)" using assms(1) k(1) by (auto simp: bufs_ok_def)
    have "bufs_ok m' (p # qs)"
      using assms(1) new k(1,2,3) pool[of k] unfolding fresh(2) by (auto simp: bufs_ok_def intro: less_SucI)
    with new copy[of k] other[of _ k] k(4) show ?thesis unfolding fresh(2) by metis
  next
    case pooled
    have np: "p \<notin> set qs" using assms(1) pooled(1) by (auto simp: bufs_ok_def)
    have d: "distinct (remove1 p (bm_pool m))" "set (remove1 p (bm_pool m)) = set (bm_pool m) - {p}"
      using assms(1) by (simp_all add: bufs_ok_def)
    have "bufs_ok m' (p # qs)"
      using assms(1) np pooled(1) d pool[of k] unfolding pooled(2,3) by (auto simp: bufs_ok_def)
    moreover have "buf_bytes k q = buf_bytes m q" for q by (simp add: pooled(2) buf_bytes_def)
    ultimately show ?thesis using np copy[of k] other[of _ k] unfolding pooled(3) by metis
  qed
  then show "bufs_ok m' (p # qs)" "p \<notin> set qs" "buf_bytes m' p = src" "\<And>q. q \<in> set qs \<Longrightarrow> buf_bytes m' q = buf_bytes m q"
    by auto
qed

lemma putBuf_ok:
  assumes "bufs_ok m (p # qs)"
  shows "bufs_ok (putBuf p m) qs" "\<And>q. q \<in> set qs \<Longrightarrow> buf_bytes (putBuf p m) q = buf_bytes m q"
  using assms by (auto simp: bufs_ok_def putBuf_def buf_bytes_def)

text \<open>Neither touches the channels.\<close>

lemma getBuf_frame:
  fixes io :: "'x io_scheme"
  assumes "getBuf pick src io = (io', p)"
  shows "br_attached io' = br_attached io" "br_mtu io' = br_mtu io" "br_fromOS io' = br_fromOS io"
    "br_toOS io' = br_toOS io" "br_closed io' = br_closed io" "dp_incoming io' = dp_incoming io"
    "dp_closed io' = dp_closed io" "dp_poke io' = dp_poke io" "dp_readDead io' = dp_readDead io"
  using assms by (auto simp: getBuf_def pool_Get_def new_buf_def copy_buf_def Let_def split: if_splits option.splits)

lemma putBuf_frame [simp]:
  fixes io :: "'x io_scheme"
  shows "br_attached (putBuf p io) = br_attached io" "br_mtu (putBuf p io) = br_mtu io"
    "br_fromOS (putBuf p io) = br_fromOS io" "br_toOS (putBuf p io) = br_toOS io" "br_closed (putBuf p io) = br_closed io"
    "dp_incoming (putBuf p io) = dp_incoming io" "dp_closed (putBuf p io) = dp_closed io"
    "dp_poke (putBuf p io) = dp_poke io" "dp_readDead (putBuf p io) = dp_readDead io"
  by (simp_all add: putBuf_def)

section \<open>The invariant and the queues\<close>

definition queued :: "'x io_scheme \<Rightarrow> nat list" where
  "queued io = br_fromOS io @ br_toOS io @ dp_incoming io"

definition io_ok :: "'x io_scheme \<Rightarrow> bool" where
  "io_ok io \<longleftrightarrow> bufs_ok io (queued io)"

definition from_os :: "'x io_scheme \<Rightarrow> bytes list" where "from_os io = map (buf_bytes io) (br_fromOS io)"
definition to_os :: "'x io_scheme \<Rightarrow> bytes list" where "to_os io = map (buf_bytes io) (br_toOS io)"
definition incoming :: "'x io_scheme \<Rightarrow> bytes list" where "incoming io = map (buf_bytes io) (dp_incoming io)"

lemmas queues = from_os_def to_os_def incoming_def

definition same_queues :: "'x io_scheme \<Rightarrow> 'x io_scheme \<Rightarrow> bool" where
  "same_queues io io' \<longleftrightarrow> from_os io' = from_os io \<and> to_os io' = to_os io \<and> incoming io' = incoming io"

text \<open>A buffer taken and given back, or taken and enqueued, or dequeued and given back.\<close>

lemma map_bytes_same: "(\<And>q. q \<in> set qs \<Longrightarrow> buf_bytes m' q = buf_bytes m q) \<Longrightarrow> set rs \<subseteq> set qs \<Longrightarrow>
   map (buf_bytes m') rs = map (buf_bytes m) rs"
  by auto

lemma getBuf_io:
  assumes "io_ok io" "getBuf pick src io = (io', p)"
  shows "bufs_ok io' (p # queued io')" "same_queues io io'" "buf_bytes io' p = src" "queued io' = queued io"
proof -
  note ok = getBuf_ok[OF assms(1)[unfolded io_ok_def] assms(2)] and fr = getBuf_frame[OF assms(2)]
  show q: "queued io' = queued io" by (simp add: queued_def fr)
  show "bufs_ok io' (p # queued io')" using ok(1) by (simp add: q)
  show "buf_bytes io' p = src" by (rule ok(3))
  show "same_queues io io'"
    using ok(4) by (auto simp: same_queues_def queues fr queued_def)
qed

lemma get_put:
  assumes "io_ok io" "getBuf pick src io = (io', p)"
  shows "io_ok (putBuf p io')" "same_queues io (putBuf p io')"
proof -
  note g = getBuf_io[OF assms] and p = putBuf_ok[OF getBuf_io(1)[OF assms]]
  show "io_ok (putBuf p io')" using p(1) by (simp add: io_ok_def queued_def)
  have "from_os (putBuf p io') = from_os io'" "to_os (putBuf p io') = to_os io'" "incoming (putBuf p io') = incoming io'"
    using p(2) by (auto simp: queues queued_def)
  with g(2) show "same_queues io (putBuf p io')" by (simp add: same_queues_def)
qed

lemma buf_bytes_upd [simp]:
  fixes io :: "'x io_scheme"
  shows "buf_bytes (io\<lparr>br_fromOS := a\<rparr>) = buf_bytes io" "buf_bytes (io\<lparr>br_toOS := a\<rparr>) = buf_bytes io"
    "buf_bytes (io\<lparr>dp_incoming := a\<rparr>) = buf_bytes io"
  by (auto simp: buf_bytes_def fun_eq_iff)

lemma get_enqueue:
  assumes "io_ok io" "getBuf pick src io = (io', p)"
  shows "io_ok (io'\<lparr>br_fromOS := br_fromOS io' @ [p]\<rparr>)"
    "from_os (io'\<lparr>br_fromOS := br_fromOS io' @ [p]\<rparr>) = from_os io @ [src]"
    "to_os (io'\<lparr>br_fromOS := br_fromOS io' @ [p]\<rparr>) = to_os io"
    "incoming (io'\<lparr>br_fromOS := br_fromOS io' @ [p]\<rparr>) = incoming io"
    "io_ok (io'\<lparr>br_toOS := br_toOS io' @ [p]\<rparr>)"
    "to_os (io'\<lparr>br_toOS := br_toOS io' @ [p]\<rparr>) = to_os io @ [src]"
    "from_os (io'\<lparr>br_toOS := br_toOS io' @ [p]\<rparr>) = from_os io"
    "incoming (io'\<lparr>br_toOS := br_toOS io' @ [p]\<rparr>) = incoming io"
    "io_ok (io'\<lparr>dp_incoming := dp_incoming io' @ [p]\<rparr>)"
    "incoming (io'\<lparr>dp_incoming := dp_incoming io' @ [p]\<rparr>) = incoming io @ [src]"
    "from_os (io'\<lparr>dp_incoming := dp_incoming io' @ [p]\<rparr>) = from_os io"
    "to_os (io'\<lparr>dp_incoming := dp_incoming io' @ [p]\<rparr>) = to_os io"
proof -
  note g = getBuf_io[OF assms]
  have d: "distinct (p # queued io')" using g(1) by (simp add: bufs_ok_def)
  show "io_ok (io'\<lparr>br_fromOS := br_fromOS io' @ [p]\<rparr>)" "io_ok (io'\<lparr>br_toOS := br_toOS io' @ [p]\<rparr>)"
    "io_ok (io'\<lparr>dp_incoming := dp_incoming io' @ [p]\<rparr>)"
    unfolding io_ok_def bufs_ok_state[of "io'\<lparr>br_fromOS := _\<rparr>" io', simplified]
      bufs_ok_state[of "io'\<lparr>br_toOS := _\<rparr>" io', simplified] bufs_ok_state[of "io'\<lparr>dp_incoming := _\<rparr>" io', simplified]
    by (rule bufs_ok_cong[OF g(1)]; use d in \<open>auto simp: queued_def\<close>)+
qed (use getBuf_io(2,3)[OF assms] in \<open>auto simp: queues same_queues_def\<close>)

lemma dequeue_put:
  assumes "io_ok io"
  shows "br_fromOS io = p # rest \<Longrightarrow> io_ok (putBuf p (io\<lparr>br_fromOS := rest\<rparr>)) \<and>
      from_os io = buf_bytes io p # from_os (putBuf p (io\<lparr>br_fromOS := rest\<rparr>)) \<and>
      to_os (putBuf p (io\<lparr>br_fromOS := rest\<rparr>)) = to_os io \<and> incoming (putBuf p (io\<lparr>br_fromOS := rest\<rparr>)) = incoming io"
    and "br_toOS io = p # rest \<Longrightarrow> io_ok (putBuf p (io\<lparr>br_toOS := rest\<rparr>)) \<and>
      to_os io = buf_bytes io p # to_os (putBuf p (io\<lparr>br_toOS := rest\<rparr>)) \<and>
      from_os (putBuf p (io\<lparr>br_toOS := rest\<rparr>)) = from_os io \<and> incoming (putBuf p (io\<lparr>br_toOS := rest\<rparr>)) = incoming io"
    and "dp_incoming io = p # rest \<Longrightarrow> io_ok (putBuf p (io\<lparr>dp_incoming := rest\<rparr>)) \<and>
      incoming io = buf_bytes io p # incoming (putBuf p (io\<lparr>dp_incoming := rest\<rparr>)) \<and>
      from_os (putBuf p (io\<lparr>dp_incoming := rest\<rparr>)) = from_os io \<and> to_os (putBuf p (io\<lparr>dp_incoming := rest\<rparr>)) = to_os io"
proof -
  have ok: "bufs_ok io (queued io)" using assms by (simp add: io_ok_def)
  then have d: "distinct (queued io)" by (simp add: bufs_ok_def)
  have main: "io_ok (putBuf p io') \<and> (\<forall>q \<in> set (queued io'). buf_bytes (putBuf p io') q = buf_bytes io q)"
    if "set (queued io) = insert p (set (queued io'))" "distinct (p # queued io')"
      "bm_pool io' = bm_pool io" "bm_next io' = bm_next io" "buf_bytes io' = buf_bytes io" for io' :: "'a io_scheme"
  proof -
    have "bufs_ok io' (queued io)" using ok bufs_ok_state[OF that(3,4)] by simp
    then have "bufs_ok io' (p # queued io')" using that(1,2) by (rule_tac bufs_ok_cong) auto
    from putBuf_ok[OF this] that(5) show ?thesis by (simp add: io_ok_def queued_def)
  qed
  show "io_ok (putBuf p (io\<lparr>br_fromOS := rest\<rparr>)) \<and>
      from_os io = buf_bytes io p # from_os (putBuf p (io\<lparr>br_fromOS := rest\<rparr>)) \<and>
      to_os (putBuf p (io\<lparr>br_fromOS := rest\<rparr>)) = to_os io \<and> incoming (putBuf p (io\<lparr>br_fromOS := rest\<rparr>)) = incoming io"
    if "br_fromOS io = p # rest"
    using main[of "io\<lparr>br_fromOS := rest\<rparr>"] d that by (auto simp: queued_def queues)
  show "io_ok (putBuf p (io\<lparr>br_toOS := rest\<rparr>)) \<and>
      to_os io = buf_bytes io p # to_os (putBuf p (io\<lparr>br_toOS := rest\<rparr>)) \<and>
      from_os (putBuf p (io\<lparr>br_toOS := rest\<rparr>)) = from_os io \<and> incoming (putBuf p (io\<lparr>br_toOS := rest\<rparr>)) = incoming io"
    if "br_toOS io = p # rest"
    using main[of "io\<lparr>br_toOS := rest\<rparr>"] d that by (auto simp: queued_def queues)
  show "io_ok (putBuf p (io\<lparr>dp_incoming := rest\<rparr>)) \<and>
      incoming io = buf_bytes io p # incoming (putBuf p (io\<lparr>dp_incoming := rest\<rparr>)) \<and>
      from_os (putBuf p (io\<lparr>dp_incoming := rest\<rparr>)) = from_os io \<and> to_os (putBuf p (io\<lparr>dp_incoming := rest\<rparr>)) = to_os io"
    if "dp_incoming io = p # rest"
    using main[of "io\<lparr>dp_incoming := rest\<rparr>"] d that by (auto simp: queued_def queues)
qed

section \<open>What each operation does to the queues\<close>

lemma io_ok_state:
  fixes io io' :: "'x io_scheme"
  assumes "bufmem.truncate io' = bufmem.truncate io" "queued io' = queued io" "io_ok io"
  shows "io_ok io'"
  using assms by (simp add: io_ok_def bufs_ok_def bufmem.truncate_def)

lemma len_queues [simp]:
  "length (from_os io) = length (br_fromOS io)" "length (to_os io) = length (br_toOS io)"
  "length (incoming io) = length (dp_incoming io)"
  by (simp_all add: queues)

lemma WritePacket_effect:
  assumes "io_ok io" "bridge_WritePacket pick sel pkt io = (io', r)"
  shows "io_ok io' \<and> to_os io' = to_os io \<and> incoming io' = incoming io \<and> (r = IoOk \<or> r = IoErr) \<and>
    (from_os io' = from_os io \<or> pkt \<noteq> [] \<and> from_os io' = from_os io @ [pkt] \<and> length (from_os io) < bridgeQueue)"
proof -
  obtain g p where g: "getBuf pick pkt io = (g, p)" by (cases "getBuf pick pkt io")
  have "io' = io \<or> io' = putBuf p g \<or> pkt \<noteq> [] \<and> io' = g\<lparr>br_fromOS := br_fromOS g @ [p]\<rparr> \<and> length (br_fromOS g) < bridgeQueue"
    "r = IoOk \<or> r = IoErr"
    using assms(2) g by (auto simp: bridge_WritePacket_def split: if_splits)
  with assms(1) get_put[OF assms(1) g] get_enqueue(1-4)[OF assms(1) g] getBuf_frame(3)[OF g] show ?thesis
    by (auto simp: same_queues_def)
qed

lemma Read_effect:
  assumes "io_ok io" "bridge_Read sel lens offset io = (io', r)"
  shows "io_ok io' \<and> to_os io' = to_os io \<and> incoming io' = incoming io \<and>
    (from_os io' = from_os io \<and> (\<forall>y. r \<noteq> IoTun y) \<or> (\<exists>y. from_os io = y # from_os io' \<and> (r = IoTun y \<or> r = IoShort))) \<and>
    (\<forall>y. r \<noteq> IoPkt y \<and> r \<noteq> IoDgram y)"
proof -
  consider (idle) "io' = io" "r = IoShort \<or> r = IoClosed \<or> r = IoBlocked"
    | (got) p rest where "br_fromOS io = p # rest" "io' = putBuf p (io\<lparr>br_fromOS := rest\<rparr>)"
        "r = IoShort \<or> r = IoTun (buf_bytes io p)"
    using assms(2) by (cases "br_fromOS io") (simp_all add: bridge_Read_def Let_def split: if_splits)
  then show ?thesis
  proof cases
    case idle
    with assms(1) show ?thesis by (elim disjE) simp_all
  next
    case got
    from dequeue_put(1)[OF assms(1) got(1)] got(3) show ?thesis unfolding got(2)[symmetric] by (elim disjE) simp_all
  qed
qed

lemma ReadPacket_effect:
  assumes "io_ok io" "bridge_ReadPacket sel io = (io', r)"
  shows "io_ok io' \<and> from_os io' = from_os io \<and> incoming io' = incoming io \<and>
    (to_os io' = to_os io \<and> (\<forall>y. r \<noteq> IoPkt y) \<or> (\<exists>y. to_os io = y # to_os io' \<and> r = IoPkt y)) \<and>
    (\<forall>y. r \<noteq> IoTun y \<and> r \<noteq> IoDgram y)"
proof -
  consider (idle) "io' = io" "r = IoClosed \<or> r = IoBlocked"
    | (got) p rest where "br_toOS io = p # rest" "io' = putBuf p (io\<lparr>br_toOS := rest\<rparr>)" "r = IoPkt (buf_bytes io p)"
    using assms(2) by (cases "br_toOS io") (simp_all add: bridge_ReadPacket_def Let_def split: if_splits)
  then show ?thesis
  proof cases
    case idle
    with assms(1) show ?thesis by (elim disjE) simp_all
  next
    case got
    from dequeue_put(2)[OF assms(1) got(1)] got(3) show ?thesis unfolding got(2)[symmetric] by simp
  qed
qed

definition written :: "nat \<Rightarrow> (nat option \<times> bool \<times> bytes) list \<Rightarrow> bytes list" where
  "written offset bufs = map (\<lambda>(pick, sel, b). drop offset b) (filter (\<lambda>(pick, sel, b). offset \<le> length b) bufs)"

lemma Write_effect:
  "io_ok io \<Longrightarrow> bridge_Write offset bufs n io = (io', r) \<Longrightarrow>
   io_ok io' \<and> from_os io' = from_os io \<and> incoming io' = incoming io \<and>
   (\<exists>acc. subseq acc (written offset bufs) \<and> to_os io' = to_os io @ acc) \<and> (\<exists>k b. r = IoCount k b) \<and>
   (length (to_os io) \<le> bridgeQueue \<longrightarrow> length (to_os io') \<le> bridgeQueue)"
proof (induction offset bufs n io rule: bridge_Write.induct)
  case (1 offset n io)
  then show ?case by auto
next
  case (2 offset pick sel buf bufs n io)
  show ?case
  proof (cases "offset > length buf")
    case True
    with "2.IH"(1)[OF True "2.prems"(1)] "2.prems"(2) show ?thesis by (simp add: written_def)
  next
    case False
    obtain g p where g: "getBuf pick (drop offset buf) io = (g, p)" by (cases "getBuf pick (drop offset buf) io")
    note put = get_put[OF "2.prems"(1) g] and enq = get_enqueue(5-8)[OF "2.prems"(1) g] and fr = getBuf_frame[OF g]
    have w: "written offset ((pick, sel, buf) # bufs) = drop offset buf # written offset bufs"
      using False by (simp add: written_def)
    consider (closed) "br_closed g \<and> (sel \<or> length (br_toOS g) \<ge> bridgeQueue)"
      | (room) "\<not> (br_closed g \<and> (sel \<or> length (br_toOS g) \<ge> bridgeQueue))" "length (br_toOS g) < bridgeQueue"
      | (full) "\<not> (br_closed g \<and> (sel \<or> length (br_toOS g) \<ge> bridgeQueue))" "\<not> length (br_toOS g) < bridgeQueue"
      by blast
    then show ?thesis
    proof cases
      case closed
      with "2.prems"(2) False g put w show ?thesis by (auto simp: same_queues_def simp del: len_queues)
    next
      case room
      let ?k = "g\<lparr>br_toOS := br_toOS g @ [p]\<rparr>"
      have "bridge_Write offset bufs (n + 1) ?k = (io', r)" using "2.prems"(2) False g room by (auto split: if_splits)
      from "2.IH"(2)[OF False g[symmetric] room enq(1) this] obtain acc where a: "io_ok io'" "from_os io' = from_os ?k"
        "incoming io' = incoming ?k" "subseq acc (written offset bufs)" "to_os io' = to_os ?k @ acc" "\<exists>k b. r = IoCount k b"
        "length (to_os ?k) \<le> bridgeQueue \<longrightarrow> length (to_os io') \<le> bridgeQueue" by blast
      have "to_os io' = to_os io @ (drop offset buf # acc)" using a(5) enq(2) by simp
      moreover have "subseq (drop offset buf # acc) (written offset ((pick, sel, buf) # bufs))" using a(4) w by simp
      moreover have "length (to_os io') \<le> bridgeQueue" using a(7) room(2) by simp
      ultimately show ?thesis using a(1-3,6) enq(3,4) by metis
    next
      case full
      have "bridge_Write offset bufs (n + 1) (putBuf p g) = (io', r)" using "2.prems"(2) False g full by (auto split: if_splits)
      from "2.IH"(3)[OF False g[symmetric] full put(1) this] obtain acc where a: "io_ok io'"
        "from_os io' = from_os (putBuf p g)" "incoming io' = incoming (putBuf p g)" "subseq acc (written offset bufs)"
        "to_os io' = to_os (putBuf p g) @ acc" "\<exists>k b. r = IoCount k b"
        "length (to_os (putBuf p g)) \<le> bridgeQueue \<longrightarrow> length (to_os io') \<le> bridgeQueue" by blast
      have "subseq acc (written offset ((pick, sel, buf) # bufs))" using a(4) w by (simp add: list_emb_Cons)
      moreover have "to_os (putBuf p g) = to_os io" "from_os (putBuf p g) = from_os io" "incoming (putBuf p g) = incoming io"
        using put(2) by (simp_all add: same_queues_def)
      ultimately show ?thesis using a by metis
    qed
  qed
qed

lemma Deliver_effect:
  assumes "io_ok io" "Deliver pick sel b io = io'"
  shows "io_ok io' \<and> to_os io' = to_os io \<and> from_os io' = from_os io \<and>
    (incoming io' = incoming io \<or> b \<noteq> [] \<and> incoming io' = incoming io @ [b] \<and> length (incoming io) < datagramQueue)"
proof -
  obtain g p where g: "getBuf pick b io = (g, p)" by (cases "getBuf pick b io")
  have "io' = io \<or> io' = putBuf p g \<or> b \<noteq> [] \<and> io' = g\<lparr>dp_incoming := dp_incoming g @ [p]\<rparr> \<and> length (dp_incoming g) < datagramQueue"
    using assms(2) g by (auto simp: Deliver_def pipe_deliver_def split: if_splits)
  with assms(1) get_put[OF assms(1) g] get_enqueue(9-12)[OF assms(1) g] getBuf_frame(6)[OF g] show ?thesis
    by (auto simp: same_queues_def)
qed

lemma Select_effect:
  assumes "io_ok io" "ReadFrom_select n dl c io = (io', r)"
  shows "io_ok io' \<and> to_os io' = to_os io \<and> from_os io' = from_os io \<and>
    (incoming io' = incoming io \<and> (\<forall>y. r \<noteq> IoDgram y) \<or> (\<exists>y. incoming io = y # incoming io' \<and> r = IoDgram (take n y))) \<and>
    (\<forall>y. r \<noteq> IoTun y \<and> r \<noteq> IoPkt y)"
proof -
  have poke: "io_ok (io\<lparr>dp_poke := b\<rparr>)" "from_os (io\<lparr>dp_poke := b\<rparr>) = from_os io" "to_os (io\<lparr>dp_poke := b\<rparr>) = to_os io"
    "incoming (io\<lparr>dp_poke := b\<rparr>) = incoming io" for b
    using assms(1) by (simp_all add: io_ok_def bufs_ok_def queued_def queues buf_bytes_def fun_eq_iff)
  consider (idle) "io' = io \<or> io' = io\<lparr>dp_poke := False\<rparr>" "r = IoClosed \<or> r = IoBlocked \<or> r = IoTimeout \<or> r = IoRetry"
    | (got) p rest where "dp_incoming io = p # rest" "io' = putBuf p (io\<lparr>dp_incoming := rest\<rparr>)"
        "r = IoDgram (take n (buf_bytes io p))"
  proof (cases c)
    case SelClosed
    with assms(2) have "io' = io" "r = IoClosed \<or> r = IoBlocked" by (auto simp: ReadFrom_select_def split: if_splits)
    with idle show thesis by blast
  next
    case SelIncoming
    show thesis
    proof (cases "dp_incoming io")
      case Nil
      with SelIncoming assms(2) have "io' = io" "r = IoBlocked" by (simp_all add: ReadFrom_select_def)
      with idle show thesis by blast
    next
      case (Cons p rest)
      with SelIncoming assms(2) have "io' = putBuf p (io\<lparr>dp_incoming := rest\<rparr>)" "r = IoDgram (take n (buf_bytes io p))"
        by (auto simp: ReadFrom_select_def Let_def)
      with Cons got show thesis by blast
    qed
  next
    case (SelTimer now)
    with assms(2) have "io' = io" "r = IoTimeout \<or> r = IoBlocked"
      by (auto simp: ReadFrom_select_def split: option.splits if_splits)
    with idle show thesis by blast
  next
    case SelPoke
    show thesis
    proof (cases "dp_poke io")
      case True
      with SelPoke assms(2) have "io' = io\<lparr>dp_poke := False\<rparr>" "r = IoRetry" by (auto simp: ReadFrom_select_def)
      with idle show thesis by blast
    next
      case False
      with SelPoke assms(2) have "io' = io" "r = IoBlocked" by (simp_all add: ReadFrom_select_def)
      with idle show thesis by blast
    qed
  qed
  then show ?thesis
  proof cases
    case idle
    have r: "(\<forall>y. r \<noteq> IoDgram y) \<and> (\<forall>y. r \<noteq> IoTun y \<and> r \<noteq> IoPkt y)" using idle(2) by (elim disjE) simp_all
    from idle(1) have "io_ok io' \<and> to_os io' = to_os io \<and> from_os io' = from_os io \<and> incoming io' = incoming io"
      using assms(1) poke[of False] by (elim disjE) simp_all
    with r show ?thesis by simp
  next
    case got
    from dequeue_put(3)[OF assms(1) got(1)] got(3) show ?thesis unfolding got(2)[symmetric] by simp
  qed
qed

lemma other_effect:
  assumes "io_ok io"
  shows "io_ok (bridge_Close io) \<and> same_queues io (bridge_Close io)"
    "io_ok (SetReadDeadline t io) \<and> same_queues io (SetReadDeadline t io)"
    "io_ok (pipe_Close io) \<and> same_queues io (pipe_Close io)"
  using assms
  by (simp_all add: bridge_Close_def SetReadDeadline_def pipe_Close_def io_ok_def bufs_ok_def queued_def same_queues_def
      queues buf_bytes_def fun_eq_iff)

end
