(* ===== verification/BridgeQueues.thy ===== *)
theory BridgeQueues
  imports BridgeProps
begin

text \<open>The three channels as bounded lossy queues, and how a reader of the pipe is woken.\<close>

section \<open>What each operation offers and hands out\<close>

fun offer_from :: "io_op \<Rightarrow> bytes list" where
  "offer_from (OpWritePacket pick sel pkt) = (if pkt = [] then [] else [pkt])"
| "offer_from _ = []"

fun got_from :: "io_op \<Rightarrow> io_result \<Rightarrow> bytes list" where
  "got_from _ (IoTun b) = [b]" | "got_from _ _ = []"

fun offer_to :: "io_op \<Rightarrow> bytes list" where
  "offer_to (OpWrite offset bufs) = written offset bufs" | "offer_to _ = []"

fun got_to :: "io_op \<Rightarrow> io_result \<Rightarrow> bytes list" where
  "got_to _ (IoPkt b) = [b]" | "got_to _ _ = []"

fun offer_in :: "io_op \<Rightarrow> bytes list" where
  "offer_in (OpDeliver pick sel b) = (if b = [] then [] else [b])" | "offer_in _ = []"

text \<open>A datagram that fills the reader's buffer may have been cut; only shorter ones count.\<close>

fun got_in :: "io_op \<Rightarrow> io_result \<Rightarrow> bytes list" where
  "got_in (OpSelect n dl c) (IoDgram b) = (if length b < n then [b] else [])" | "got_in _ _ = []"

section \<open>Every operation, every queue\<close>

text \<open>
  A step either appends part of what it offers, with room for it, or takes the oldest packet;
  the other queues stay as they are.
\<close>

definition appends :: "nat \<Rightarrow> bytes list \<Rightarrow> bytes list \<Rightarrow> bytes list \<Rightarrow> bytes list \<Rightarrow> bool" where
  "appends cap offered out old new \<longleftrightarrow>
     out = [] \<and> (\<exists>acc. subseq acc offered \<and> new = old @ acc) \<and> (length old \<le> cap \<longrightarrow> length new \<le> cap)"

definition takes :: "bytes list \<Rightarrow> bytes list \<Rightarrow> bytes list \<Rightarrow> bool" where
  "takes out old new \<longleftrightarrow> (\<exists>y. old = y # new \<and> (out = [y] \<or> out = []))"

lemma appends_same [simp, intro]: "appends cap offered [] old old"
  by (simp add: appends_def)

lemma appends_one: "length old < cap \<Longrightarrow> appends cap [x] [] old (old @ [x])"
  by (auto simp: appends_def)

lemma takes_dropped: "old = y # new \<Longrightarrow> takes [] old new"
  by (simp add: takes_def)

lemma takes_out: "old = y # new \<Longrightarrow> takes [y] old new"
  by (simp add: takes_def)

lemma io_step_queues:
  assumes "io_ok io" "io_step c io = (io', r)"
  shows "io_ok io'"
    "appends bridgeQueue (offer_from c) (got_from c r) (from_os io) (from_os io') \<or> takes (got_from c r) (from_os io) (from_os io')"
    "appends bridgeQueue (offer_to c) (got_to c r) (to_os io) (to_os io') \<or> takes (got_to c r) (to_os io) (to_os io')"
    "appends datagramQueue (offer_in c) (got_in c r) (incoming io) (incoming io') \<or> takes (got_in c r) (incoming io) (incoming io')"
proof -
  have "io_ok io' \<and>
    (appends bridgeQueue (offer_from c) (got_from c r) (from_os io) (from_os io') \<or> takes (got_from c r) (from_os io) (from_os io')) \<and>
    (appends bridgeQueue (offer_to c) (got_to c r) (to_os io) (to_os io') \<or> takes (got_to c r) (to_os io) (to_os io')) \<and>
    (appends datagramQueue (offer_in c) (got_in c r) (incoming io) (incoming io') \<or> takes (got_in c r) (incoming io) (incoming io'))"
  proof (cases c)
    case (OpWritePacket pick sel pkt)
    with assms(2) have "bridge_WritePacket pick sel pkt io = (io', r)" by simp
    note e = WritePacket_effect[OF assms(1) this]
    then have g: "got_from c r = []" "got_to c r = []" "got_in c r = []" using OpWritePacket by auto
    from e have "appends bridgeQueue (offer_from c) [] (from_os io) (from_os io')"
      using OpWritePacket appends_one by (elim conjE disjE) simp_all
    with e g show ?thesis by simp
  next
    case (OpRead sel lens offset)
    with assms(2) have "bridge_Read sel lens offset io = (io', r)" by simp
    note e = Read_effect[OF assms(1) this]
    then have g: "got_to c r = []" "got_in c r = []" using OpRead by (cases r; simp)+
    from e have "appends bridgeQueue (offer_from c) (got_from c r) (from_os io) (from_os io') \<or> takes (got_from c r) (from_os io) (from_os io')"
    proof (elim conjE disjE exE)
      assume "from_os io' = from_os io" "\<forall>y. r \<noteq> IoTun y"
      then show ?thesis by (cases r) simp_all
    qed (simp_all add: takes_def)
    with e g show ?thesis by simp
  next
    case (OpWrite offset bufs)
    with assms(2) have "bridge_Write offset bufs 0 io = (io', r)" by simp
    note e = Write_effect[OF assms(1) this]
    then have g: "got_from c r = []" "got_to c r = []" "got_in c r = []" using OpWrite by auto
    from e OpWrite have "appends bridgeQueue (offer_to c) [] (to_os io) (to_os io')"
      by (simp add: appends_def del: len_queues)
    with e g show ?thesis by simp
  next
    case (OpReadPacket sel)
    with assms(2) have "bridge_ReadPacket sel io = (io', r)" by simp
    note e = ReadPacket_effect[OF assms(1) this]
    then have g: "got_from c r = []" "got_in c r = []" using OpReadPacket by (cases r; simp)+
    from e have "appends bridgeQueue (offer_to c) (got_to c r) (to_os io) (to_os io') \<or> takes (got_to c r) (to_os io) (to_os io')"
    proof (elim conjE disjE exE)
      assume "to_os io' = to_os io" "\<forall>y. r \<noteq> IoPkt y"
      then show ?thesis by (cases r) simp_all
    qed (simp_all add: takes_def)
    with e g show ?thesis by simp
  next
    case (OpDeliver pick sel b)
    with assms(2) have d: "Deliver pick sel b io = io'" "r = IoOk" by simp_all
    note e = Deliver_effect[OF assms(1) d(1)]
    from e have "appends datagramQueue (offer_in c) [] (incoming io) (incoming io')"
      using OpDeliver appends_one by (elim conjE disjE) simp_all
    with e d(2) show ?thesis by simp
  next
    case (OpSelect n dl sc)
    with assms(2) have "ReadFrom_select n dl sc io = (io', r)" by simp
    note e = Select_effect[OF assms(1) this]
    then have g: "got_from c r = []" "got_to c r = []" using OpSelect by (cases r; simp)+
    from e have "appends datagramQueue (offer_in c) (got_in c r) (incoming io) (incoming io') \<or> takes (got_in c r) (incoming io) (incoming io')"
    proof (elim conjE disjE exE)
      assume "incoming io' = incoming io" "\<forall>y. r \<noteq> IoDgram y"
      then show ?thesis using OpSelect by (cases r) simp_all
    next
      fix y assume "incoming io = y # incoming io'" "r = IoDgram (take n y)"
      then show ?thesis using OpSelect by (simp add: takes_def)
    qed
    with e g show ?thesis by simp
  qed (use assms other_effect[OF assms(1)] in \<open>auto simp: same_queues_def\<close>)
  then show "io_ok io'"
    "appends bridgeQueue (offer_from c) (got_from c r) (from_os io) (from_os io') \<or> takes (got_from c r) (from_os io) (from_os io')"
    "appends bridgeQueue (offer_to c) (got_to c r) (to_os io) (to_os io') \<or> takes (got_to c r) (to_os io) (to_os io')"
    "appends datagramQueue (offer_in c) (got_in c r) (incoming io) (incoming io') \<or> takes (got_in c r) (incoming io) (incoming io')"
    by blast+
qed

lemma io_step_ok: "io_ok io \<Longrightarrow> io_ok (fst (io_step c io))"
  by (cases "io_step c io") (simp add: io_step_queues(1))

lemma queue_laws:
  assumes "appends cap offered out old new \<or> takes out old new"
  shows "(\<exists>acc. subseq acc offered \<and> new = old @ acc \<and> out = []) \<or> (\<exists>y. old = y # new \<and> (out = [y] \<or> out = []))"
    "length old \<le> cap \<Longrightarrow> length new \<le> cap"
  using assms by (auto simp: appends_def takes_def)

interpretation from_q: fifo_queue io_ok io_step from_os offer_from got_from bridgeQueue
proof
  fix s s' :: "'x io_scheme" and c r
  assume a: "io_ok s"
  show "io_ok (fst (io_step c s))" using a by (rule io_step_ok)
  show "(\<exists>acc. subseq acc (offer_from c) \<and> from_os s' = from_os s @ acc \<and> got_from c r = []) \<or>
      (\<exists>y. from_os s = y # from_os s' \<and> (got_from c r = [y] \<or> got_from c r = []))" if "io_step c s = (s', r)"
    by (rule queue_laws(1)[OF io_step_queues(2)[OF a that]])
  show "length (from_os (fst (io_step c s))) \<le> bridgeQueue" if "length (from_os s) \<le> bridgeQueue"
    using queue_laws(2)[OF io_step_queues(2)[OF a] that] by (cases "io_step c s") simp
qed

interpretation to_q: fifo_queue io_ok io_step to_os offer_to got_to bridgeQueue
proof
  fix s s' :: "'x io_scheme" and c r
  assume a: "io_ok s"
  show "io_ok (fst (io_step c s))" using a by (rule io_step_ok)
  show "(\<exists>acc. subseq acc (offer_to c) \<and> to_os s' = to_os s @ acc \<and> got_to c r = []) \<or>
      (\<exists>y. to_os s = y # to_os s' \<and> (got_to c r = [y] \<or> got_to c r = []))" if "io_step c s = (s', r)"
    by (rule queue_laws(1)[OF io_step_queues(3)[OF a that]])
  show "length (to_os (fst (io_step c s))) \<le> bridgeQueue" if "length (to_os s) \<le> bridgeQueue"
    using queue_laws(2)[OF io_step_queues(3)[OF a] that] by (cases "io_step c s") simp
qed

interpretation in_q: fifo_queue io_ok io_step incoming offer_in got_in datagramQueue
proof
  fix s s' :: "'x io_scheme" and c r
  assume a: "io_ok s"
  show "io_ok (fst (io_step c s))" using a by (rule io_step_ok)
  show "(\<exists>acc. subseq acc (offer_in c) \<and> incoming s' = incoming s @ acc \<and> got_in c r = []) \<or>
      (\<exists>y. incoming s = y # incoming s' \<and> (got_in c r = [y] \<or> got_in c r = []))" if "io_step c s = (s', r)"
    by (rule queue_laws(1)[OF io_step_queues(4)[OF a that]])
  show "length (incoming (fst (io_step c s))) \<le> datagramQueue" if "length (incoming s) \<le> datagramQueue"
    using queue_laws(2)[OF io_step_queues(4)[OF a] that] by (cases "io_step c s") simp
qed

section \<open>Whole runs\<close>

fun io_run :: "io_op list \<Rightarrow> 'x io_scheme \<Rightarrow> 'x io_scheme \<times> io_result list" where
  "io_run [] io = (io, [])"
| "io_run (c # cs) io =
     (case io_step c io of (io, r) \<Rightarrow> (case io_run cs io of (io, rs) \<Rightarrow> (io, r # rs)))"

definition out_of :: "(io_op \<Rightarrow> io_result \<Rightarrow> bytes list) \<Rightarrow> io_op list \<Rightarrow> io_result list \<Rightarrow> bytes list" where
  "out_of got cs rs = concat (map2 got cs rs)"

lemma io_run_queue:
  "from_q.run_queue cs io = (fst (io_run cs io), out_of got_from cs (snd (io_run cs io)))"
  "to_q.run_queue cs io = (fst (io_run cs io), out_of got_to cs (snd (io_run cs io)))"
  "in_q.run_queue cs io = (fst (io_run cs io), out_of got_in cs (snd (io_run cs io)))"
  by (induction cs arbitrary: io) (simp_all add: out_of_def split_beta)

lemma subseq_part: "subseq (xs @ ys) zs \<Longrightarrow> subseq xs zs"
proof -
  have "subseq xs (xs @ ys)" by (induction xs) simp_all
  then show "subseq (xs @ ys) zs \<Longrightarrow> subseq xs zs" by (rule subseq_order.order_trans)
qed

text \<open>
  C24. The channels between the packet tunnel and the pump, buffers recycled through one pool
  and all, implement plain bounded queues of packets: over every sequence of operations on
  all three, what a queue hands out is a subsequence of what it was offered, byte for byte,
  in order and without repetition, and none ever holds more than 64 packets.
\<close>

theorem channels_are_queues:
  assumes "io_ok io" "from_os io = []" "to_os io = []" "incoming io = []" "io_run cs io = (io', rs)"
  shows "subseq (out_of got_from cs rs) (concat (map offer_from cs)) \<and>
    subseq (out_of got_to cs rs) (concat (map offer_to cs)) \<and>
    subseq (out_of got_in cs rs) (concat (map offer_in cs)) \<and>
    length (br_fromOS io') \<le> 64 \<and> length (br_toOS io') \<le> 64 \<and> length (dp_incoming io') \<le> 64"
proof -
  have r: "fst (io_run cs io) = io'" "snd (io_run cs io) = rs" using assms(5) by simp_all
  note run = io_run_queue[of cs io, unfolded r]
  have "subseq (out_of got_from cs rs) (concat (map offer_from cs))"
    using from_q.run_queue_subseq[OF assms(1) run(1)] assms(2) by (auto dest: subseq_part)
  moreover have "subseq (out_of got_to cs rs) (concat (map offer_to cs))"
    using to_q.run_queue_subseq[OF assms(1) run(2)] assms(3) by (auto dest: subseq_part)
  moreover have "subseq (out_of got_in cs rs) (concat (map offer_in cs))"
    using in_q.run_queue_subseq[OF assms(1) run(3)] assms(4) by (auto dest: subseq_part)
  moreover have "length (from_os io') \<le> bridgeQueue" "length (to_os io') \<le> bridgeQueue" "length (incoming io') \<le> datagramQueue"
    using from_q.run_queue_bound[OF assms(1), of cs] to_q.run_queue_bound[OF assms(1), of cs]
      in_q.run_queue_bound[OF assms(1), of cs] assms(2-4) run by (simp_all del: len_queues)
  ultimately show ?thesis by (simp add: bridgeQueue_def datagramQueue_def)
qed

definition demo_io :: io where
  "demo_io = \<lparr>bm_arr = (\<lambda>_ _. 0), bm_len = (\<lambda>_. 0), bm_cap = (\<lambda>_. 2048), bm_next = 1, bm_pool = [0], br_attached = True,
     br_mtu = 1369, br_fromOS = [], br_toOS = [], br_closed = False, dp_incoming = [], dp_closed = False, dp_poke = False,
     dp_readDead = None\<rparr>"

definition demo_ops :: "io_op list" where
  "demo_ops = [OpWritePacket (Some 0) False [1, 2], OpRead False [99] 10, OpDeliver (Some 0) False [7],
     OpWritePacket (Some 0) False [3], OpRead False [99] 10]"

theorem channels_are_queues_witness:
  "subseq (out_of got_from demo_ops (snd (io_run demo_ops demo_io))) [[1, 2], [3]] \<and>
   snd (io_run demo_ops demo_io) = [IoOk, IoTun [1, 2], IoOk, IoOk, IoTun [3]]"
proof -
  have ok: "io_ok demo_io" "from_os demo_io = []" "to_os demo_io = []" "incoming demo_io = []"
    by (simp_all add: io_ok_def bufs_ok_def queued_def queues demo_io_def)
  have "concat (map offer_from demo_ops) = [[1, 2], [3]]" by (simp add: demo_ops_def)
  moreover have "snd (io_run demo_ops demo_io) = [IoOk, IoTun [1, 2], IoOk, IoOk, IoTun [3]]" by code_simp
  ultimately show ?thesis using channels_are_queues[OF ok prod.collapse[symmetric], of demo_ops] by simp
qed

section \<open>Waking a reader of the pipe\<close>

text \<open>
  A new read deadline, and a close, reach a reader that is already blocked with an older
  deadline: its \<open>select\<close> is ready, and its next round sees the new deadline. A blocked read
  neither outlives its deadline nor the pipe.
\<close>

theorem deadline_wakes_reader:
  "(let io1 = SetReadDeadline (Some t) io; (io2, r) = ReadFrom_select n old SelPoke io1
    in r = IoRetry \<and> from_os io2 = from_os io \<and> incoming io2 = incoming io \<and>
       ReadFrom_top now io2 = (if dp_closed io then Some IoClosed else if t \<le> now then Some IoTimeout else None)) \<and>
   snd (ReadFrom_select n old SelClosed (pipe_Close io)) = IoClosed \<and> ReadFrom_top now (pipe_Close io) = Some IoClosed"
  by (simp add: SetReadDeadline_def ReadFrom_select_def ReadFrom_top_def readDeadlineErr_def pipe_Close_def queues
      buf_bytes_def fun_eq_iff)

end
