(* ===== verification/Mobile.thy ===== *)
theory Mobile
  imports PumpRuns
begin

text \<open>
  The tunnel of the mobile package (\<open>mobile/masque.go\<close>, \<open>packet_bridge.go\<close>,
  \<open>fd_android.go\<close>): a session, a pump that replaces it, and the platform's calls. The state
  extends the pump's; the context of the tunnel is the pump's.
\<close>

section \<open>State\<close>

record mobile_config =
  mc_Server :: string
  mc_ServerName :: string
  mc_CAPath :: string
  mc_CertPath :: string
  mc_KeyPath :: string
  mc_MTU :: int
  mc_AltPort :: int
  mc_BindInterface :: string

text \<open>
  \<open>t_pumps\<close> counts the pumps started on the tunnel; \<open>t_status\<close> and \<open>t_errors\<close> are what the
  callback was told. Bridge and pipe: whether there is one, and whether it was closed.
\<close>

record tunnel = pump +
  t_sess :: "nat option"
  t_prof :: "profile option"
  t_cb :: bool
  t_lastAddr :: string
  t_lastBits :: int
  t_lastAddrV6 :: string
  t_started :: bool
  t_stopped :: bool
  t_bridge :: bool
  t_bridgeClosed :: bool
  t_bridgeMTU :: int
  t_pipe :: bool
  t_pipeClosed :: bool
  t_pumps :: nat
  t_status :: "string list"
  t_errors :: nat

definition on_status :: "string \<Rightarrow> 'x tunnel_scheme \<Rightarrow> 'x tunnel_scheme" where
  "on_status msg t = (if t_cb t then t\<lparr>t_status := t_status t @ [msg]\<rparr> else t)"

section \<open>Accessors\<close>

fun firstPrefix :: "prefix list \<Rightarrow> bool \<Rightarrow> prefix option" where
  "firstPrefix [] want6 = None"
| "firstPrefix (p # ps) want6 =
     (let is6 = addr_is6 (px_addr p) \<and> \<not> addr_is4in6 (px_addr p)
      in if is6 = want6 then Some p else firstPrefix ps want6)"

definition live_prefix :: "bool \<Rightarrow> 'x tunnel_scheme \<Rightarrow> prefix option" where
  "live_prefix want6 t =
     (case t_sess t of
        None \<Rightarrow> None
      | Some i \<Rightarrow> firstPrefix (ss_AssignedPrefixes (sessions t ! i)) want6)"

definition AssignedAddr :: "'x tunnel_scheme \<Rightarrow> string" where
  "AssignedAddr t = (case live_prefix False t of Some p \<Rightarrow> addr_string (px_addr p) | None \<Rightarrow> t_lastAddr t)"

definition AssignedPrefixLen :: "'x tunnel_scheme \<Rightarrow> int" where
  "AssignedPrefixLen t = (case live_prefix False t of Some p \<Rightarrow> px_bits p | None \<Rightarrow> t_lastBits t)"

definition AssignedAddrV6 :: "'x tunnel_scheme \<Rightarrow> string" where
  "AssignedAddrV6 t = (case live_prefix True t of Some p \<Rightarrow> addr_string (px_addr p) | None \<Rightarrow> t_lastAddrV6 t)"

definition FirstAddress :: "'x tunnel_scheme \<Rightarrow> string" where
  "FirstAddress t = AssignedAddr t"

definition Tunnel_UDPFd :: "(resource \<Rightarrow> int option) \<Rightarrow> 'x tunnel_scheme \<Rightarrow> int" where
  "Tunnel_UDPFd raw_fd t = UDPFd raw_fd (map_option ((!) (sessions t)) (t_sess t))"

text \<open>Durations are nanoseconds.\<close>

definition RTTMillis :: "(resource \<Rightarrow> int) \<Rightarrow> 'x tunnel_scheme \<Rightarrow> int" where
  "RTTMillis smoothed t =
     (case t_sess t of
        None \<Rightarrow> 0
      | Some i \<Rightarrow> let d = Session_RTT smoothed (Some (sessions t ! i)) in if d \<le> 0 then 0 else d div 1000000)"

text \<open>The first address with an IPv4 form.\<close>

fun first_to4 :: "addr list \<Rightarrow> string" where
  "first_to4 [] = []"
| "first_to4 (a # as) = (case to4 a of Some s \<Rightarrow> s | None \<Rightarrow> first_to4 as)"

definition ServerIPv4 :: "(string \<Rightarrow> addr list option) \<Rightarrow> 'x tunnel_scheme \<Rightarrow> string" where
  "ServerIPv4 lookup t =
     (case t_prof t of
        None \<Rightarrow> []
      | Some prof \<Rightarrow>
          let host = (case split_host_port (pf_Server prof) of Some (h, _) \<Rightarrow> h | None \<Rightarrow> pf_Server prof)
          in case parse_ip host of
               Some ip \<Rightarrow> (case to4 ip of Some s \<Rightarrow> s | None \<Rightarrow> [])
             | None \<Rightarrow> (case lookup host of None \<Rightarrow> [] | Some ips \<Rightarrow> first_to4 ips))"

section \<open>Dialling\<close>

definition profileFromConfig :: "mobile_config \<Rightarrow> profile" where
  "profileFromConfig cfg =
     \<lparr>pf_Server = mc_Server cfg, pf_ServerName = mc_ServerName cfg, pf_AltPort = mc_AltPort cfg, pf_CA = mc_CAPath cfg,
      pf_Cert = mc_CertPath cfg, pf_Key = mc_KeyPath cfg, pf_Insecure = False, pf_TUNName = [],
      pf_MTU = (if mc_MTU cfg = 0 then 1369 else mc_MTU cfg), pf_DNS = [], pf_BindInterface = mc_BindInterface cfg\<rparr>"

definition rememberAssigned :: "nat \<Rightarrow> 'x tunnel_scheme \<Rightarrow> 'x tunnel_scheme" where
  "rememberAssigned i t =
     (let ps = ss_AssignedPrefixes (sessions t ! i);
          t = (case firstPrefix ps False of
                 Some p \<Rightarrow> t\<lparr>t_lastAddr := addr_string (px_addr p), t_lastBits := px_bits p\<rparr>
               | None \<Rightarrow> t)
      in case firstPrefix ps True of
           Some p \<Rightarrow> t\<lparr>t_lastAddrV6 := addr_string (px_addr p)\<rparr>
         | None \<Rightarrow> t)"

definition connectSession ::
  "connect_env \<Rightarrow> profile \<Rightarrow> bool \<Rightarrow> 'x mem_scheme \<Rightarrow> 'x mem_scheme \<times> (connect_error + nat)" where
  "connectSession env prof pipe m = alloc_session (dial_of (env, prof, False, pipe) m)"

datatype mobile_error = MNilConfig | MNilPipe | MDial connect_error | MStopped | MStarted | MNotDialed | MFD | MAttached

definition via :: "session \<Rightarrow> string" where
  "via s = (if ss_DialAddr s \<noteq> [] then '' via '' @ ss_DialAddr s else [])"

text \<open>Connecting leaves its defaults in the profile.\<close>

definition validated :: "profile \<Rightarrow> profile" where
  "validated prof = (case Validate prof of Inr q \<Rightarrow> q | Inl _ \<Rightarrow> prof)"

definition report_dialed :: "nat \<Rightarrow> 'x tunnel_scheme \<Rightarrow> 'x tunnel_scheme" where
  "report_dialed i t =
     (let s = sessions t ! i;
          t = on_status (''CONNECT-IP session established'' @ via s) t
      in case ss_AssignedPrefixes s of
           [] \<Rightarrow> t
         | p # _ \<Rightarrow> on_status (''assigned '' @ prefix_string p) t)"

text \<open>The tunnel that \<open>dial\<close> makes has a context and a state of its own.\<close>

definition fresh_tunnel :: "bool \<Rightarrow> bool \<Rightarrow> 'x tunnel_scheme \<Rightarrow> 'x tunnel_scheme" where
  "fresh_tunnel cb pipe t =
     t\<lparr>ctx_done := False, t_sess := None, t_prof := None, t_cb := cb, t_lastAddr := [], t_lastBits := 0, t_lastAddrV6 := [],
       t_started := False, t_stopped := False, t_bridge := False, t_bridgeClosed := False, t_bridgeMTU := 0, t_pipe := pipe,
       t_pipeClosed := False, t_pumps := 0, t_status := [], t_errors := 0\<rparr>"

definition mobile_dial ::
  "connect_env \<Rightarrow> mobile_config option \<Rightarrow> bool \<Rightarrow> bool \<Rightarrow> 'x tunnel_scheme \<Rightarrow> 'x tunnel_scheme \<times> (mobile_error + unit)" where
  "mobile_dial env cfg cb pipe t =
     (case cfg of
        None \<Rightarrow> (t, Inl MNilConfig)
      | Some c \<Rightarrow>
          let prof = profileFromConfig c; t = fresh_tunnel cb pipe t
          in case connectSession env prof pipe t of
               (t, Inl e) \<Rightarrow> (t\<lparr>ctx_done := True\<rparr>, Inl (MDial e))
             | (t, Inr i) \<Rightarrow>
                 (rememberAssigned i ((report_dialed i t)\<lparr>t_sess := Some i, t_prof := Some (validated prof)\<rparr>), Inr ()))"

definition Dial :: "connect_env \<Rightarrow> mobile_config option \<Rightarrow> bool \<Rightarrow> 'x tunnel_scheme \<Rightarrow> 'x tunnel_scheme \<times> (mobile_error + unit)" where
  "Dial env cfg cb t = mobile_dial env cfg cb False t"

definition DialWithPipe ::
  "connect_env \<Rightarrow> mobile_config option \<Rightarrow> bool \<Rightarrow> bool \<Rightarrow> 'x tunnel_scheme \<Rightarrow> 'x tunnel_scheme \<times> (mobile_error + unit)" where
  "DialWithPipe env cfg cb pipe t = (if \<not> pipe then (t, Inl MNilPipe) else mobile_dial env cfg cb True t)"

section \<open>Starting\<close>

text \<open>
  \<open>startWithDevice\<close> checks under the lock and sets \<open>started\<close> under the lock again, later;
  between the two other calls may run. \<open>close_dev\<close> closes the device it was given.
\<close>

definition start_check :: "('x tunnel_scheme \<Rightarrow> 'x tunnel_scheme) \<Rightarrow> 'x tunnel_scheme \<Rightarrow> 'x tunnel_scheme \<times> (mobile_error + nat)" where
  "start_check close_dev t =
     (if t_stopped t then (close_dev t, Inl MStopped)
      else if t_started t then (close_dev t, Inl MStarted)
      else case (t_sess t, t_prof t) of
             (Some i, Some _) \<Rightarrow> (t, Inr i)
           | _ \<Rightarrow> (close_dev t, Inl MNotDialed))"

definition start_commit :: "string \<Rightarrow> nat \<Rightarrow> 'x tunnel_scheme \<Rightarrow> 'x tunnel_scheme" where
  "start_commit readyMsg i t =
     (let t = (if readyMsg \<noteq> [] then on_status readyMsg t else t);
          t = attach_tun True i t;
          t = t\<lparr>t_started := True\<rparr>;
          t = (Pump_Run (NewPump (Some i) True t))\<lparr>t_pumps := t_pumps t + 1\<rparr>
      in on_status ''forwarding started'' t)"

definition startWithDevice ::
  "('x tunnel_scheme \<Rightarrow> 'x tunnel_scheme) \<Rightarrow> string \<Rightarrow> 'x tunnel_scheme \<Rightarrow> 'x tunnel_scheme \<times> (mobile_error + unit)" where
  "startWithDevice close_dev readyMsg t =
     (case start_check close_dev t of
        (t, Inl e) \<Rightarrow> (t, Inl e)
      | (t, Inr i) \<Rightarrow> (start_commit readyMsg i t, Inr ()))"

definition close_bridge :: "'x tunnel_scheme \<Rightarrow> 'x tunnel_scheme" where
  "close_bridge t = t\<lparr>t_bridgeClosed := True\<rparr>"

definition StartPacketBridge :: "'x tunnel_scheme \<Rightarrow> 'x tunnel_scheme \<times> (mobile_error + unit)" where
  "StartPacketBridge t =
     (let mtu = (case t_prof t of Some p \<Rightarrow> if pf_MTU p > 0 then pf_MTU p else 1369 | None \<Rightarrow> 1369)
      in if t_bridge t then (t, Inl MAttached)
         else startWithDevice close_bridge ''packet bridge ready''
                (t\<lparr>t_bridge := True, t_bridgeClosed := False, t_bridgeMTU := mtu\<rparr>))"

definition StartWithFD :: "string option \<Rightarrow> 'x tunnel_scheme \<Rightarrow> 'x tunnel_scheme \<times> (mobile_error + unit)" where
  "StartWithFD tun t =
     (case tun of
        None \<Rightarrow> (t, Inl MFD)
      | Some name \<Rightarrow> startWithDevice (\<lambda>t. t) (''TUN from fd ready: '' @ name) t)"

text \<open>The one-call form: the session is dialled with the device and the pump starts at once.\<close>

definition mobile_Connect ::
  "connect_env \<Rightarrow> mobile_config option \<Rightarrow> string option \<Rightarrow> bool \<Rightarrow> 'x tunnel_scheme \<Rightarrow> 'x tunnel_scheme \<times> (mobile_error + unit)" where
  "mobile_Connect env cfg tun cb t =
     (case cfg of
        None \<Rightarrow> (t, Inl MNilConfig)
      | Some c \<Rightarrow>
          (case tun of
             None \<Rightarrow> (t, Inl MFD)
           | Some name \<Rightarrow>
               let prof = profileFromConfig c;
                   t = on_status (''TUN from fd ready: '' @ name) (fresh_tunnel cb False t)
               in case alloc_session (dial_of (env, prof, True, False) t) of
                    (t, Inl e) \<Rightarrow> (t\<lparr>ctx_done := True\<rparr>, Inl (MDial e))
                  | (t, Inr i) \<Rightarrow>
                      let t = (report_dialed i t)\<lparr>t_sess := Some i, t_prof := Some (validated prof), t_started := True\<rparr>;
                          t = rememberAssigned i t
                      in ((Pump_Run (NewPump (Some i) True t))\<lparr>t_pumps := t_pumps t + 1\<rparr>, Inr ())))"

section \<open>Reconnecting\<close>

definition first_addr :: "session \<Rightarrow> string" where
  "first_addr s = (case ss_AssignedPrefixes s of [] \<Rightarrow> [] | p # _ \<Rightarrow> addr_string (px_addr p))"

text \<open>The redial closure of \<open>runPump\<close>.\<close>

definition tunnel_redial :: "profile \<Rightarrow> (connect_env, 'x tunnel_ext) redial" where
  "tunnel_redial prof env t =
     (case connectSession env prof (t_pipe t) (on_status ''reconnecting'' t) of
        (t, Inl e) \<Rightarrow> (t, Inl e)
      | (t, Inr i) \<Rightarrow>
          if t_stopped t then (close_session i t, Inl CCanceled)
          else
            let prev = t_lastAddr t; newAddr = first_addr (sessions t ! i)
            in if prev \<noteq> [] \<and> newAddr \<noteq> [] \<and> prev \<noteq> newAddr
               then ((on_status ''assigned-ip-changed'' (close_session i t))\<lparr>ctx_done := True\<rparr>, Inl CCanceled)
               else
                 let t = rememberAssigned i (t\<lparr>t_sess := Some i\<rparr>);
                     msg = ''reconnected'' @ via (sessions t ! i) @ (if newAddr \<noteq> [] then '', assigned '' @ newAddr else [])
                 in (on_status msg t, Inr i))"

text \<open>What \<open>runPump\<close> does with the result of \<open>Run\<close>.\<close>

definition runPump_end :: "'x tunnel_scheme \<Rightarrow> 'x tunnel_scheme" where
  "runPump_end t =
     (case pm_run t of
        RDone r \<Rightarrow> if t_stopped t \<or> r = PCancelled \<or> \<not> t_cb t then t else t\<lparr>t_errors := t_errors t + 1\<rparr>
      | _ \<Rightarrow> t)"

section \<open>Stopping\<close>

definition Stop :: "'x tunnel_scheme \<Rightarrow> 'x tunnel_scheme" where
  "Stop t =
     (if t_stopped t then t
      else
        let t = t\<lparr>t_stopped := True, ctx_done := True\<rparr>;
            t = (case t_sess t of None \<Rightarrow> t | Some i \<Rightarrow> close_session i t);
            t = (if t_pipe t then t\<lparr>t_pipeClosed := True\<rparr> else t)
        in if t_bridge t then t\<lparr>t_bridgeClosed := True\<rparr> else t)"

section \<open>The running tunnel\<close>

text \<open>The pump's steps, and a \<open>Stop\<close> from the platform at any moment.\<close>

datatype tunnel_event = TunnelPump "connect_env pump_event" | TunnelStop

fun tunnel_step :: "profile \<Rightarrow> tunnel_event \<Rightarrow> 'x tunnel_scheme \<Rightarrow> 'x tunnel_scheme" where
  "tunnel_step prof (TunnelPump ev) t = pump_step (tunnel_redial prof) ev t"
| "tunnel_step prof TunnelStop t = Stop t"

definition tunnel_run :: "profile \<Rightarrow> tunnel_event list \<Rightarrow> 'x tunnel_scheme \<Rightarrow> 'x tunnel_scheme" where
  "tunnel_run prof evs t = fold (tunnel_step prof) evs t"

end
