(* ===== verification/MobileProps.thy ===== *)
theory MobileProps
  imports Mobile
begin

text \<open>
  The tunnel keeps the pump's contract: its redial closure is a redial function, and a
  \<open>Stop\<close> at any moment closes the one session that can be open.
\<close>

section \<open>Frames\<close>

lemma on_status_sel [simp]:
  "w_open (on_status m t) = w_open t" "w_next (on_status m t) = w_next t" "sessions (on_status m t) = sessions t"
  "ctx_done (on_status m t) = ctx_done t" "pm_sess (on_status m t) = pm_sess t" "pm_dev (on_status m t) = pm_dev t"
  "pm_tunErr (on_status m t) = pm_tunErr t" "pm_backoff (on_status m t) = pm_backoff t" "pm_run (on_status m t) = pm_run t"
  "pm_tun (on_status m t) = pm_tun t" "pm_sent (on_status m t) = pm_sent t" "pm_delivered (on_status m t) = pm_delivered t"
  "t_sess (on_status m t) = t_sess t" "t_prof (on_status m t) = t_prof t" "t_stopped (on_status m t) = t_stopped t"
  "t_started (on_status m t) = t_started t" "t_pipe (on_status m t) = t_pipe t" "t_lastAddr (on_status m t) = t_lastAddr t"
  "t_pumps (on_status m t) = t_pumps t" "t_cb (on_status m t) = t_cb t"
  by (simp_all add: on_status_def)

lemma rememberAssigned_sel [simp]:
  "w_open (rememberAssigned i t) = w_open t" "w_next (rememberAssigned i t) = w_next t"
  "sessions (rememberAssigned i t) = sessions t" "ctx_done (rememberAssigned i t) = ctx_done t"
  "pm_sess (rememberAssigned i t) = pm_sess t" "pm_dev (rememberAssigned i t) = pm_dev t"
  "pm_tunErr (rememberAssigned i t) = pm_tunErr t" "pm_backoff (rememberAssigned i t) = pm_backoff t"
  "pm_run (rememberAssigned i t) = pm_run t" "pm_tun (rememberAssigned i t) = pm_tun t"
  "pm_sent (rememberAssigned i t) = pm_sent t" "pm_delivered (rememberAssigned i t) = pm_delivered t"
  "t_sess (rememberAssigned i t) = t_sess t" "t_prof (rememberAssigned i t) = t_prof t"
  "t_stopped (rememberAssigned i t) = t_stopped t" "t_started (rememberAssigned i t) = t_started t"
  "t_pipe (rememberAssigned i t) = t_pipe t" "t_pumps (rememberAssigned i t) = t_pumps t"
  by (simp_all add: rememberAssigned_def Let_def split: option.splits)

text \<open>What the pump's own steps leave alone: everything the tunnel adds.\<close>

lemma more_tunnel:
  fixes t u :: "'x tunnel_scheme"
  assumes "pump.more u = pump.more t"
  shows "t_sess u = t_sess t" "t_stopped u = t_stopped t" "t_lastAddr u = t_lastAddr t" "t_pipe u = t_pipe t"
    "t_prof u = t_prof t"
  using assms by (cases t; cases u; simp)+

text \<open>Sessions are only closed, never opened, except by a redial.\<close>

definition only_closes :: "'x mem_scheme \<Rightarrow> 'x mem_scheme \<Rightarrow> bool" where
  "only_closes m m' \<longleftrightarrow> length (sessions m') = length (sessions m) \<and>
     (\<forall>i < length (sessions m). ss_done (sessions m ! i) \<longrightarrow> ss_done (sessions m' ! i))"

lemma only_closes_same: "sessions m' = sessions m \<Longrightarrow> only_closes m m'"
  by (simp add: only_closes_def)

lemma only_closes_heap: "sessions q = sessions (close_session i p) \<Longrightarrow> only_closes p q"
  by (simp add: only_closes_def)

lemma only_closes_closeSession: "sessions q = sessions (closeSession p) \<Longrightarrow> only_closes p q"
  by (simp add: only_closes_def)

lemma only_closes_steps:
  "only_closes p (run_step p)" "only_closes p (sleep_step s p)" "only_closes p (recv_step r p)"
  "only_closes p (tun_step p)" "only_closes p (tun_read_step b p)" "only_closes p (write_step ok p)"
proof -
  show "only_closes p (run_step p)"
  proof (cases "pm_run p")
    case (RCheck k)
    then show ?thesis
      by (cases "pm_tunErr p") (auto simp: run_step_def intro: only_closes_same only_closes_heap)
  next
    case (RSet k)
    have "only_closes p (goto (RRead k) ((setSession k (attach_tun (pm_dev p) k p))\<lparr>pm_backoff := reconnectMinBackoff\<rparr>))"
      by (simp add: only_closes_def setSession_def)
    with RSet show ?thesis by (simp add: run_step_def)
  qed (auto simp: run_step_def intro: only_closes_same only_closes_closeSession)
  show "only_closes p (tun_step p)"
  proof (cases "pm_tun p")
    case (TSend k pkts)
    then show ?thesis by (cases pkts) (auto simp: tun_step_def intro: only_closes_same)
  qed (auto simp: tun_step_def intro: only_closes_same only_closes_closeSession)
  show "only_closes p (sleep_step s p)" by (rule only_closes_same) (simp add: sleep_step_def)
  show "only_closes p (recv_step r p)"
    by (rule only_closes_same) (simp add: recv_step_def split: run_pc.splits option.splits)
  show "only_closes p (tun_read_step b p)"
    by (rule only_closes_same) (simp add: tun_read_step_def split: option.splits)
  show "only_closes p (write_step ok p)"
    by (rule only_closes_same) (simp add: write_step_def split: tun_pc.splits option.splits list.splits)
qed

section \<open>The redial closure\<close>

text \<open>The closure after a connect: rejected, with the new session closed, or published.\<close>

lemma tunnel_redial_cases:
  fixes t t' :: "'x tunnel_scheme"
  assumes "tunnel_redial prof env t = (t', r)"
  obtains (failed) e where "connectSession env prof (t_pipe t) (on_status ''reconnecting'' t) = (t', Inl e)" "r = Inl e"
    | (stopped) m i where "connectSession env prof (t_pipe t) (on_status ''reconnecting'' t) = (m, Inr i)"
        "t_stopped m" "t' = close_session i m" "r = Inl CCanceled"
    | (changed) m i where "connectSession env prof (t_pipe t) (on_status ''reconnecting'' t) = (m, Inr i)"
        "\<not> t_stopped m" "t_lastAddr m \<noteq> []" "first_addr (sessions m ! i) \<noteq> []" "t_lastAddr m \<noteq> first_addr (sessions m ! i)"
        "t' = (on_status ''assigned-ip-changed'' (close_session i m))\<lparr>ctx_done := True\<rparr>" "r = Inl CCanceled"
    | (kept) m i msg where "connectSession env prof (t_pipe t) (on_status ''reconnecting'' t) = (m, Inr i)"
        "\<not> t_stopped m" "t_lastAddr m = [] \<or> first_addr (sessions m ! i) = [] \<or> t_lastAddr m = first_addr (sessions m ! i)"
        "t' = on_status msg (rememberAssigned i (m\<lparr>t_sess := Some i\<rparr>))" "r = Inr i"
proof -
  obtain m x where c: "connectSession env prof (t_pipe t) (on_status ''reconnecting'' t) = (m, x)" by fastforce
  show thesis
  proof (cases x)
    case (Inl e)
    with c assms show thesis by (intro failed[of e]) (simp_all add: tunnel_redial_def)
  next
    case (Inr i)
    consider (s) "t_stopped m"
      | (ch) "\<not> t_stopped m" "t_lastAddr m \<noteq> [] \<and> first_addr (sessions m ! i) \<noteq> [] \<and> t_lastAddr m \<noteq> first_addr (sessions m ! i)"
      | (k) "\<not> t_stopped m" "\<not> (t_lastAddr m \<noteq> [] \<and> first_addr (sessions m ! i) \<noteq> [] \<and> t_lastAddr m \<noteq> first_addr (sessions m ! i))"
      by blast
    then show thesis
    proof cases
      case s
      with c Inr assms show thesis by (intro stopped[of m i]) (simp_all add: tunnel_redial_def)
    next
      case ch
      with c Inr assms show thesis by (intro changed[of m i]) (simp_all add: tunnel_redial_def Let_def)
    next
      case k
      with c Inr assms show thesis by (intro kept[of m i]) (auto simp add: tunnel_redial_def Let_def)
    qed
  qed
qed

lemma connectSession_more:
  fixes t :: "'x pump_scheme"
  assumes "connectSession env prof pipe t = (m, r)"
  shows "pump.more m = pump.more t"
proof -
  obtain k x where c: "dial_of (env, prof, False, pipe) t = (k, x)" by (cases "dial_of (env, prof, False, pipe) t")
  from net_only_Connect[of env prof False pipe t k x] c have "pump.more k = pump.more t"
    by (auto simp: dial_of_def net_only_def)
  with c assms show ?thesis by (cases x) (auto simp: connectSession_def alloc_session_def)
qed

lemma connectSession_ok:
  fixes t :: "'x pump_scheme"
  assumes "good_env env" "acc B t" "connectSession env prof pipe t = (m, r)"
  shows "acc B m \<and> pump_frame t m \<and> heap_step (sessions t) (sessions m) \<and>
    (case r of Inl e \<Rightarrow> sessions m = sessions t
     | Inr i \<Rightarrow> i = length (sessions t) \<and> length (sessions m) = Suc i \<and> \<not> ss_done (sessions m ! i) \<and>
         take i (sessions m) = sessions t \<and> (\<forall>x \<in> set (ss_AssignedPrefixes (sessions m ! i)). prefix_wf x))"
  using alloc_session_ok[OF good_dial_env[THEN iffD2, OF assms(1)] assms(2), of prof False pipe m r] assms(3)
  by (simp add: connectSession_def)

lemma heap_step_trans: "heap_step a b \<Longrightarrow> heap_step b c \<Longrightarrow> heap_step a c"
  by (auto simp: heap_step_def same_session_def)

lemma pump_frame_on_status: "pump_frame t (on_status m t)"
  by (simp add: pump_frame_def)

lemma acc_on_status: "acc B t \<Longrightarrow> acc B (on_status m t)"
  by (erule acc_cong) simp_all

lemma new_ones_done:
  assumes "length (sessions m) = Suc i" "j < length (sessions (close_session i m))" "i \<le> j"
  shows "ss_done (sessions (close_session i m) ! j)"
  using assms by simp

lemma tunnel_redial_ok:
  fixes prof :: profile
  shows "redial_ok good_env (tunnel_redial prof :: (connect_env, 'x tunnel_ext) redial)"
  unfolding redial_ok_def
proof (intro allI impI, elim conjE)
  fix B env r and t t' :: "'x tunnel_scheme"
  assume g: "good_env env" and a: "acc B t" and d: "tunnel_redial prof env t = (t', r)"
  let ?s = "on_status ''reconnecting'' t"
  let ?good = "acc B t' \<and> pump_frame t t' \<and> heap_step (sessions t) (sessions t') \<and>
     (\<forall>j. length (sessions t) \<le> j \<and> j < length (sessions t') \<and> r \<noteq> Inr j \<longrightarrow> ss_done (sessions t' ! j)) \<and>
     (\<forall>j. length (sessions t) \<le> j \<and> j < length (sessions t') \<longrightarrow>
        (\<forall>x \<in> set (ss_AssignedPrefixes (sessions t' ! j)). prefix_wf x)) \<and>
     (\<forall>i. r = Inr i \<longrightarrow> length (sessions t) \<le> i \<and> i < length (sessions t'))"
  have as: "acc B ?s" using a by (rule acc_on_status)
  have closed: "acc B (close_session i m) \<and> pump_frame t (close_session i m) \<and> heap_step (sessions t) (sessions (close_session i m)) \<and>
      length (sessions (close_session i m)) = Suc (length (sessions t)) \<and> i = length (sessions t) \<and>
      (\<forall>x \<in> set (ss_AssignedPrefixes (sessions (close_session i m) ! i)). prefix_wf x)"
    if c: "connectSession env prof (t_pipe t) ?s = (m, Inr i)" for m i
  proof -
    from connectSession_ok[OF g as c] have m: "acc B m" "pump_frame ?s m" "heap_step (sessions t) (sessions m)"
      "i = length (sessions t)" "length (sessions m) = Suc i" "\<forall>x \<in> set (ss_AssignedPrefixes (sessions m ! i)). prefix_wf x"
      by simp_all
    have "acc B (close_session i m)" using m(1) by (rule acc_close_session) (simp add: m(5))
    moreover have "pump_frame t (close_session i m)" using m(2) by (simp add: pump_frame_def)
    moreover have "heap_step (sessions t) (sessions (close_session i m))"
      using m(3) heap_step_close_session by (rule heap_step_trans)
    ultimately show ?thesis using m(4-6) by simp
  qed
  from d show ?good
  proof (cases rule: tunnel_redial_cases)
    case (failed e)
    from connectSession_ok[OF g as failed(1)] failed(2) show ?thesis by (auto simp: pump_frame_def)
  next
    case (stopped m i)
    from closed[OF stopped(1)] stopped(3,4) show ?thesis
      using new_ones_done[of m i] by (auto simp: less_Suc_eq)
  next
    case (changed m i)
    note c = closed[OF changed(1)]
    have t': "sessions t' = sessions (close_session i m)" "w_open t' = w_open (close_session i m)"
      "w_next t' = w_next (close_session i m)" unfolding changed(6) by simp_all
    have "acc B t'" using c t'(2,3,1) by (auto intro: acc_cong)
    moreover have "pump_frame t t'" using c unfolding changed(6) by (simp add: pump_frame_def)
    ultimately show ?thesis using c changed(7) new_ones_done[of m i] unfolding t'(1) by (auto simp: less_Suc_eq)
  next
    case (kept m i msg)
    from connectSession_ok[OF g as kept(1)] have m: "acc B m" "pump_frame ?s m" "heap_step (sessions t) (sessions m)"
      "i = length (sessions t)" "length (sessions m) = Suc i" "\<forall>x \<in> set (ss_AssignedPrefixes (sessions m ! i)). prefix_wf x"
      by simp_all
    have t': "sessions t' = sessions m" "w_open t' = w_open m" "w_next t' = w_next m" unfolding kept(4) by simp_all
    have "acc B t'" using m(1) t'(2,3,1) by (rule acc_cong)
    moreover have "pump_frame t t'" using m(2) unfolding kept(4) by (simp add: pump_frame_def)
    ultimately show ?thesis using m kept(5) t'(1) by (auto simp: less_Suc_eq)
  qed
qed

section \<open>The invariant of a running tunnel\<close>

definition tun_inv :: "resource set \<Rightarrow> 'x tunnel_scheme \<Rightarrow> bool" where
  "tun_inv B t \<longleftrightarrow> pump_inv B t \<and>
     (\<forall>i < length (sessions t). \<not> ss_done (sessions t ! i) \<longrightarrow> t_sess t = Some i) \<and>
     (\<forall>i. t_sess t = Some i \<longrightarrow> i < length (sessions t)) \<and>
     (t_stopped t \<longrightarrow> ctx_done t \<and> (\<forall>i < length (sessions t). ss_done (sessions t ! i)))"

lemma tun_invD:
  assumes "tun_inv B t"
  shows "pump_inv B t" "\<And>i. i < length (sessions t) \<Longrightarrow> \<not> ss_done (sessions t ! i) \<Longrightarrow> t_sess t = Some i"
    "\<And>i. t_sess t = Some i \<Longrightarrow> i < length (sessions t)" "t_stopped t \<Longrightarrow> ctx_done t"
    "\<And>i. t_stopped t \<Longrightarrow> i < length (sessions t) \<Longrightarrow> ss_done (sessions t ! i)"
  using assms unfolding tun_inv_def by blast+

lemma tun_invI:
  assumes "pump_inv B t" "\<And>i. i < length (sessions t) \<Longrightarrow> \<not> ss_done (sessions t ! i) \<Longrightarrow> t_sess t = Some i"
    "\<And>i. t_sess t = Some i \<Longrightarrow> i < length (sessions t)" "t_stopped t \<Longrightarrow> ctx_done t"
    "\<And>i. t_stopped t \<Longrightarrow> i < length (sessions t) \<Longrightarrow> ss_done (sessions t ! i)"
  shows "tun_inv B t"
  using assms unfolding tun_inv_def by blast

text \<open>Steps that only close, and leave the tunnel's own fields alone.\<close>

lemma tun_inv_closes:
  fixes t u :: "'x tunnel_scheme"
  assumes "tun_inv B t" "pump_inv B u" "only_closes t u" "t_sess u = t_sess t" "t_stopped u = t_stopped t"
    "ctx_done t \<longrightarrow> ctx_done u"
  shows "tun_inv B u"
proof (rule tun_invI)
  note c = assms(3)[unfolded only_closes_def]
  show "t_sess u = Some i" if "i < length (sessions u)" "\<not> ss_done (sessions u ! i)" for i
    using that c tun_invD(2)[OF assms(1), of i] assms(4) by auto
  show "i < length (sessions u)" if "t_sess u = Some i" for i
    using that c tun_invD(3)[OF assms(1), of i] assms(4) by simp
  show "ctx_done u" if "t_stopped u" using that tun_invD(4)[OF assms(1)] assms(5,6) by simp
  show "ss_done (sessions u ! i)" if "t_stopped u" "i < length (sessions u)" for i
    using that tun_invD(5)[OF assms(1), of i] assms(5) c by simp
qed (rule assms(2))

text \<open>Closing any session keeps the pump's invariant.\<close>

lemma pump_inv_close_any:
  assumes i: "pump_inv B p" and k: "k < length (sessions p)"
    and q: "sessions q = sessions (close_session k p)" "w_open q = w_open (close_session k p)" "w_next q = w_next (close_session k p)"
      "pm_sess q = pm_sess p" "pm_run q = pm_run p" "pm_tunErr q = pm_tunErr p" "ctx_done p \<longrightarrow> ctx_done q"
  shows "pump_inv B q"
proof (rule pump_invI)
  have "acc B (close_session k p)" using pump_invD(1)[OF i] k by (rule acc_close_session)
  then show "acc B q" using q(2,3,1) by (rule acc_cong)
  show "pm_sess q = Some j \<or> run_holds (pm_run q) = Some j" if "j < length (sessions q)" "\<not> ss_done (sessions q ! j)" for j
    using that pump_invD(2)[OF i, of j] q(1,4,5) by auto
  show "pm_sess q = None" if "no_sess_pc (pm_run q)" using that pump_invD(3)[OF i] q(4,5) by simp
  show "j < length (sessions q)" if "pm_sess q = Some j" for j using that pump_invD(4)[OF i, of j] q(1,4) by simp
  show "j < length (sessions q)" if "run_holds (pm_run q) = Some j" for j using that pump_invD(5)[OF i, of j] q(1,5) by simp
  show "result_ok q r" if "pm_run q = RReturn r \<or> pm_run q = RDone r" for r
    using result_ok_mono[of p r q] pump_invD(6)[OF i, of r] that q(5-7) by simp
qed

lemma ss_done_close_self: "i < length (sessions m) \<Longrightarrow> ss_done (sessions (close_session i m) ! i)"
  by simp

lemma Stop_sel:
  assumes "\<not> t_stopped t"
  shows "sessions (Stop t) = (case t_sess t of None \<Rightarrow> sessions t | Some i \<Rightarrow> sessions (close_session i t))"
    "w_open (Stop t) = (case t_sess t of None \<Rightarrow> w_open t | Some i \<Rightarrow> w_open (close_session i t))"
    "w_next (Stop t) = w_next t" "pm_sess (Stop t) = pm_sess t" "pm_run (Stop t) = pm_run t" "pm_tunErr (Stop t) = pm_tunErr t"
    "t_sess (Stop t) = t_sess t" "t_stopped (Stop t)" "ctx_done (Stop t)" "pm_tun (Stop t) = pm_tun t" "pm_sent (Stop t) = pm_sent t"
  using assms by (simp_all add: Stop_def Let_def close_session_eq split: option.splits)

lemma tun_inv_Stop:
  assumes i: "tun_inv B t"
  shows "tun_inv B (Stop t) \<and> t_stopped (Stop t)"
proof (cases "t_stopped t")
  case True
  with i show ?thesis by (simp add: Stop_def)
next
  case False
  note s = Stop_sel[OF False]
  have "tun_inv B (Stop t)"
  proof (cases "t_sess t")
    case None
    have "pump_inv B (Stop t)"
      by (rule pump_inv_tun_moves[OF tun_invD(1)[OF i]]) (use s None in simp_all)
    moreover have "ss_done (sessions t ! k)" if "k < length (sessions t)" for k
      using tun_invD(2)[OF i that] None by auto
    ultimately show ?thesis by (intro tun_invI) (use s None in simp_all)
  next
    case (Some k)
    have k: "k < length (sessions t)" using tun_invD(3)[OF i Some] .
    have "pump_inv B (Stop t)"
      by (rule pump_inv_close_any[OF tun_invD(1)[OF i] k]) (use s Some in \<open>simp_all add: close_session_eq\<close>)
    moreover have "ss_done (sessions (close_session k t) ! j)" if "j < length (sessions t)" for j
      using that tun_invD(2)[OF i that] Some by auto
    ultimately show ?thesis by (intro tun_invI) (use s Some k in simp_all)
  qed
  with s show ?thesis by simp
qed

lemma tun_inv_redial:
  fixes t :: "'x tunnel_scheme"
  assumes i: "tun_inv B t" and g: "good_env env"
  shows "tun_inv B (redial_step (tunnel_redial prof) env t)"
proof (cases "pm_run t = RDial")
  case False
  with i show ?thesis by (simp add: redial_step_def)
next
  case True
  have pi: "pump_inv B (redial_step (tunnel_redial prof) env t)"
    using tun_invD(1)[OF i] tunnel_redial_ok g by (rule pump_inv_redial_step)
  have old: "ss_done (sessions t ! j)" if "j < length (sessions t)" for j
    using pump_invD(2)[OF tun_invD(1)[OF i] that] pump_invD(3)[OF tun_invD(1)[OF i]] True by (auto simp: no_sess_pc_def)
  obtain t' r where d: "tunnel_redial prof env t = (t', r)" by (cases "tunnel_redial prof env t")
  have a: "acc B (on_status ''reconnecting'' t)" using pump_invD(1)[OF tun_invD(1)[OF i]] by (rule acc_on_status)
  have rs: "sessions (redial_step (tunnel_redial prof) env t) = sessions t'" "t_sess (redial_step (tunnel_redial prof) env t) = t_sess t'"
    "t_stopped (redial_step (tunnel_redial prof) env t) = t_stopped t'" "ctx_done (redial_step (tunnel_redial prof) env t) = ctx_done t'"
    using True d by (simp_all add: redial_step_def goto_def split: sum.splits)
  have mt: "t_sess m = t_sess t \<and> t_stopped m = t_stopped t \<and> heap_step (sessions t) (sessions m) \<and> (ctx_done t \<longrightarrow> ctx_done m) \<and>
      (case x of Inl e \<Rightarrow> sessions m = sessions t
       | Inr k \<Rightarrow> k = length (sessions t) \<and> length (sessions m) = Suc k)"
    if c: "connectSession env prof (t_pipe t) (on_status ''reconnecting'' t) = (m, x)" for m x
    using connectSession_ok[OF g a c] more_tunnel[OF connectSession_more[OF c]]
    by (auto simp: pump_frame_def split: sum.splits)
  have olds: "ss_done (sessions m ! j)" if "heap_step (sessions t) (sessions m)" "j < length (sessions t)" for m :: "'x tunnel_scheme" and j
    using that old[of j] by (auto simp: heap_step_def same_session_def)
  have "(\<forall>j < length (sessions t'). \<not> ss_done (sessions t' ! j) \<longrightarrow> t_sess t' = Some j) \<and>
      (\<forall>j. t_sess t' = Some j \<longrightarrow> j < length (sessions t')) \<and>
      (t_stopped t' \<longrightarrow> ctx_done t' \<and> (\<forall>j < length (sessions t'). ss_done (sessions t' ! j)))"
    using d
  proof (cases rule: tunnel_redial_cases)
    case (failed e)
    with mt[OF failed(1)] old tun_invD(3,4)[OF i] show ?thesis by auto
  next
    case (stopped m k)
    note m = mt[OF stopped(1)]
    have t': "t_sess t' = t_sess t" "t_stopped t' = t_stopped t" "length (sessions t') = Suc k" "ctx_done t \<longrightarrow> ctx_done t'"
      using m more_tunnel[OF more_close_session[of k m]] unfolding stopped(3) by simp_all
    have "ss_done (sessions t' ! j)" if "j < length (sessions t')" for j
      using that m olds[of m j] unfolding stopped(3) by (cases "j = k") (auto simp: less_Suc_eq)
    moreover have "j < length (sessions t')" if "t_sess t' = Some j" for j
      using that t'(1,3) m tun_invD(3)[OF i, of j] by simp
    moreover have "ctx_done t'" if "t_stopped t'" using that t'(2,4) tun_invD(4)[OF i] by simp
    ultimately show ?thesis by blast
  next
    case (changed m k)
    note m = mt[OF changed(1)]
    have t': "t_sess t' = t_sess t" "t_stopped t' = t_stopped t" "length (sessions t') = Suc k" "ctx_done t'"
      "sessions t' = sessions (close_session k m)"
      using m more_tunnel[OF more_close_session[of k m]] unfolding changed(6) by simp_all
    have "ss_done (sessions t' ! j)" if "j < length (sessions t')" for j
      using that m olds[of m j] unfolding t'(5) by (cases "j = k") (auto simp: less_Suc_eq)
    moreover have "j < length (sessions t')" if "t_sess t' = Some j" for j
      using that t'(1,3) m tun_invD(3)[OF i, of j] by simp
    ultimately show ?thesis using t'(4) by blast
  next
    case (kept m k msg)
    note m = mt[OF kept(1)]
    have t': "t_sess t' = Some k" "\<not> t_stopped t'" "sessions t' = sessions m"
      using kept(2) unfolding kept(4) by simp_all
    have "j = k" if "j < length (sessions m)" "\<not> ss_done (sessions m ! j)" for j
      using that m olds[of m j] by (auto simp: less_Suc_eq)
    with t' m show ?thesis by auto
  qed
  then show ?thesis by (intro tun_invI[OF pi]) (unfold rs, blast+)
qed

end
