(* ===== verification/MobileSpec.thy ===== *)
theory MobileSpec
  imports MobileProps
begin

text \<open>What the platform may rely on: from \<open>Dial\<close> over a start to \<open>Stop\<close>.\<close>

section \<open>Steps\<close>

lemma tun_inv_pump_step:
  fixes t :: "'x tunnel_scheme"
  assumes i: "tun_inv B t" and g: "\<forall>d. ev = EvRedial d \<longrightarrow> good_env d"
  shows "tun_inv B (pump_step (tunnel_redial prof) ev t)"
proof -
  have pi: "pump_inv B (pump_step (tunnel_redial prof) ev t)"
    using tun_invD(1)[OF i] tunnel_redial_ok g by (rule pump_inv_step)
  have closes: "tun_inv B u" if "pump_step (tunnel_redial prof) ev t = u" "only_closes t u" "pump.more u = pump.more t"
      "ctx_done t \<longrightarrow> ctx_done u" for u
    by (rule tun_inv_closes[OF i]) (use pi that more_tunnel[OF that(3)] in simp_all)
  show ?thesis
  proof (cases ev)
    case (EvRedial d)
    with g tun_inv_redial[OF i] show ?thesis by simp
  next
    case EvCancel
    show ?thesis by (rule closes[OF refl]) (simp_all add: EvCancel only_closes_def)
  qed (rule closes[OF refl]; simp add: only_closes_steps)+
qed

definition good_tunnel_events :: "tunnel_event list \<Rightarrow> bool" where
  "good_tunnel_events evs \<longleftrightarrow> list_all (\<lambda>e. case e of TunnelPump (EvRedial d) \<Rightarrow> good_env d | _ \<Rightarrow> True) evs"

lemma tunnel_run_simps [simp]:
  "tunnel_run prof [] t = t" "tunnel_run prof (e # evs) t = tunnel_run prof evs (tunnel_step prof e t)"
  by (simp_all add: tunnel_run_def)

lemma tun_inv_step:
  "tun_inv B t \<Longrightarrow> good_tunnel_events [e] \<Longrightarrow> tun_inv B (tunnel_step prof e t)"
  by (cases e) (auto simp: good_tunnel_events_def tun_inv_Stop intro!: tun_inv_pump_step)

lemma tun_inv_run:
  "tun_inv B t \<Longrightarrow> good_tunnel_events evs \<Longrightarrow> tun_inv B (tunnel_run prof evs t)"
proof (induction evs arbitrary: t)
  case (Cons e evs)
  have "tun_inv B (tunnel_step prof e t)" using Cons.prems by (intro tun_inv_step) (auto simp: good_tunnel_events_def)
  with Cons show ?case by (simp add: good_tunnel_events_def)
qed simp

text \<open>A stopped tunnel stays stopped.\<close>

lemma stopped_redial:
  fixes t :: "'x tunnel_scheme"
  assumes "tunnel_redial prof env t = (t', r)" "t_stopped t"
  shows "t_stopped t'"
proof -
  have m: "t_stopped m" if "connectSession env prof (t_pipe t) (on_status ''reconnecting'' t) = (m, x)" for m x
    using more_tunnel(2)[OF connectSession_more[OF that]] assms(2) by simp
  show ?thesis
    using assms(1)
  proof (cases rule: tunnel_redial_cases)
    case (failed e)
    with m show ?thesis by blast
  next
    case (stopped k i)
    with more_tunnel(2)[OF more_close_session[of i k]] show ?thesis by simp
  next
    case (changed k i)
    with m[OF changed(1)] show ?thesis by simp
  next
    case (kept k i msg)
    with m[OF kept(1)] show ?thesis by simp
  qed
qed

lemma t_stopped_Stop [simp]: "t_stopped (Stop t)"
  by (cases "t_stopped t") (simp add: Stop_def, rule Stop_sel(8))

lemma t_stopped_steps:
  fixes t :: "'x tunnel_scheme"
  shows "t_stopped (run_step t) = t_stopped t" "t_stopped (sleep_step s t) = t_stopped t" "t_stopped (recv_step r t) = t_stopped t"
    "t_stopped (tun_step t) = t_stopped t" "t_stopped (tun_read_step b t) = t_stopped t" "t_stopped (write_step ok t) = t_stopped t"
  by (rule more_tunnel(2); simp)+

lemma stopped_step: "t_stopped t \<Longrightarrow> t_stopped (tunnel_step prof e t)"
proof (cases e)
  case (TunnelPump ev)
  assume s: "t_stopped t"
  show ?thesis
  proof (cases ev)
    case (EvRedial d)
    have "t_stopped (redial_step (tunnel_redial prof) d t)"
      using s stopped_redial[of prof d t]
      by (cases "tunnel_redial prof d t") (auto simp: redial_step_def goto_def split: sum.splits)
    with TunnelPump EvRedial show ?thesis by simp
  qed (use s TunnelPump in \<open>simp_all add: t_stopped_steps\<close>)
qed simp

lemma stopped_run: "t_stopped t \<Longrightarrow> t_stopped (tunnel_run prof evs t)"
  by (induction evs arbitrary: t) (simp_all add: stopped_step)

lemma stop_run: "TunnelStop \<in> set evs \<Longrightarrow> t_stopped (tunnel_run prof evs t)"
proof (induction evs arbitrary: t)
  case (Cons e evs)
  show ?case
  proof (cases "e = TunnelStop")
    case True
    then show ?thesis by (simp add: stopped_run)
  next
    case False
    with Cons show ?thesis by simp
  qed
qed simp

section \<open>From the dial to the start\<close>

text \<open>Before a dial: the memory is in order and every earlier session is closed.\<close>

definition idle_memory :: "'x mem_scheme \<Rightarrow> bool" where
  "idle_memory m \<longleftrightarrow> acc (w_open m) m \<and> (\<forall>i < length (sessions m). ss_done (sessions m ! i))"

definition tunnel_ready :: "resource set \<Rightarrow> 'x tunnel_scheme \<Rightarrow> bool" where
  "tunnel_ready B t \<longleftrightarrow> (\<exists>i. t_sess t = Some i) \<and> pump_ready B (t_sess t) t \<and> \<not> t_stopped t"

lemma fresh_tunnel_sel [simp]:
  "w_open (fresh_tunnel cb pipe t) = w_open t" "w_next (fresh_tunnel cb pipe t) = w_next t"
  "sessions (fresh_tunnel cb pipe t) = sessions t" "t_stopped (fresh_tunnel cb pipe t) = False"
  by (simp_all add: fresh_tunnel_def)

lemma report_dialed_sel [simp]:
  "w_open (report_dialed i t) = w_open t" "w_next (report_dialed i t) = w_next t" "sessions (report_dialed i t) = sessions t"
  "t_stopped (report_dialed i t) = t_stopped t" "t_started (report_dialed i t) = t_started t"
  by (simp_all add: report_dialed_def Let_def split: list.splits)

lemma mobile_dial_ready:
  fixes t :: "'x tunnel_scheme"
  assumes i: "idle_memory t" and g: "good_env env" and d: "mobile_dial env cfg cb pipe t = (t', r)"
  shows "case r of Inl e \<Rightarrow> w_open t' = w_open t \<and> idle_memory t' | Inr _ \<Rightarrow> tunnel_ready (w_open t) t'"
proof (cases cfg)
  case None
  with i d show ?thesis by (auto simp: mobile_dial_def)
next
  case (Some c)
  let ?f = "fresh_tunnel cb pipe t"
  obtain m x where m: "connectSession env (profileFromConfig c) pipe ?f = (m, x)"
    by (cases "connectSession env (profileFromConfig c) pipe ?f")
  have "acc (w_open t) t" using i by (simp add: idle_memory_def)
  then have a: "acc (w_open t) ?f" by (rule acc_cong) simp_all
  note ok = connectSession_ok[OF g a m] and st = more_tunnel(2)[OF connectSession_more[OF m]]
  show ?thesis
  proof (cases x)
    case (Inl e)
    have s: "sessions m = sessions t" "acc (w_open t) m" using ok Inl by simp_all
    then have "w_open m = w_open t" using i by (intro all_done_quiet[of "w_open t" m]) (simp_all add: idle_memory_def)
    moreover from this s have "acc (w_open m) (m\<lparr>ctx_done := True\<rparr>)" by (auto intro: acc_cong)
    ultimately show ?thesis using d Some m Inl s i by (auto simp: mobile_dial_def idle_memory_def)
  next
    case (Inr k)
    have o: "acc (w_open t) m" "k = length (sessions t)" "length (sessions m) = Suc k" "heap_step (sessions t) (sessions m)"
      using ok Inr by simp_all
    have "ss_done (sessions m ! j)" if "j < k" for j
      using o(2,4) i that by (auto simp: idle_memory_def heap_step_def same_session_def)
    then have pr: "pump_ready (w_open t) (Some k) m" using o(1,3) by (auto simp: pump_ready_def less_Suc_eq)
    have t': "t' = rememberAssigned k ((report_dialed k m)\<lparr>t_sess := Some k, t_prof := Some (validated (profileFromConfig c))\<rparr>)" "r = Inr ()"
      using d Some m Inr by (simp_all add: mobile_dial_def)
    have "pump_ready (w_open t) (Some k) t'" using pr by (rule pump_ready_cong) (simp_all add: t'(1))
    with t' st show ?thesis by (simp add: tunnel_ready_def)
  qed
qed

lemma start_commit_inv:
  fixes t :: "'x tunnel_scheme"
  assumes "pump_ready B (Some i) t" "t_sess t = Some i" "\<not> t_stopped t"
  shows "tun_inv B (start_commit msg i t)"
proof -
  define u where "u = (attach_tun True i (if msg \<noteq> [] then on_status msg t else t))\<lparr>t_started := True\<rparr>"
  have u: "w_open u = w_open t" "w_next u = w_next t" "length (sessions u) = length (sessions t)" "t_sess u = Some i" "\<not> t_stopped u"
    "\<And>j. j < length (sessions t) \<Longrightarrow> ss_done (sessions u ! j) = ss_done (sessions t ! j)"
    using assms(2,3) by (simp_all add: u_def) (simp_all add: attach_tun_def)
  have "acc B t" "i < length (sessions t)" using assms(1) by (simp_all add: pump_ready_def)
  then have "acc B (attach_tun True i t)" by (rule acc_attach_tun)
  then have "acc B u" by (rule acc_cong) (simp_all add: u_def attach_tun_def)
  then have pr: "pump_ready B (Some i) u" using assms(1) u(3,6) by (simp add: pump_ready_def)
  define v where "v = Pump_Run (NewPump (Some i) True u)"
  have c: "start_commit msg i t = on_status ''forwarding started'' (v\<lparr>t_pumps := t_pumps u + 1\<rparr>)"
    by (simp add: start_commit_def Let_def u_def v_def)
  have pv: "pump_inv B v" unfolding v_def using pr by (rule pump_inv_start)
  have v: "sessions v = sessions (attach_tun True i u)" "t_sess v = Some i" "\<not> t_stopped v"
    using u(4,5) by (simp_all add: v_def Pump_Run_def NewPump_def attach_tun_def)
  have pi: "pump_inv B (start_commit msg i t)"
    unfolding c by (rule pump_inv_tun_moves[OF pv]) simp_all
  show ?thesis
    by (rule tun_invI[OF pi]) (use c v pr u(3) in \<open>auto simp: pump_ready_def\<close>)
qed

lemma startWithDevice_inv:
  assumes "tunnel_ready B t" "startWithDevice cl msg t = (t', Inr u)"
  shows "tun_inv B t'"
proof -
  obtain i where i: "t_sess t = Some i" "pump_ready B (Some i) t" "\<not> t_stopped t"
    using assms(1) by (auto simp: tunnel_ready_def)
  with assms(2) have "t' = start_commit msg i t"
    by (auto simp: startWithDevice_def start_check_def split: if_splits option.splits)
  with start_commit_inv[OF i(2,1,3)] show ?thesis by simp
qed

lemma dotted_nonempty: "dotted w \<noteq> []"
proof -
  have "length (be_bytes 4 w) = Suc (Suc (Suc (Suc 0)))" by simp
  then obtain a b c d where "be_bytes 4 w = [a, b, c, d]"
    by (auto simp only: length_Suc_conv length_0_conv)
  then show ?thesis by (simp add: dotted_def)
qed

lemma addr4_string_nonempty: "addr_is4 a \<Longrightarrow> addr_string a \<noteq> []"
  by (cases a) (simp_all add: dotted_nonempty)

section \<open>Properties\<close>


definition demo_config :: mobile_config where
  "demo_config = \<lparr>mc_Server = ''10.0.0.1:53'', mc_ServerName = ''vpn'', mc_CAPath = ''ca.pem'', mc_CertPath = [],
     mc_KeyPath = [], mc_MTU = 0, mc_AltPort = 0, mc_BindInterface = []\<rparr>"

definition demo_tunnel :: tunnel where
  "demo_tunnel = \<lparr>w_next = 0, w_open = {}, sessions = [], ctx_done = False, pm_sess = None, pm_dev = False,
     pm_tunErr = None, pm_backoff = 1, pm_run = RTop, pm_tun = TDone, pm_sent = [], pm_delivered = [],
     t_sess = None, t_prof = None, t_cb = False, t_lastAddr = [], t_lastBits = 0, t_lastAddrV6 = [], t_started = False,
     t_stopped = False, t_bridge = False, t_bridgeClosed = False, t_bridgeMTU = 0, t_pipe = False, t_pipeClosed = False,
     t_pumps = 0, t_status = [], t_errors = 0\<rparr>"

lemma demo_idle: "idle_memory demo_tunnel"
  by (simp add: idle_memory_def demo_tunnel_def acc_def cl.accounts_def world_ok_def)

lemma demo_good_env: "good_env (demo_env accept True)"
  by (simp add: good_env_def demo_env_def prefix_from_def prefix_wf_def)


text \<open>
  C25. A reconnect is accepted exactly when the tunnel remembers no IPv4 address or the first
  prefix of the new session has the remembered one; otherwise the new session is closed and
  the tunnel cancelled, for the platform to rebuild the TUN. A tunnel with an IPv4 address
  keeps it, but one that only has an IPv6 address accepts a session with any other, its TUN
  unchanged.
\<close>

theorem reconnect_address_check:
  fixes t :: "'x tunnel_scheme"
  assumes "connectSession env prof (t_pipe t) (on_status ''reconnecting'' t) = (m, Inr i)" "\<not> t_stopped m"
    "i < length (sessions m)" "tunnel_redial prof env t = (t', r)"
  shows "(r = Inr i \<longleftrightarrow> t_lastAddr m = [] \<or> first_addr (sessions m ! i) = [] \<or> first_addr (sessions m ! i) = t_lastAddr m) \<and>
    (if r = Inr i then t_sess t' = Some i \<and> sessions t' = sessions m \<and> ctx_done t' = ctx_done m \<and>
       (t_lastAddr m \<noteq> [] \<longrightarrow>
          (case ss_AssignedPrefixes (sessions m ! i) of [] \<Rightarrow> True
           | p # _ \<Rightarrow> addr_is4 (px_addr p) \<longrightarrow> AssignedAddr t' = t_lastAddr m))
     else r = Inl CCanceled \<and> ctx_done t' \<and> ss_done (sessions t' ! i))"
  using assms(4)
proof (cases rule: tunnel_redial_cases)
  case (changed m' i')
  with assms(1) have m: "m' = m" "i' = i" by simp_all
  have "r \<noteq> Inr i" using changed(7) by simp
  moreover have "ss_done (sessions t' ! i)" unfolding changed(6) m using assms(3) by simp
  moreover have "ctx_done t'" unfolding changed(6) by simp
  ultimately show ?thesis using changed(3-5,7) m by auto
next
  case (kept m' i' msg)
  with assms(1) have m: "m' = m" "i' = i" by simp_all
  have t': "t_sess t' = Some i" "sessions t' = sessions m" "ctx_done t' = ctx_done m" unfolding kept(4) m by simp_all
  have a: "AssignedAddr t' = t_lastAddr m"
    if "t_lastAddr m \<noteq> []" "ss_AssignedPrefixes (sessions m ! i) = p # ps" "addr_is4 (px_addr p)" for p ps
  proof -
    have "\<not> addr_is6 (px_addr p)" using that(3) by (cases "px_addr p") simp_all
    with that t' have "AssignedAddr t' = addr_string (px_addr p)" by (simp add: AssignedAddr_def live_prefix_def)
    moreover have "first_addr (sessions m ! i) = addr_string (px_addr p)" using that(2) by (simp add: first_addr_def)
    ultimately show ?thesis using kept(3) that(1) addr4_string_nonempty[OF that(3)] m by auto
  qed
  have "r = Inr i" using kept(5) m by simp
  moreover have "t_lastAddr m = [] \<or> first_addr (sessions m ! i) = [] \<or> first_addr (sessions m ! i) = t_lastAddr m"
    using kept(3) m by auto
  ultimately show ?thesis using t' a by (auto split: list.splits)
qed (use assms(1,2) in simp_all)

definition demo_env6 :: "128 word \<Rightarrow> connect_env" where
  "demo_env6 a = (demo_env (\<lambda>c. True) True)\<lparr>ce_finish := (ce_finish (demo_env (\<lambda>c. True) True))
     \<lparr>fe_prefixes := Some [prefix_from (Addr6 a []) 128]\<rparr>\<rparr>"

definition demo_tunnel6 :: tunnel where
  "demo_tunnel6 = fst (mobile_dial (demo_env6 1) (Some demo_config) False False demo_tunnel)"

theorem reconnect_address_check_witness:
  "AssignedAddrV6 demo_tunnel6 = ''::1'' \<and>
   (\<exists>t' i. tunnel_redial (profileFromConfig demo_config) (demo_env6 2) demo_tunnel6 = (t', Inr i) \<and> t_sess t' = Some i \<and>
      \<not> ctx_done t')"
proof -
  let ?c = "connectSession (demo_env6 2) (profileFromConfig demo_config) (t_pipe demo_tunnel6) (on_status ''reconnecting'' demo_tunnel6)"
  obtain m x where c: "?c = (m, x)" by (cases ?c)
  have "snd ?c = Inr 1 \<and> \<not> t_stopped (fst ?c) \<and> length (sessions (fst ?c)) = 2 \<and> t_lastAddr (fst ?c) = [] \<and> \<not> ctx_done (fst ?c)"
    by code_simp
  with c have m: "?c = (m, Inr 1)" "\<not> t_stopped m" "1 < length (sessions m)" "t_lastAddr m = []" "\<not> ctx_done m" by simp_all
  obtain t' r where t': "tunnel_redial (profileFromConfig demo_config) (demo_env6 2) demo_tunnel6 = (t', r)"
    by fastforce
  have "AssignedAddrV6 demo_tunnel6 = ''::1''" by code_simp
  with reconnect_address_check[OF m(1-3) t'] m(4,5) t' show ?thesis by auto
qed

text \<open>
  Starting is not atomic: two platform calls that both pass \<open>startWithDevice\<close>'s check
  before either sets \<open>started\<close> start two pumps on the one session, so that two TUN readers
  and two loops share it. Run one after the other, the second call is refused and its device
  closed.
\<close>

theorem start_race:
  fixes t :: "'x tunnel_scheme"
  assumes "start_check close1 t = (t, Inr i)"
  shows "start_check close2 t = (t, Inr i) \<and>
    t_pumps (start_commit msg2 i (start_commit msg1 i t)) = t_pumps t + 2 \<and>
    start_check close2 (start_commit msg1 i t) = (close2 (start_commit msg1 i t), Inl MStarted)"
proof -
  have s: "\<not> t_stopped t" "\<not> t_started t"
    using assms by (auto simp: start_check_def split: if_splits)
  have c: "start_check close2 t = (t, Inr i)"
    using assms s by (auto simp: start_check_def split: option.splits)
  have p: "t_pumps (start_commit msg i u) = t_pumps u + 1" "t_started (start_commit msg i u)"
    "t_stopped (start_commit msg i u) = t_stopped u" for msg and u :: "'x tunnel_scheme"
    by (simp_all add: start_commit_def Let_def Pump_Run_def NewPump_def attach_tun_def)
  then have "start_check close2 (start_commit msg1 i t) = (close2 (start_commit msg1 i t), Inl MStarted)"
    using s by (simp add: start_check_def)
  with c p show ?thesis by simp
qed

theorem start_race_witness:
  "t_pumps (start_commit [] 0 (start_commit [] 0 demo_tunnel6)) = 2"
proof -
  have "start_check (\<lambda>t. t) demo_tunnel6 = (demo_tunnel6, Inr 0) \<and> t_pumps demo_tunnel6 = 0"
  proof -
    have "\<not> t_stopped demo_tunnel6 \<and> \<not> t_started demo_tunnel6 \<and> t_sess demo_tunnel6 = Some 0 \<and> t_prof demo_tunnel6 \<noteq> None \<and>
        t_pumps demo_tunnel6 = 0" by code_simp
    then show ?thesis by (auto simp: start_check_def)
  qed
  with start_race[of "\<lambda>t. t" demo_tunnel6 0 "\<lambda>t. t" "[]" "[]"] show ?thesis by simp
qed

end
