(* ===== verification/GoText.thy ===== *)
theory GoText
  imports GoStrings
begin

text \<open>
  Line-oriented text of Go's \<open>strings\<close> and \<open>bufio\<close>: the lines of a \<open>Scanner\<close>, \<open>Fields\<close>,
  \<open>Trim\<close> with a cut set, \<open>ReplaceAll\<close> of one byte, \<open>Join\<close> and lower case.
\<close>

section \<open>Lines\<close>

text \<open>
  \<open>bufio.Scanner\<close> with \<open>ScanLines\<close>: a final empty line is no line, a trailing carriage return
  is dropped, and the scan stops at a line that does not fit its buffer of 65536 bytes.
\<close>

definition drop_cr :: "string \<Rightarrow> string" where
  "drop_cr l = (if l \<noteq> [] \<and> last l = CHR 0x0D then butlast l else l)"

definition scan_lines :: "string \<Rightarrow> string list" where
  "scan_lines text =
     (let ls = split_on (CHR 0x0A) text; ls = (if last ls = [] then butlast ls else ls)
      in map drop_cr (takeWhile (\<lambda>l. int (length l) < 65536) ls))"

definition unlines :: "string list \<Rightarrow> string" where
  "unlines ls = concat (map (\<lambda>l. l @ [CHR 0x0A]) ls)"

fun join_with :: "string \<Rightarrow> string list \<Rightarrow> string" where
  "join_with sep [] = []"
| "join_with sep [s] = s"
| "join_with sep (s # t # ts) = s @ sep @ join_with sep (t # ts)"

lemma unlines_simps [simp]: "unlines [] = []" "unlines (l # ls) = l @ CHR 0x0A # unlines ls"
  by (simp_all add: unlines_def)

lemma split_on_unlines:
  "\<forall>l \<in> set ls. CHR 0x0A \<notin> set l \<Longrightarrow> split_on (CHR 0x0A) (unlines ls) = ls @ [[]]"
  by (induction ls) (simp_all add: split_on_append)

lemma scan_lines_unlines:
  assumes "\<forall>l \<in> set ls. CHR 0x0A \<notin> set l \<and> CHR 0x0D \<notin> set l \<and> int (length l) < 65536"
  shows "scan_lines (unlines ls) = ls"
proof -
  have "map drop_cr ls = ls"
    using assms by (intro map_idI) (metis drop_cr_def last_in_set)
  then show ?thesis
    using assms by (simp add: scan_lines_def split_on_unlines takeWhile_eq_all_conv[THEN iffD2])
qed

section \<open>Fields\<close>

definition space_at :: "string \<Rightarrow> bool" where
  "space_at s \<longleftrightarrow> list_ex (has_prefix s) go_spaces"

fun word_len :: "string \<Rightarrow> nat" where
  "word_len [] = 0"
| "word_len (c # s) = (if space_at (c # s) then 0 else Suc (word_len s))"

lemma word_len_le: "word_len s \<le> length s"
  by (induction s) auto

lemma trim_left_length: "length (trim_left s) \<le> length s"
  unfolding trim_left_def using trim_by_suffix[of s go_spaces] by (metis le_add2 length_append)

function str_fields :: "string \<Rightarrow> string list" where
  "str_fields s =
     (let t = trim_left s; n = word_len t
      in if n = 0 then [] else take n t # str_fields (drop n t))"
  by pat_completeness auto
termination
proof (relation "measure length")
  fix s t n
  assume "t = trim_left s" "n = word_len t" "n \<noteq> (0 :: nat)"
  then show "(drop n t, s) \<in> measure length"
    using word_len_le[of t] trim_left_length[of s] by simp
qed simp

declare str_fields.simps [simp del]

text \<open>Printable ASCII, and the words and gaps made of it.\<close>

definition graphic :: "char \<Rightarrow> bool" where
  "graphic c \<longleftrightarrow> 0x20 < (of_char c :: nat) \<and> (of_char c :: nat) < 0x7F"

lemma graphic_not_space: "graphic c \<Longrightarrow> \<not> space_at (c # s)"
  by (auto simp: space_at_def go_spaces_def has_prefix_def graphic_def)

lemma space_at_space [simp]: "space_at (CHR 0x20 # s)" "space_at (CHR 0x0A # s)"
  by (simp_all add: space_at_def go_spaces_def has_prefix_def)

lemma trim_left_graphic: "graphic c \<Longrightarrow> trim_left (c # s) = c # s"
  using graphic_not_space[of c s] unfolding trim_left_def
  by (intro trim_by_id) (auto simp: space_at_def list_ex_iff)

lemma trim_left_Nil [simp]: "trim_left [] = []"
  unfolding trim_left_def by (rule trim_by_id) (auto simp: has_prefix_def)

lemma trim_left_blank: "c = CHR 0x20 \<or> c = CHR 0x0A \<Longrightarrow> trim_left (c # s) = trim_left s"
proof -
  assume c: "c = CHR 0x20 \<or> c = CHR 0x0A"
  have "find (\<lambda>p. p \<noteq> [] \<and> has_prefix (c # s) p) go_spaces = Some [c]"
    using c by (elim disjE) (simp_all add: go_spaces_def has_prefix_def)
  from trim_by_Some[OF this] show ?thesis by (simp add: trim_left_def)
qed

lemma trim_left_spaces: "trim_left (replicate n CHR 0x20 @ s) = trim_left s"
  by (induction n) (simp_all add: trim_left_blank)

lemma word_len_graphic: "list_all graphic w \<Longrightarrow> word_len (w @ s) = length w + word_len s"
  by (induction w) (simp_all add: graphic_not_space)

lemma fields_Nil [simp]: "str_fields [] = []"
  by (subst str_fields.simps) simp

lemma fields_word:
  assumes "list_all graphic w" "w \<noteq> []"
  shows "str_fields (w @ CHR 0x20 # s) = w # str_fields (CHR 0x20 # s)"
proof -
  obtain c v where w: "w = c # v" using assms(2) by (cases w) auto
  have t: "trim_left (w @ CHR 0x20 # s) = w @ CHR 0x20 # s"
    using assms(1) w by (simp add: trim_left_graphic)
  have n: "word_len (w @ CHR 0x20 # s) = length w" using assms(1) by (simp add: word_len_graphic)
  show ?thesis by (subst str_fields.simps) (simp add: t n Let_def assms(2))
qed

lemma fields_last:
  assumes "list_all graphic w" "w \<noteq> []"
  shows "str_fields w = [w]"
proof -
  have t: "trim_left w = w" using assms by (cases w) (simp_all add: trim_left_graphic)
  have n: "word_len w = length w" using word_len_graphic[OF assms(1), of "[]"] by simp
  show ?thesis by (subst str_fields.simps) (simp add: t n Let_def assms(2))
qed

lemma fields_blank: "str_fields (CHR 0x20 # s) = str_fields s"
proof -
  have "trim_left (CHR 0x20 # s) = trim_left s" by (simp add: trim_left_blank)
  then show ?thesis using str_fields.simps[of s] str_fields.simps[of "CHR 0x20 # s"] by simp
qed

section \<open>Trimming\<close>

definition trim_cut :: "string \<Rightarrow> string \<Rightarrow> string" where
  "trim_cut cs s = rev (dropWhile (\<lambda>c. c \<in> set cs) (rev (dropWhile (\<lambda>c. c \<in> set cs) s)))"

lemma trim_right_graphic:
  assumes "graphic c"
  shows "trim_right (s @ [c]) = s @ [c]"
proof -
  have "\<forall>p \<in> set (map rev go_spaces). p = [] \<or> \<not> has_prefix (c # rev s) p"
    using assms by (auto simp: go_spaces_def has_prefix_def graphic_def)
  then show ?thesis unfolding trim_right_def by (simp add: trim_by_id)
qed

lemma trim_space_Nil [simp]: "trim_space [] = []"
  by (simp add: trim_space_def trim_right_def trim_by_None find_None_iff has_prefix_def)

lemma trim_right_newline: "trim_right (s @ [CHR 0x0A]) = trim_right s"
proof -
  have "find (\<lambda>p. p \<noteq> [] \<and> has_prefix (CHR 0x0A # rev s) p) (map rev go_spaces) = Some [CHR 0x0A]"
    by (simp add: go_spaces_def has_prefix_def)
  from trim_by_Some[OF this] show ?thesis by (simp add: trim_right_def)
qed

lemma trim_space_graphic: "graphic (hd s) \<Longrightarrow> graphic (last s) \<Longrightarrow> s \<noteq> [] \<Longrightarrow> trim_space s = s"
proof -
  assume s: "graphic (hd s)" "graphic (last s)" "s \<noteq> []"
  then have "trim_left s = s" by (cases s) (simp_all add: trim_left_graphic)
  moreover have "trim_right s = s" using s by (cases s rule: rev_cases) (simp_all add: trim_right_graphic)
  ultimately show ?thesis by (simp add: trim_space_def)
qed

lemma trim_space_line:
  assumes "graphic (hd s)" "graphic (last s)" "s \<noteq> []"
  shows "trim_space (s @ [CHR 0x0A]) = s"
proof -
  have "trim_left (s @ [CHR 0x0A]) = s @ [CHR 0x0A]" using assms by (cases s) (simp_all add: trim_left_graphic)
  moreover have "trim_right s = s" using assms by (cases s rule: rev_cases) (simp_all add: trim_right_graphic)
  ultimately show ?thesis by (simp add: trim_space_def trim_right_newline)
qed

lemma graphic_digit: "is_digit c \<Longrightarrow> graphic c"
  by (auto simp: is_digit_def graphic_def)

lemma graphic_nat_str: "list_all graphic (nat_str n)"
  using nat_str_digits[of n] by (auto simp: list_all_iff graphic_digit)

section \<open>Replacing and lower case\<close>

definition replace_byte :: "char \<Rightarrow> string \<Rightarrow> string \<Rightarrow> string" where
  "replace_byte c new s = concat (map (\<lambda>d. if d = c then new else [d]) s)"

text \<open>\<open>ToLower\<close>; \<open>uni\<close> is the case mapping of a text that is not ASCII.\<close>

definition lower_ascii :: "char \<Rightarrow> char" where
  "lower_ascii c = (let n = (of_char c :: nat) in if 65 \<le> n \<and> n \<le> 90 then char_of (n + 32) else c)"

definition str_lower :: "(string \<Rightarrow> string) \<Rightarrow> string \<Rightarrow> string" where
  "str_lower uni s =
     (if list_all (\<lambda>c. (of_char c :: nat) < 128) s then map lower_ascii s else uni s)"

section \<open>Paths\<close>

text \<open>A path is its elements, as \<open>filepath.Join\<close> takes them.\<close>

type_synonym path = "string list"

end
