(* ===== verification/VpsText.thy ===== *)
theory VpsText
  imports GoText NetParse
begin

text \<open>
  The text handling of the server installer (\<open>windows/internal/vpssetup\<close>): host and port
  checks, the UDP ports of \<open>ss\<close>, the distribution of \<open>/etc/os-release\<close>, the probe of an
  existing installation, certificate numbers and shell quoting.
\<close>

datatype setup_error =
  SHostEmpty | SHostIPv6 | SHostInvalid string | SPortRange | SPort22
| SArch string | SUbuntu string | SDebian string | SOS string | SCertRange | SCertText
| SNoSession string | SRemote string | STimedOut | SPreflight setup_error | SExisting string
| SBinaryEmpty | SBinaryStat | SBinaryMissing string | SNotInstalled | SNoService | SRestart string
| SServiceState string | SNextIndex string | SNotReady string | SSlotsFull
| SDownload setup_error | SUpload setup_error | SLocalFile | SSSHPort | SKey | SNoAuth
| SKnownHosts | SDial string | SUnknownHost string string string | SMismatchedHost string

section \<open>Hosts and ports\<close>

definition is_alnum :: "char \<Rightarrow> bool" where
  "is_alnum c \<longleftrightarrow>
     (let n = (of_char c :: nat)
      in is_digit c \<or> 65 \<le> n \<and> n \<le> 90 \<or> 97 \<le> n \<and> n \<le> 122)"

text \<open>The expression \<open>^[A-Za-z0-9][A-Za-z0-9._-]*$\<close>.\<close>

definition hostRe :: "string \<Rightarrow> bool" where
  "hostRe s =
     (case s of
        [] \<Rightarrow> False
      | c # t \<Rightarrow> is_alnum c \<and> list_all (\<lambda>d. is_alnum d \<or> d \<in> set ''._-'') t)"

definition ValidateHost :: "string \<Rightarrow> setup_error option" where
  "ValidateHost s =
     (let s = trim_space s
      in if s = [] then Some SHostEmpty
         else case parse_ip s of
                Some ip \<Rightarrow> if to4 ip = None then Some SHostIPv6 else None
              | None \<Rightarrow> if \<not> hostRe s \<or> str_contains s ''..'' then Some (SHostInvalid s) else None)"

definition ValidateUDPPort :: "int \<Rightarrow> setup_error option" where
  "ValidateUDPPort p =
     (if p < 1 \<or> 65535 < p then Some SPortRange
      else if p = 22 then Some SPort22 else None)"

section \<open>Listening ports\<close>

definition CandidatePorts :: "int list" where
  "CandidatePorts = [443, 2053, 8443, 41234]"

definition portFromAddr :: "string \<Rightarrow> int option" where
  "portFromAddr f =
     (let f = trim_suffix f '',''
      in case last_index (CHR '':'') f of
           None \<Rightarrow> None
         | Some i \<Rightarrow>
             if int i = int (length f) - 1 then None
             else case atoi (drop (Suc i) f) of
                    None \<Rightarrow> None
                  | Some n \<Rightarrow> if n < 1 \<or> 65535 < n then None else Some n)"

fun first_port :: "string list \<Rightarrow> int option" where
  "first_port [] = None"
| "first_port (f # fs) = (case portFromAddr f of Some p \<Rightarrow> Some p | None \<Rightarrow> first_port fs)"

definition listen_line :: "string \<Rightarrow> int set \<Rightarrow> int set" where
  "listen_line line out =
     (let line = trim_space line
      in if line = [] then out
         else case first_port (str_fields line) of Some p \<Rightarrow> insert p out | None \<Rightarrow> out)"

definition ParseListeningUDPPorts :: "string \<Rightarrow> int set" where
  "ParseListeningUDPPorts ssOutput = fold listen_line (scan_lines ssOutput) {}"

fun recommend_loop :: "int set \<Rightarrow> int list \<Rightarrow> int list \<Rightarrow> int list" where
  "recommend_loop listening [] rec_ports = rec_ports"
| "recommend_loop listening (p # ps) rec_ports =
     recommend_loop listening ps (if p \<notin> listening then rec_ports @ [p] else rec_ports)"

definition Recommend :: "int set \<Rightarrow> int list" where
  "Recommend listening = recommend_loop listening CandidatePorts []"

definition formatPortList :: "int list \<Rightarrow> string" where
  "formatPortList ports = (if ports = [] then ''(none)'' else join_with '', '' (map itoa ports))"

section \<open>Distribution\<close>

record distro =
  d_ID :: string
  d_VersionID :: string
  d_PrettyName :: string
  d_Arch :: string

definition os_line :: "(string \<Rightarrow> string) \<Rightarrow> string \<Rightarrow> distro \<Rightarrow> distro" where
  "os_line uni line d =
     (let line = trim_space line
      in if line = [] \<or> has_prefix line ''#'' then d
         else case str_cut line ''='' of
                (k, v, ok) \<Rightarrow>
                  if \<not> ok then d
                  else
                    let v = trim_cut [CHR 0x22, CHR 0x27] v
                    in if k = ''ID'' then d\<lparr>d_ID := str_lower uni v\<rparr>
                       else if k = ''VERSION_ID'' then d\<lparr>d_VersionID := v\<rparr>
                       else if k = ''PRETTY_NAME'' then d\<lparr>d_PrettyName := v\<rparr>
                       else d)"

definition ParseOSRelease :: "(string \<Rightarrow> string) \<Rightarrow> string \<Rightarrow> distro" where
  "ParseOSRelease uni text =
     fold (os_line uni) (scan_lines text) \<lparr>d_ID = [], d_VersionID = [], d_PrettyName = [], d_Arch = []\<rparr>"

definition GoArch :: "string \<Rightarrow> setup_error + string" where
  "GoArch unameM =
     (let m = trim_space unameM
      in if m = ''x86_64'' \<or> m = ''amd64'' then Inr ''amd64''
         else if m = ''aarch64'' \<or> m = ''arm64'' then Inr ''arm64''
         else Inl (SArch unameM))"

definition Supported :: "distro \<Rightarrow> setup_error option" where
  "Supported d =
     (let d = (if d_PrettyName d = [] then d\<lparr>d_PrettyName := d_ID d @ '' '' @ d_VersionID d\<rparr> else d)
      in if d_ID d = ''ubuntu'' then
           (if d_VersionID d \<in> set [''22.04'', ''24.04'', ''26.04''] then None else Some (SUbuntu (d_VersionID d)))
         else if d_ID d = ''debian'' then
           (if d_VersionID d = ''12'' then None else Some (SDebian (d_VersionID d)))
         else Some (SOS (d_PrettyName d)))"

section \<open>An existing installation\<close>

record existing =
  ex_Present :: bool
  ex_Active :: bool
  ex_HasCA :: bool
  ex_ServerName :: string
  ex_UDPPort :: int
  ex_Note :: string

text \<open>The dash of the message, in UTF-8.\<close>

definition em_dash :: string where
  "em_dash = [CHR 0xE2, CHR 0x80, CHR 0x94]"

definition existing_Summary :: "existing \<Rightarrow> string" where
  "existing_Summary e =
     (if \<not> ex_Present e then ''No existing MASQUE install''
      else
        let host = (if ex_ServerName e = [] then ''?'' else ex_ServerName e);
            port = (if 0 < ex_UDPPort e then itoa (ex_UDPPort e) else ''?'');
            state = (if ex_Active e then ''running'' else ''installed'');
            ca = (if \<not> ex_HasCA e then ''CA key missing '' @ em_dash @ '' cannot issue'' else ''CA ready'')
        in ''MASQUE already '' @ state @ '' '' @ em_dash @ '' will not reinstall ('' @ host @ '' UDP '' @ port @ '', ''
           @ ca @ '')'')"

definition toml_line :: "string \<Rightarrow> string \<times> int \<Rightarrow> string \<times> int" where
  "toml_line line r =
     (case r of (name, port) \<Rightarrow>
        let line = trim_space line
        in if has_prefix line ''#'' then r
           else case str_cut line ''='' of
                  (key, val, ok) \<Rightarrow>
                    if \<not> ok then r
                    else
                      let key = trim_space key; val = trim_cut [CHR 0x22] (trim_space val)
                      in if key = ''server_name'' then (val, port)
                         else if key = ''bind'' then
                           (case last_index (CHR '':'') val of
                              None \<Rightarrow> r
                            | Some i \<Rightarrow> (case atoi (drop (Suc i) val) of None \<Rightarrow> r | Some p \<Rightarrow> (name, p)))
                         else r)"

definition ParseServerTOML :: "string \<Rightarrow> string \<times> int" where
  "ParseServerTOML text = fold toml_line (split_on (CHR 0x0A) text) ([], 0)"

definition parseMasqueProbe :: "string \<Rightarrow> existing" where
  "parseMasqueProbe block =
     (case str_cut block ''---TOML---'' of
        (flags, toml, _) \<Rightarrow>
          let toml = fst (str_cut toml ''---ENDTOML---'');
              active = str_contains flags ''ACTIVE'';
              hasCA = str_contains flags ''HASCA'';
              hasConfig = str_contains flags ''HASCONFIG'';
              hasBin = str_contains flags ''HASBIN'';
              hasSvc = str_contains flags ''HASSVC'';
              present = (hasConfig \<or> active \<or> (hasBin \<and> hasSvc));
              (name, port) = ParseServerTOML toml;
              e = \<lparr>ex_Present = present, ex_Active = active, ex_HasCA = hasCA, ex_ServerName = name,
                   ex_UDPPort = port, ex_Note = []\<rparr>
          in if present then e\<lparr>ex_Note := existing_Summary e\<rparr> else e)"

section \<open>Certificate numbers and shell words\<close>

definition FirstAppIndex :: int where "FirstAppIndex = 9"
definition PoolSlots :: int where "PoolSlots = 253"
definition LastAppIndex :: int where "LastAppIndex = 261"

definition ClientCN :: "int \<Rightarrow> setup_error + string" where
  "ClientCN n = (if n < 1 \<or> LastAppIndex < n then Inl SCertRange else Inr (''masque-client-'' @ itoa n))"

definition ParseCertNumber :: "string \<Rightarrow> setup_error + int" where
  "ParseCertNumber s =
     (case atoi (trim_space s) of
        None \<Rightarrow> Inl SCertText
      | Some n \<Rightarrow> (case ClientCN n of Inl e \<Rightarrow> Inl e | Inr _ \<Rightarrow> Inr n))"

fun last_nonempty :: "string list \<Rightarrow> string option" where
  "last_nonempty [] = None"
| "last_nonempty (l # ls) =
     (case last_nonempty ls of
        Some t \<Rightarrow> Some t
      | None \<Rightarrow> if trim_space l \<noteq> [] then Some (trim_space l) else None)"

definition lastNonEmptyLine :: "string \<Rightarrow> string" where
  "lastNonEmptyLine s = (case last_nonempty (split_on (CHR 0x0A) s) of Some t \<Rightarrow> t | None \<Rightarrow> s)"

definition shellSingleQuote :: "string \<Rightarrow> string" where
  "shellSingleQuote s =
     CHR 0x27 # replace_byte (CHR 0x27) [CHR 0x27, CHR 0x5C, CHR 0x27, CHR 0x27] s @ [CHR 0x27]"

end
