(* ===== verification/VpsDeploy.thy ===== *)
theory VpsDeploy
  imports VpsText
begin

text \<open>
  The installer's operations on a server (\<open>windows/internal/vpssetup\<close>): the SSH session,
  preflight, installation, issuing and revoking certificates. \<open>exec\<close> is the server: it runs
  a command on a state and replies; progress messages are left out.
\<close>

section \<open>Running commands\<close>

text \<open>
  The scripts of the code by name, with their quoted arguments, and command lines. A reply
  has the running time in seconds, the two output streams and the error of the command.
\<close>

datatype remote_cmd =
  ScriptPreflight | ScriptProbe | ScriptStatus | ScriptRestart | ScriptRevoke string string | CmdLine string

datatype ssh_reply = RNoSession string | RDone int string string "string option"

type_synonym 'r exec = "remote_cmd \<Rightarrow> string \<Rightarrow> 'r \<Rightarrow> 'r \<times> ssh_reply"

definition RunBytes :: "'r exec \<Rightarrow> int \<Rightarrow> remote_cmd \<Rightarrow> 'r \<Rightarrow> 'r \<times> string \<times> setup_error option" where
  "RunBytes exec timeout cmd r =
     (case exec cmd [] r of
        (r, RNoSession e) \<Rightarrow> (r, [], Some (SNoSession e))
      | (r, RDone secs stdout stderr err) \<Rightarrow>
          if timeout < secs then (r, [], Some STimedOut)
          else case err of
                 None \<Rightarrow> (r, stdout, None)
               | Some e \<Rightarrow>
                   let mix = trim_space (stdout @ [CHR 0x0A] @ stderr)
                   in (r, stdout, Some (SRemote (if mix \<noteq> [] then e @ '': '' @ mix else e))))"

definition Client_Run :: "'r exec \<Rightarrow> int \<Rightarrow> remote_cmd \<Rightarrow> 'r \<Rightarrow> 'r \<times> string \<times> setup_error option" where
  "Client_Run exec timeout cmd r =
     (case RunBytes exec timeout cmd r of (r, b, err) \<Rightarrow> (r, trim_space b, err))"

definition upload_cmd :: "string \<Rightarrow> string \<Rightarrow> remote_cmd" where
  "upload_cmd remotePath mode =
     CmdLine (''umask 077; cat > '' @ shellSingleQuote remotePath @ '' && chmod '' @ mode @ '' ''
       @ shellSingleQuote remotePath)"

definition Upload :: "'r exec \<Rightarrow> string \<Rightarrow> string \<Rightarrow> string \<Rightarrow> 'r \<Rightarrow> 'r \<times> setup_error option" where
  "Upload exec remotePath data mode r =
     (case exec (upload_cmd remotePath mode) data r of
        (r, RNoSession e) \<Rightarrow> (r, Some (SNoSession e))
      | (r, RDone secs stdout stderr None) \<Rightarrow> (r, None)
      | (r, RDone secs stdout stderr (Some e)) \<Rightarrow> (r, Some (SUpload (SRemote (e @ '': '' @ trim_space stderr)))))"

text \<open>\<open>strings.Contains (err.Error (), s)\<close> for the errors of \<open>Run\<close>.\<close>

definition err_contains :: "setup_error \<Rightarrow> string \<Rightarrow> bool" where
  "err_contains e s =
     (case e of SNoSession t \<Rightarrow> str_contains t s | SRemote t \<Rightarrow> str_contains t s | _ \<Rightarrow> False)"

section \<open>Preflight and installation\<close>

record preflight =
  pr_Distro :: distro
  pr_GoArch :: string
  pr_Pretty :: string
  pr_HasUFW :: bool
  pr_Listening :: "int set"
  pr_Recommended :: "int list"
  pr_TakenSuggest :: "int list"
  pr_Existing :: existing

definition preflight_of :: "(string \<Rightarrow> string) \<Rightarrow> string \<Rightarrow> setup_error + preflight" where
  "preflight_of uni out =
     (let (osPart, rest, _) = str_cut out ''---ARCH---'';
          osPart = trim_prefix (trim_space osPart) ''---OS---'';
          (archPart, rest, _) = str_cut (trim_space rest) ''---UFW---'';
          (ufwPart, rest, _) = str_cut (trim_space rest) ''---SS---'';
          (ssPart, masquePart, _) = str_cut rest ''---MASQUE---'';
          d = (ParseOSRelease uni osPart)\<lparr>d_Arch := trim_space archPart\<rparr>
      in case Supported d of
           Some e \<Rightarrow> Inl e
         | None \<Rightarrow>
             res_bind (GoArch (d_Arch d)) (\<lambda>goarch.
               let listening = ParseListeningUDPPorts ssPart
               in Inr \<lparr>pr_Distro = d, pr_GoArch = goarch, pr_Pretty = d_PrettyName d,
                       pr_HasUFW = str_contains ufwPart ''HASUFW'', pr_Listening = listening,
                       pr_Recommended = Recommend listening,
                       pr_TakenSuggest = filter (\<lambda>p. p \<in> listening) CandidatePorts,
                       pr_Existing = parseMasqueProbe masquePart\<rparr>))"

definition CheckOSAndMachine :: "(string \<Rightarrow> string) \<Rightarrow> 'r exec \<Rightarrow> 'r \<Rightarrow> 'r \<times> (setup_error + preflight)" where
  "CheckOSAndMachine uni exec r =
     (case Client_Run exec 30 ScriptPreflight r of
        (r, _, Some e) \<Rightarrow> (r, Inl (SPreflight e))
      | (r, out, None) \<Rightarrow> (r, preflight_of uni out))"

definition detectExisting :: "'r exec \<Rightarrow> 'r \<Rightarrow> 'r \<times> (setup_error + existing)" where
  "detectExisting exec r =
     (case Client_Run exec 20 ScriptProbe r of
        (r, _, Some e) \<Rightarrow> (r, Inl e)
      | (r, out, None) \<Rightarrow> (r, Inr (parseMasqueProbe (fst (snd (str_cut out ''---MASQUE---''))))))"

definition DefaultLinuxBinaryName :: "string \<Rightarrow> string" where
  "DefaultLinuxBinaryName goarch = ''vpn-server-linux-'' @ goarch"

definition FindLinuxBinary :: "(path \<Rightarrow> bool) \<Rightarrow> string \<Rightarrow> string \<Rightarrow> string list \<Rightarrow> setup_error + path" where
  "FindLinuxBinary stat goarch userPath searchDirs =
     (if trim_space userPath \<noteq> [] then (if \<not> stat [userPath] then Inl SBinaryStat else Inr [userPath])
      else
        let name = DefaultLinuxBinaryName goarch
        in case find stat (map (\<lambda>dir. [dir, name]) searchDirs) of
             Some p \<Rightarrow> Inr p
           | None \<Rightarrow> Inl (SBinaryMissing name))"

definition remoteBin :: string where "remoteBin = ''/tmp/masque-vpn-server-bin''"
definition remoteGenConfig :: string where "remoteGenConfig = ''/tmp/masque-gen-config.sh''"
definition remoteInstall :: string where "remoteInstall = ''/tmp/masque-install.sh''"

fun uploads :: "'r exec \<Rightarrow> (string \<times> string) list \<Rightarrow> 'r \<Rightarrow> 'r \<times> setup_error option" where
  "uploads exec [] r = (r, None)"
| "uploads exec ((path, data) # fs) r =
     (case Upload exec path data ''755'' r of
        (r, Some e) \<Rightarrow> (r, Some e)
      | (r, None) \<Rightarrow> uploads exec fs r)"

definition install_cmd :: "string \<Rightarrow> int \<Rightarrow> remote_cmd" where
  "install_cmd publicHost udpPort =
     CmdLine (''MASQUE_PORT='' @ itoa udpPort @ '' MASQUE_HOST='' @ shellSingleQuote publicHost
       @ '' MASQUE_BIN='' @ shellSingleQuote remoteBin @ '' GEN_CONFIG='' @ shellSingleQuote remoteGenConfig
       @ '' bash '' @ shellSingleQuote remoteInstall)"

text \<open>\<open>gen\<close> and \<open>inst\<close> are the embedded scripts that are uploaded.\<close>

definition Install :: "'r exec \<Rightarrow> string \<Rightarrow> string \<Rightarrow> string \<Rightarrow> int \<Rightarrow> string \<Rightarrow> 'r \<Rightarrow> 'r \<times> setup_error option" where
  "Install exec gen inst publicHost udpPort linuxBin r =
     (case ValidateHost publicHost of
        Some e \<Rightarrow> (r, Some e)
      | None \<Rightarrow>
        case ValidateUDPPort udpPort of
          Some e \<Rightarrow> (r, Some e)
        | None \<Rightarrow>
          case detectExisting exec r of
            (r, Inl e) \<Rightarrow> (r, Some e)
          | (r, Inr ex) \<Rightarrow>
              if ex_Present ex then (r, Some (SExisting (existing_Summary ex)))
              else if int (length linuxBin) < 1024 then (r, Some SBinaryEmpty)
              else case uploads exec [(remoteBin, linuxBin), (remoteGenConfig, gen), (remoteInstall, inst)] r of
                     (r, Some e) \<Rightarrow> (r, Some e)
                   | (r, None) \<Rightarrow>
                       (case Client_Run exec 900 (install_cmd publicHost udpPort) r of (r, _, err) \<Rightarrow> (r, err)))"

section \<open>Issuing certificates\<close>

definition remoteIssue :: string where "remoteIssue = ''/tmp/masque-issue-client.sh''"
definition remoteGen :: string where "remoteGen = ''/opt/masque/gen-config.sh''"

record issue_status =
  is_NextIndex :: int
  is_AppIssued :: int
  is_PoolSlots :: int
  is_Ready :: bool
  is_Detail :: string

definition issue_Label :: "issue_status \<Rightarrow> string" where
  "issue_Label s =
     (if \<not> is_Ready s then is_Detail s
      else ''Test #1'' @ [CHR 0xE2, CHR 0x80, CHR 0x93] @ ''8 reserved (do not reissue). Next #'' @ itoa (is_NextIndex s)
           @ ''. App-issued '' @ itoa (is_AppIssued s) @ ''/'' @ itoa (is_PoolSlots s))"

definition ReadIssueStatus :: "'r exec \<Rightarrow> 'r \<Rightarrow> 'r \<times> (setup_error + issue_status)" where
  "ReadIssueStatus exec r =
     (let s = \<lparr>is_NextIndex = FirstAppIndex, is_AppIssued = 0, is_PoolSlots = PoolSlots, is_Ready = False, is_Detail = []\<rparr>
      in case Client_Run exec 20 ScriptStatus r of
           (r, _, Some e) \<Rightarrow> (r, Inl e)
         | (r, out, None) \<Rightarrow>
             let ls = split_on (CHR 0x0A) (trim_space out)
             in if ls = [] \<or> hd ls = ''NONE'' then
                  (r, Inr (s\<lparr>is_Detail := ''Issue status: install the server first''\<rparr>))
                else if hd ls = ''NOCA'' then
                  (r, Inr (s\<lparr>is_Detail := ''Issue status: CA key missing on VPS (/opt/masque/ca)''\<rparr>))
                else let nstr = trim_space (last ls)
                     in case atoi nstr of
                          None \<Rightarrow> (r, Inl (SNextIndex nstr))
                        | Some n \<Rightarrow>
                            let s = s\<lparr>is_Ready := True, is_NextIndex := n\<rparr>;
                                s = (if FirstAppIndex \<le> n then s\<lparr>is_AppIssued := n - FirstAppIndex\<rparr> else s)
                            in (r, Inr (s\<lparr>is_Detail := issue_Label s\<rparr>)))"

definition issued_line :: "string \<Rightarrow> int \<Rightarrow> int" where
  "issued_line line idx =
     (let line = trim_space line
      in if has_prefix line ''ISSUED '' then
           (case atoi (trim_space (trim_prefix line ''ISSUED '')) of Some n \<Rightarrow> n | None \<Rightarrow> idx)
         else idx)"

definition issued_index :: "string \<Rightarrow> int \<Rightarrow> int" where
  "issued_index out idx =
     (if str_contains out ''ISSUED '' then fold issued_line (split_on (CHR 0x0A) out) idx else idx)"

text \<open>The files of the machine the installer runs on; \<open>writable\<close> tells which can be written.\<close>

record 'r installer =
  su_remote :: 'r
  su_files :: "path \<rightharpoonup> string"

definition write_file :: "(path \<Rightarrow> bool) \<Rightarrow> path \<Rightarrow> string \<Rightarrow> (path \<rightharpoonup> string) \<Rightarrow> (path \<rightharpoonup> string) \<times> setup_error option" where
  "write_file writable p data fs =
     (if writable p then (fs(p \<mapsto> data), None) else (fs, Some SLocalFile))"

definition profile_cmd :: "int \<Rightarrow> remote_cmd" where
  "profile_cmd idx = CmdLine (''cat '' @ shellSingleQuote (''/opt/masque/clients/'' @ itoa idx @ ''/profile.masque''))"

definition issue_cmd :: remote_cmd where
  "issue_cmd = CmdLine (''bash '' @ shellSingleQuote remoteIssue)"

definition download_profile ::
  "'r exec \<Rightarrow> (string \<Rightarrow> bool) \<Rightarrow> (path \<Rightarrow> bool) \<Rightarrow> int \<Rightarrow> string \<Rightarrow> 'r installer \<Rightarrow> 'r installer \<times> setup_error option" where
  "download_profile exec mkdir writable idx destDir u =
     (case RunBytes exec 30 (profile_cmd idx) (su_remote u) of
        (r, _, Some e) \<Rightarrow> (u\<lparr>su_remote := r\<rparr>, Some (SDownload e))
      | (r, raw, None) \<Rightarrow>
          let u = u\<lparr>su_remote := r\<rparr>
          in if \<not> mkdir destDir then (u, Some SLocalFile)
             else case write_file writable [destDir, ''masque-client-'' @ itoa idx @ ''.profile.masque''] raw (su_files u) of
                    (fs, err) \<Rightarrow> (u\<lparr>su_files := fs\<rparr>, err))"

definition IssueNextBundle ::
  "'r exec \<Rightarrow> (string \<Rightarrow> bool) \<Rightarrow> (path \<Rightarrow> bool) \<Rightarrow> string \<Rightarrow> string \<Rightarrow> string \<Rightarrow> 'r installer \<Rightarrow>
   'r installer \<times> int \<times> setup_error option" where
  "IssueNextBundle exec mkdir writable gen issue destDir u =
     (case ReadIssueStatus exec (su_remote u) of
        (r, Inl e) \<Rightarrow> (u\<lparr>su_remote := r\<rparr>, 0, Some e)
      | (r, Inr st) \<Rightarrow>
          if \<not> is_Ready st then (u\<lparr>su_remote := r\<rparr>, 0, Some (SNotReady (is_Detail st)))
          else if LastAppIndex < is_NextIndex st then (u\<lparr>su_remote := r\<rparr>, 0, Some SSlotsFull)
          else case uploads exec [(remoteGen, gen), (remoteIssue, issue)] r of
                 (r, Some e) \<Rightarrow> (u\<lparr>su_remote := r\<rparr>, 0, Some e)
               | (r, None) \<Rightarrow>
                   case Client_Run exec 120 issue_cmd r of
                     (r, _, Some e) \<Rightarrow> (u\<lparr>su_remote := r\<rparr>, 0, Some e)
                   | (r, out, None) \<Rightarrow>
                       let idx = issued_index out (is_NextIndex st)
                       in case download_profile exec mkdir writable idx destDir (u\<lparr>su_remote := r\<rparr>) of
                            (u, err) \<Rightarrow> (u, idx, err))"

definition PullBootstrapProfile ::
  "'r exec \<Rightarrow> (string \<Rightarrow> bool) \<Rightarrow> (path \<Rightarrow> bool) \<Rightarrow> string \<Rightarrow> 'r installer \<Rightarrow> 'r installer \<times> setup_error option" where
  "PullBootstrapProfile exec mkdir writable destDir u =
     (case RunBytes exec 30 (CmdLine ''cat /opt/masque/generated/android/profile.masque'') (su_remote u) of
        (r, _, Some e) \<Rightarrow> (u\<lparr>su_remote := r\<rparr>, Some (SDownload e))
      | (r, raw, None) \<Rightarrow>
          let u = u\<lparr>su_remote := r\<rparr>
          in if \<not> mkdir destDir then (u, Some SLocalFile)
             else case write_file writable [destDir, ''profile.masque''] raw (su_files u) of
                    (fs, err) \<Rightarrow> (u\<lparr>su_files := fs\<rparr>, err))"

section \<open>Revoking certificates\<close>

definition remoteBlockedCNs :: string where "remoteBlockedCNs = ''/opt/masque/blocked_cns''"

definition RevokeClient :: "'r exec \<Rightarrow> int \<Rightarrow> 'r \<Rightarrow> 'r \<times> setup_error option" where
  "RevokeClient exec n r =
     (case ClientCN n of
        Inl e \<Rightarrow> (r, Some e)
      | Inr cn \<Rightarrow>
          case Client_Run exec 30 (ScriptRevoke (shellSingleQuote cn) (shellSingleQuote remoteBlockedCNs)) r of
            (r, out, Some e) \<Rightarrow>
              (r, Some (if str_contains out ''NOMASQUE'' \<or> err_contains e ''NOMASQUE'' then SNotInstalled else e))
          | (r, out, None) \<Rightarrow> (r, None))"

definition RestartMasque :: "'r exec \<Rightarrow> 'r \<Rightarrow> 'r \<times> setup_error option" where
  "RestartMasque exec r =
     (case Client_Run exec 45 ScriptRestart r of
        (r, out, Some e) \<Rightarrow>
          (r, Some (if str_contains out ''NOSVC'' \<or> err_contains e ''NOSVC'' then SNoService else SRestart (trim_space out)))
      | (r, out, None) \<Rightarrow>
          let st = lastNonEmptyLine (trim_space out)
          in if st \<noteq> ''active'' then (r, Some (SServiceState st)) else (r, None))"

end
