(* ===== verification/VpsHost.thy ===== *)
theory VpsHost
  imports VpsDeploy ServerConfig
begin

text \<open>
  The server the installer talks to: what the shell scripts embedded in the installer do to
  its files (\<open>deploy.go\<close>, \<open>issue.go\<close>, \<open>revoke.go\<close>, \<open>assets/issue-client.sh\<close>), and what the
  installer achieves on it. Certificates are produced by a parameter.
\<close>

section \<open>Shell words\<close>

text \<open>
  One word of a POSIX shell command and the rest of the line: the flag is set inside single
  quotes. A character that is special outside quotes makes the word undefined.
\<close>

fun sh_word :: "bool \<Rightarrow> string \<Rightarrow> (string \<times> string) option" where
  "sh_word q [] = (if q then None else Some ([], []))"
| "sh_word True (c # s) =
     (if c = CHR 0x27 then sh_word False s else map_option (apfst ((#) c)) (sh_word True s))"
| "sh_word False (c # s) =
     (if c = CHR 0x27 then sh_word True s
      else if c = CHR 0x5C then
        (case s of [] \<Rightarrow> None | d # t \<Rightarrow> map_option (apfst ((#) d)) (sh_word False t))
      else if c = CHR 0x20 then Some ([], c # s)
      else if is_alnum c \<or> c \<in> set ''._-/=:,+@%'' then map_option (apfst ((#) c)) (sh_word False s)
      else None)"

lemma sh_word_quoted:
  "sh_word True (replace_byte (CHR 0x27) [CHR 0x27, CHR 0x5C, CHR 0x27, CHR 0x27] s @ CHR 0x27 # t) =
     map_option (apfst ((@) s)) (sh_word False t)"
proof (induction s)
  case Nil
  show ?case
    by (cases "sh_word False t"; cases "the (sh_word False t)") (simp_all add: replace_byte_def)
next
  case (Cons c s)
  then show ?case by (cases "sh_word False t"; cases "c = CHR 0x27") (auto simp: replace_byte_def)
qed

lemma sh_word_quote: "sh_word False (shellSingleQuote s @ t) = map_option (apfst ((@) s)) (sh_word False t)"
  by (simp add: shellSingleQuote_def sh_word_quoted)

lemma sh_word_quote_end: "sh_word False (shellSingleQuote s) = Some (s, [])"
  using sh_word_quote[of s "[]"] by simp

lemma sh_word_quote_space: "sh_word False (shellSingleQuote s @ CHR 0x20 # t) = Some (s, CHR 0x20 # t)"
  by (simp add: sh_word_quote)

section \<open>The server and its scripts\<close>

record vps =
  v_root :: bool
  v_systemd :: bool
  v_tun :: bool
  v_apt :: bool
  v_ufw :: bool
  v_arch :: string
  v_ss :: string
  v_dir :: bool
  v_svc :: bool
  v_active :: bool
  v_fs :: "string \<rightharpoonup> string"

definition configFile :: string where "configFile = ''/opt/masque/config.server.toml''"
definition caKey :: string where "caKey = ''/opt/masque/ca/ca.key''"
definition nextIndex :: string where "nextIndex = ''/opt/masque/state/next_index''"

definition profile_path :: "string \<Rightarrow> string" where
  "profile_path i = ''/opt/masque/clients/'' @ i @ ''/profile.masque''"

definition has_bin :: "vps \<Rightarrow> bool" where
  "has_bin v \<longleftrightarrow> v_fs v ''/opt/masque/vpn-server'' \<noteq> None \<or> v_fs v ''/opt/masque/bin/poc-server'' \<noteq> None"

definition probe_flags :: "vps \<Rightarrow> string" where
  "probe_flags v =
     unlines [if v_fs v configFile \<noteq> None then ''HASCONFIG'' else ''NOCONFIG'',
              if has_bin v then ''HASBIN'' else ''NOBIN'',
              if v_svc v then ''HASSVC'' else ''NOSVC'',
              if v_active v then ''ACTIVE'' else ''INACTIVE'',
              if v_fs v caKey \<noteq> None then ''HASCA'' else ''NOCA'']"

definition probe_script :: "vps \<Rightarrow> string" where
  "probe_script v =
     unlines [''---MASQUE---''] @ probe_flags v @ unlines [''---TOML---'']
     @ (case v_fs v configFile of None \<Rightarrow> [] | Some toml \<Rightarrow> toml) @ unlines [''---ENDTOML---'']"

text \<open>The preflight adopts the CA of an earlier layout when there is none.\<close>

fun adopt_ca :: "string list \<Rightarrow> (string \<rightharpoonup> string) \<Rightarrow> (string \<rightharpoonup> string) \<times> string" where
  "adopt_ca [] fs = (fs, [])"
| "adopt_ca (src # srcs) fs =
     (if fs (src @ ''/ca.key'') \<noteq> None \<and> fs (src @ ''/ca.crt'') \<noteq> None
      then (fs(''/opt/masque/ca/ca.crt'' := fs (src @ ''/ca.crt''), caKey := fs (src @ ''/ca.key'')), unlines [''ADOPTED_CA''])
      else adopt_ca srcs fs)"

definition preflight_script :: "vps \<Rightarrow> vps \<times> string \<times> bool" where
  "preflight_script v =
     (if \<not> v_root v then (v, unlines [''ERR notroot: log in as root''], False)
      else if \<not> v_systemd v then (v, unlines [''ERR nosystemd''], False)
      else if \<not> v_tun v then (v, unlines [''ERR notun''], False)
      else if \<not> v_apt v then (v, unlines [''ERR noapt''], False)
      else case v_fs v ''/etc/os-release'' of
             None \<Rightarrow> (v, unlines [''---OS---''], False)
           | Some os \<Rightarrow>
               let (fs, adopted) =
                     (if v_fs v caKey = None
                      then adopt_ca [''/opt/masque/generated/ca'', ''/opt/masque/out2/ca'', ''/opt/masque/out/ca''] (v_fs v)
                      else (v_fs v, []))
               in (v\<lparr>v_fs := fs\<rparr>,
                   unlines [''---OS---''] @ os @ unlines [''---ARCH---'', v_arch v, ''---UFW---'',
                     if v_ufw v then ''HASUFW'' else ''NOUFW'', ''---SS---''] @ v_ss v
                   @ unlines [''---MASQUE---'',
                     if v_fs v configFile \<noteq> None then ''HASCONFIG'' else ''NOCONFIG'',
                     if has_bin v then ''HASBIN'' else ''NOBIN'',
                     if v_svc v then ''HASSVC'' else ''NOSVC'',
                     if v_active v then ''ACTIVE'' else ''INACTIVE''] @ adopted
                   @ unlines [if fs caKey \<noteq> None then ''HASCA'' else ''NOCA'', ''---TOML---'']
                   @ (case v_fs v configFile of None \<Rightarrow> [] | Some toml \<Rightarrow> toml) @ unlines [''---ENDTOML---''], True))"

text \<open>\<open>starts\<close> tells whether the service comes up on the given files.\<close>

definition restart_script :: "(vps \<Rightarrow> bool) \<Rightarrow> vps \<Rightarrow> vps \<times> string \<times> bool" where
  "restart_script starts v =
     (if \<not> v_svc v then (v, unlines [''NOSVC''], False)
      else if starts v then (v\<lparr>v_active := True\<rparr>, unlines [''active''], True)
      else (v\<lparr>v_active := False\<rparr>, [], False))"

definition status_script :: "vps \<Rightarrow> vps \<times> string" where
  "status_script v =
     (if \<not> v_dir v then (v, unlines [''NONE''])
      else if v_fs v caKey = None then (v, unlines [''NOCA''])
      else let v = (if v_fs v nextIndex = None then v\<lparr>v_fs := (v_fs v)(nextIndex \<mapsto> unlines [''9''])\<rparr> else v)
           in (v, unlines [''READY''] @ the (v_fs v nextIndex)))"

text \<open>
  \<open>issue-client.sh\<close>. Shell arithmetic has 64 bits; \<open>genconf\<close> is the certificate generator,
  which fails when it cannot read the host and port of the configuration.
\<close>

definition issue_script :: "(string \<Rightarrow> string \<Rightarrow> string option) \<Rightarrow> vps \<Rightarrow> vps \<times> string option" where
  "issue_script genconf v =
     (if v_fs v remoteGen = None \<or> v_fs v caKey = None then (v, None)
      else case v_fs v configFile of
             None \<Rightarrow> (v, None)
           | Some cfg \<Rightarrow>
               let v = (if v_fs v nextIndex = None then v\<lparr>v_fs := (v_fs v)(nextIndex \<mapsto> unlines [''9''])\<rparr> else v);
                   next_no = filter (\<lambda>c. c \<notin> set [CHR 0x20, CHR 0x09, CHR 0x0A, CHR 0x0B, CHR 0x0C, CHR 0x0D]) (the (v_fs v nextIndex));
                   n = sint (of_nat (dec_val 0 next_no) :: 64 word)
               in if next_no = [] \<or> hd next_no = CHR ''0'' \<or> \<not> list_all is_digit next_no then (v, None)
                  else if n < 9 \<or> 261 < n then (v, None)
                  else case genconf cfg next_no of
                         None \<Rightarrow> (v, None)
                       | Some prof \<Rightarrow>
                           (v\<lparr>v_fs := (v_fs v)(profile_path next_no \<mapsto> prof, nextIndex \<mapsto> unlines [itoa (n + 1)])\<rparr>,
                            Some (unlines [''ISSUED '' @ next_no])))"

text \<open>The lines \<open>grep\<close> compares: the text after the last newline counts when it is not empty.\<close>

definition file_lines :: "string \<Rightarrow> string list" where
  "file_lines s = (let ls = split_on (CHR 0x0A) s in if last ls = [] then butlast ls else ls)"

definition revoke_script :: "string \<Rightarrow> string \<Rightarrow> vps \<Rightarrow> vps \<times> string option" where
  "revoke_script cn file v =
     (if \<not> v_dir v then (v, None)
      else
        let old = (case v_fs v file of None \<Rightarrow> [] | Some s \<Rightarrow> s)
        in if cn \<in> set (file_lines old) then (v\<lparr>v_fs := (v_fs v)(file \<mapsto> old)\<rparr>, Some (unlines [''ALREADY'']))
           else (v\<lparr>v_fs := (v_fs v)(file \<mapsto> old @ unlines [cn])\<rparr>, Some (unlines [''REVOKED''])))"

text \<open>
  Commands are decoded from their text. \<open>issue\<close> is the text of the issuing script; other
  commands are \<open>other\<close>'s.
\<close>

definition exit1 :: "string \<Rightarrow> ssh_reply" where
  "exit1 stdout = RDone 0 stdout [] (Some ''Process exited with status 1'')"

definition vps_exec :: "(vps \<Rightarrow> bool) \<Rightarrow> (string \<Rightarrow> string \<Rightarrow> string option) \<Rightarrow> string \<Rightarrow> vps exec \<Rightarrow> vps exec" where
  "vps_exec starts genconf issue other cmd stdin v =
     (case cmd of
        ScriptPreflight \<Rightarrow>
          (case preflight_script v of (v, out, ok) \<Rightarrow> (v, if ok then RDone 0 out [] None else exit1 out))
      | ScriptRestart \<Rightarrow>
          (case restart_script starts v of (v, out, ok) \<Rightarrow> (v, if ok then RDone 0 out [] None else exit1 out))
      | ScriptProbe \<Rightarrow> (v, RDone 0 (probe_script v) [] None)
      | ScriptStatus \<Rightarrow> (case status_script v of (v, out) \<Rightarrow> (v, RDone 0 out [] None))
      | ScriptRevoke cn file \<Rightarrow>
          (case (sh_word False cn, sh_word False file) of
             (Some (cn, []), Some (file, [])) \<Rightarrow>
               (case revoke_script cn file v of
                  (v, Some out) \<Rightarrow> (v, RDone 0 out [] None)
                | (v, None) \<Rightarrow> (v, exit1 (unlines [''NOMASQUE''])))
           | _ \<Rightarrow> other cmd stdin v)
      | CmdLine s \<Rightarrow>
          if has_prefix s ''cat '' then
            (case sh_word False (drop 4 s) of
               Some (p, []) \<Rightarrow> (v, case v_fs v p of Some d \<Rightarrow> RDone 0 d [] None | None \<Rightarrow> exit1 [])
             | _ \<Rightarrow> other cmd stdin v)
          else if has_prefix s ''umask 077; cat > '' then
            (case sh_word False (drop 17 s) of
               Some (p, _) \<Rightarrow> (v\<lparr>v_fs := (v_fs v)(p \<mapsto> stdin)\<rparr>, RDone 0 [] [] None)
             | None \<Rightarrow> other cmd stdin v)
          else if has_prefix s ''bash '' then
            (case sh_word False (drop 5 s) of
               Some (p, []) \<Rightarrow>
                 if v_fs v p = Some issue then
                   (case issue_script genconf v of
                      (v, Some out) \<Rightarrow> (v, RDone 0 out [] None)
                    | (v, None) \<Rightarrow> (v, exit1 []))
                 else other cmd stdin v
             | _ \<Rightarrow> other cmd stdin v)
          else other cmd stdin v)"

section \<open>Detection\<close>

lemma str_cut_at:
  "sep \<noteq> [] \<Longrightarrow> hd sep \<notin> set x \<Longrightarrow> str_cut (x @ sep @ y) sep = (x, y, True)"
proof (induction x)
  case Nil
  then show ?case by (cases sep) (simp_all add: has_prefix_def)
next
  case (Cons c x)
  then have "\<not> has_prefix (c # x @ sep @ y) sep" by (cases sep) (auto simp: has_prefix_def)
  with Cons show ?case by simp
qed

lemma probe_flags_no_dash: "CHR ''-'' \<notin> set (probe_flags v)"
  by (simp add: probe_flags_def)

lemma unlines_append: "unlines (ls @ ks) = unlines ls @ unlines ks"
  by (simp add: unlines_def)

lemma probe_flags_active: "str_contains (probe_flags v) ''ACTIVE''"
proof -
  define l where "l = (if v_active v then ''ACTIVE'' else ''INACTIVE'')"
  obtain xs ys where "probe_flags v = unlines (xs @ l # ys)"
    unfolding probe_flags_def l_def by (metis append_Cons append_Nil)
  then obtain a b where ab: "probe_flags v = a @ l @ b" by (simp add: unlines_append)
  have "l = (if v_active v then [] else ''IN'') @ ''ACTIVE''" by (simp add: l_def)
  with ab have "probe_flags v = (a @ (if v_active v then [] else ''IN'')) @ ''ACTIVE'' @ b" by simp
  then show ?thesis unfolding str_contains_iff by blast
qed

text \<open>The output of the script without its last newline.\<close>

lemma probe_script_trim:
  "\<exists>rest. trim_space (probe_script v) = ''---MASQUE---'' @ (CHR 0x0A # probe_flags v) @ ''---TOML---'' @ rest"
proof -
  define toml where "toml = (case v_fs v configFile of None \<Rightarrow> [] | Some toml \<Rightarrow> toml)"
  define s where "s = ''---MASQUE---'' @ (CHR 0x0A # probe_flags v) @ ''---TOML---'' @ CHR 0x0A # toml @ ''---ENDTOML---''"
  have "probe_script v = s @ [CHR 0x0A]" by (simp add: probe_script_def s_def toml_def)
  moreover have "trim_space (s @ [CHR 0x0A]) = s"
    by (rule trim_space_line) (simp_all add: s_def graphic_def)
  ultimately have "trim_space (probe_script v) = ''---MASQUE---'' @ (CHR 0x0A # probe_flags v) @ ''---TOML---'' @ (CHR 0x0A # toml @ ''---ENDTOML---'')"
    by (simp add: s_def)
  then show ?thesis by blast
qed

lemma detect_present:
  "\<exists>ex. detectExisting (vps_exec starts genconf issue other) v = (v, Inr ex) \<and> ex_Present ex"
proof -
  obtain rest where out: "trim_space (probe_script v) = ''---MASQUE---'' @ (CHR 0x0A # probe_flags v) @ ''---TOML---'' @ rest"
    using probe_script_trim by blast
  let ?block = "(CHR 0x0A # probe_flags v) @ ''---TOML---'' @ rest"
  have c: "str_cut (trim_space (probe_script v)) ''---MASQUE---'' = ([], ?block, True)"
    using str_cut_at[of "''---MASQUE---''" "[]" ?block] out by simp
  have "str_cut ?block ''---TOML---'' = (CHR 0x0A # probe_flags v, rest, True)"
    by (rule str_cut_at) (simp_all add: probe_flags_no_dash)
  moreover have "str_contains (CHR 0x0A # probe_flags v) ''ACTIVE''"
    using probe_flags_active[of v] by simp
  ultimately have "ex_Present (parseMasqueProbe ?block)"
    by (simp add: parseMasqueProbe_def split: prod.splits)
  with c show ?thesis
    by (simp add: detectExisting_def Client_Run_def RunBytes_def vps_exec_def)
qed

text \<open>
  C32. The installer installs nothing: its probe takes the INACTIVE that the script prints for a
  host without the service for ACTIVE, so every host, a fresh one included, counts as a running
  installation and \<open>Install\<close> is refused before anything is uploaded.
\<close>

theorem Install_never_installs:
  "\<exists>e. Install (vps_exec starts genconf issue other) gen inst publicHost udpPort linuxBin v = (v, Some e)"
  using detect_present[of starts genconf issue other v] unfolding Install_def by (auto split: option.splits)

end
