(* ===== verification/VpsIssue.thy ===== *)
theory VpsIssue
  imports VpsHost
begin

text \<open>
  Issuing and revoking on the server of \<open>VpsHost\<close>: the numbers that are given out, the
  profiles that reach the local machine, and the denylist the VPN server reads.
\<close>

section \<open>The commands on the server\<close>

lemma exec_upload:
  "vps_exec starts genconf issue other (upload_cmd p mode) data v =
     (v\<lparr>v_fs := (v_fs v)(p \<mapsto> data)\<rparr>, RDone 0 [] [] None)"
  by (simp add: vps_exec_def upload_cmd_def has_prefix_def sh_word_quote_space)

lemma Upload_vps:
  "Upload (vps_exec starts genconf issue other) p data mode v = (v\<lparr>v_fs := (v_fs v)(p \<mapsto> data)\<rparr>, None)"
  by (simp add: Upload_def exec_upload)

lemma uploads_vps:
  "uploads (vps_exec starts genconf issue other) [(p, a), (q, b)] v =
     (v\<lparr>v_fs := (v_fs v)(p \<mapsto> a, q \<mapsto> b)\<rparr>, None)"
  by (simp add: Upload_vps)

lemma exec_cat:
  "RunBytes (vps_exec starts genconf issue other) t (profile_cmd (int n)) v =
     (case v_fs v (profile_path (nat_str n)) of
        Some d \<Rightarrow> if t < 0 then (v, [], Some STimedOut) else (v, d, None)
      | None \<Rightarrow> RunBytes (\<lambda>_ _ v. (v, exit1 [])) t (profile_cmd (int n)) v)"
  by (simp add: RunBytes_def vps_exec_def profile_cmd_def profile_path_def has_prefix_def
      sh_word_quote_end itoa_def split: option.splits)

lemma exec_issue:
  assumes "v_fs v remoteIssue = Some issue" "issue_script genconf v = (v', Some out)" "0 \<le> t"
  shows "Client_Run (vps_exec starts genconf issue other) t issue_cmd v = (v', trim_space out, None)"
  using assms
  by (simp add: Client_Run_def RunBytes_def vps_exec_def issue_cmd_def has_prefix_def sh_word_quote_end)

section \<open>The issuing script\<close>

definition issuable :: "(string \<Rightarrow> string \<Rightarrow> string option) \<Rightarrow> vps \<Rightarrow> nat \<Rightarrow> bool" where
  "issuable genconf v n \<longleftrightarrow>
     v_dir v \<and> v_fs v caKey \<noteq> None \<and> v_fs v configFile \<noteq> None \<and>
     (\<forall>i. genconf (the (v_fs v configFile)) (nat_str i) \<noteq> None) \<and>
     (v_fs v nextIndex = Some (unlines [nat_str n]) \<or> v_fs v nextIndex = None \<and> n = 9)"

definition new_profile :: "(string \<Rightarrow> string \<Rightarrow> string option) \<Rightarrow> vps \<Rightarrow> nat \<Rightarrow> string" where
  "new_profile genconf v n = the (genconf (the (v_fs v configFile)) (nat_str n))"

lemma nat_str_9: "nat_str 9 = ''9''"
  by code_simp

lemma graphic_nat_str_ends: "graphic (hd (nat_str n))" "graphic (last (nat_str n))"
  using graphic_nat_str[of n] by (simp_all add: list_all_iff)

lemma trim_nat_str: "trim_space (nat_str n) = nat_str n" "trim_space (nat_str n @ [CHR 0x0A]) = nat_str n"
  by (simp_all add: trim_space_graphic trim_space_line graphic_nat_str_ends)

lemma newline_not_digits: "CHR 0x0A \<notin> set (nat_str n)"
  using graphic_nat_str[of n] by (auto simp: list_all_iff graphic_def)

lemma hd_nat_str_nonzero: "0 < n \<Longrightarrow> hd (nat_str n) \<noteq> CHR ''0''"
proof (induction n rule: nat_str.induct)
  case (1 n)
  show ?case
  proof (cases "n < 10")
    case True
    have "digit_val (CHR ''0'') = 0" by (simp add: digit_val_def)
    then have "char_of (48 + n) \<noteq> CHR ''0''" using True 1(2) digit_char[of n] by auto
    then show ?thesis using True by (subst nat_str.simps) simp
  next
    case False
    then have "hd (nat_str (n div 10)) \<noteq> CHR ''0''" using 1 by simp
    then show ?thesis using False by (subst nat_str.simps) (simp add: hd_append)
  qed
qed

lemma strip_nat_str:
  "filter (\<lambda>c. c \<notin> set [CHR 0x20, CHR 0x09, CHR 0x0A, CHR 0x0B, CHR 0x0C, CHR 0x0D]) (nat_str n @ [CHR 0x0A]) = nat_str n"
  using graphic_nat_str[of n] by (auto simp: list_all_iff graphic_def filter_id_conv)

lemma status_vps:
  assumes "issuable genconf v n" "9 \<le> n" "n < 1000"
  shows "\<exists>st. ReadIssueStatus (vps_exec starts genconf issue other) v =
              (v\<lparr>v_fs := (v_fs v)(nextIndex \<mapsto> unlines [nat_str n])\<rparr>, Inr st)
            \<and> is_Ready st \<and> is_NextIndex st = int n"
proof -
  let ?v = "v\<lparr>v_fs := (v_fs v)(nextIndex \<mapsto> unlines [nat_str n])\<rparr>"
  have s: "status_script v = (?v, ''READY'' @ CHR 0x0A # nat_str n @ [CHR 0x0A])"
    using assms(1) by (auto simp: status_script_def issuable_def nat_str_9 fun_upd_idem)
  have t: "trim_space (''READY'' @ CHR 0x0A # nat_str n @ [CHR 0x0A]) = ''READY'' @ CHR 0x0A # nat_str n"
    using trim_space_line[of "''READY'' @ CHR 0x0A # nat_str n"] graphic_nat_str_ends[of n]
    by (simp add: graphic_def)
  have t2: "trim_space (''READY'' @ CHR 0x0A # nat_str n) = ''READY'' @ CHR 0x0A # nat_str n"
    using graphic_nat_str_ends[of n] by (intro trim_space_graphic) (simp_all add: graphic_def)
  have sp: "split_on (CHR 0x0A) (''READY'' @ CHR 0x0A # nat_str n) = [''READY'', nat_str n]"
    by (simp add: split_on_single newline_not_digits)
  have a: "atoi (nat_str n) = Some (int n)" using assms(3) by (intro atoi_nat_str) simp
  have "Client_Run (vps_exec starts genconf issue other) 20 ScriptStatus v = (?v, ''READY'' @ CHR 0x0A # nat_str n, None)"
    by (simp add: Client_Run_def RunBytes_def vps_exec_def s t del: append_Cons)
  then show ?thesis
    using sp t2 a by (simp add: ReadIssueStatus_def trim_nat_str Let_def del: append_Cons split_on.simps)
qed

lemma issue_vps:
  assumes "issuable genconf v n" "9 \<le> n" "n \<le> 261" "v_fs v nextIndex = Some (unlines [nat_str n])"
    "v_fs v remoteGen \<noteq> None"
  shows "issue_script genconf v =
     (v\<lparr>v_fs := (v_fs v)(profile_path (nat_str n) \<mapsto> new_profile genconf v n, nextIndex \<mapsto> unlines [nat_str (n + 1)])\<rparr>,
      Some (unlines [''ISSUED '' @ nat_str n]))"
proof -
  obtain cfg where cfg: "v_fs v configFile = Some cfg" using assms(1) by (auto simp: issuable_def)
  obtain p where p: "genconf cfg (nat_str n) = Some p" using assms(1) cfg by (auto simp: issuable_def)
  have num: "sint (of_nat (dec_val 0 (nat_str n)) :: 64 word) = int n"
    using assms(3) by (simp add: dec_val_nat_str signed_of_nat signed_take_bit_int_eq_self)
  have d: "list_all is_digit (nat_str n)" "hd (nat_str n) \<noteq> CHR ''0''"
    using nat_str_digits hd_nat_str_nonzero[of n] assms(2) by auto
  show ?thesis
    using assms cfg p d num strip_nat_str[of n]
    by (simp add: issue_script_def issuable_def new_profile_def Let_def itoa_def nat_add_distrib del: filter.simps filter_append)
qed

lemma issued_index_line: "int n < 2 ^ 63 \<Longrightarrow> issued_index (''ISSUED '' @ nat_str n) idx = int n"
proof -
  assume n: "int n < 2 ^ 63"
  have c: "CHR 0x0A \<notin> set (''ISSUED '' @ nat_str n)" using newline_not_digits by simp
  have t: "trim_space (''ISSUED '' @ nat_str n) = ''ISSUED '' @ nat_str n"
    using graphic_nat_str_ends[of n] by (intro trim_space_graphic) (simp_all add: graphic_def)
  have p: "has_prefix (''ISSUED '' @ nat_str n) ''ISSUED ''" by (simp add: has_prefix_def)
  then have s: "str_contains (''ISSUED '' @ nat_str n) ''ISSUED ''" unfolding str_contains_iff by (metis append_Nil)
  have "trim_prefix (''ISSUED '' @ nat_str n) ''ISSUED '' = nat_str n"
    by (simp add: trim_prefix_def has_prefix_def)
  then have "issued_line (''ISSUED '' @ nat_str n) idx = int n"
    unfolding issued_line_def t Let_def using p atoi_nat_str[OF n] by (simp add: trim_nat_str)
  then show ?thesis unfolding issued_index_def split_on_single[OF c] using s by simp
qed

lemma path_distinct:
  "remoteGen \<noteq> nextIndex" "remoteIssue \<noteq> nextIndex" "remoteGen \<noteq> remoteIssue" "remoteGen \<noteq> caKey"
  "remoteIssue \<noteq> caKey" "remoteGen \<noteq> configFile" "remoteIssue \<noteq> configFile" "nextIndex \<noteq> caKey"
  "nextIndex \<noteq> configFile" "profile_path i \<noteq> nextIndex" "profile_path i \<noteq> caKey" "profile_path i \<noteq> configFile"
  by (simp_all add: remoteGen_def remoteIssue_def nextIndex_def caKey_def configFile_def profile_path_def)

lemma issuable_cong:
  "issuable genconf v n \<Longrightarrow> v_dir w = v_dir v \<Longrightarrow> v_fs w caKey = v_fs v caKey \<Longrightarrow>
   v_fs w configFile = v_fs v configFile \<Longrightarrow> v_fs w nextIndex = Some (unlines [nat_str m]) \<Longrightarrow>
   issuable genconf w m \<and> (\<forall>i. new_profile genconf w i = new_profile genconf v i)"
  by (simp add: issuable_def new_profile_def)

definition bundle_path :: "string \<Rightarrow> nat \<Rightarrow> path" where
  "bundle_path dest n = [dest, ''masque-client-'' @ nat_str n @ ''.profile.masque'']"

lemma IssueNextBundle_vps:
  assumes i: "issuable genconf (su_remote u) n" and n: "9 \<le> n" "n \<le> 261"
    and ok: "mkdir dest" "\<forall>m. writable (bundle_path dest m)"
  shows "\<exists>u'. IssueNextBundle (vps_exec starts genconf issue other) mkdir writable gen issue dest u = (u', int n, None)
     \<and> issuable genconf (su_remote u') (n + 1)
     \<and> (\<forall>i. new_profile genconf (su_remote u') i = new_profile genconf (su_remote u) i)
     \<and> su_files u' = (su_files u)(bundle_path dest n \<mapsto> new_profile genconf (su_remote u) n)"
proof -
  let ?v = "su_remote u"
  define v1 where "v1 = ?v\<lparr>v_fs := (v_fs ?v)(nextIndex \<mapsto> unlines [nat_str n])\<rparr>"
  define v2 where "v2 = v1\<lparr>v_fs := (v_fs v1)(remoteGen \<mapsto> gen, remoteIssue \<mapsto> issue)\<rparr>"
  define v3 where "v3 = v2\<lparr>v_fs := (v_fs v2)(profile_path (nat_str n) \<mapsto> new_profile genconf v2 n, nextIndex \<mapsto> unlines [nat_str (n + 1)])\<rparr>"
  obtain st where st: "ReadIssueStatus (vps_exec starts genconf issue other) ?v = (v1, Inr st)" "is_Ready st" "is_NextIndex st = int n"
    using status_vps[OF i n(1), of starts issue other] n(2) unfolding v1_def by fastforce
  have up: "uploads (vps_exec starts genconf issue other) [(remoteGen, gen), (remoteIssue, issue)] v1 = (v2, None)"
    unfolding uploads_vps v2_def ..
  have i2: "issuable genconf v2 n \<and> (\<forall>i. new_profile genconf v2 i = new_profile genconf ?v i)"
    by (rule issuable_cong[OF i]) (simp_all add: v2_def v1_def path_distinct path_distinct[symmetric])
  have "issue_script genconf v2 = (v3, Some (unlines [''ISSUED '' @ nat_str n]))"
    unfolding v3_def using i2 n
    by (intro issue_vps) (simp_all add: v2_def v1_def path_distinct path_distinct[symmetric])
  moreover have "trim_space (unlines [''ISSUED '' @ nat_str n]) = ''ISSUED '' @ nat_str n"
    using trim_space_line[of "''ISSUED '' @ nat_str n"] graphic_nat_str_ends[of n] by (simp add: graphic_def)
  ultimately have iss: "Client_Run (vps_exec starts genconf issue other) 120 issue_cmd v2 = (v3, ''ISSUED '' @ nat_str n, None)"
    using exec_issue[where v = v2 and issue = issue and genconf = genconf and v' = v3 and t = 120 and other = other and starts = starts] by (simp add: v2_def)
  have idx: "issued_index (''ISSUED '' @ nat_str n) (int n) = int n" using n by (intro issued_index_line) simp
  have p3: "v_fs v3 (profile_path (nat_str n)) = Some (new_profile genconf ?v n)"
    using i2 by (simp add: v3_def path_distinct)
  then have dl: "RunBytes (vps_exec starts genconf issue other) 30 (profile_cmd (int n)) v3 = (v3, new_profile genconf ?v n, None)"
    by (simp add: exec_cat)
  define u' where "u' = u\<lparr>su_remote := v3, su_files := (su_files u)(bundle_path dest n \<mapsto> new_profile genconf ?v n)\<rparr>"
  have "IssueNextBundle (vps_exec starts genconf issue other) mkdir writable gen issue dest u = (u', int n, None)"
    using st up iss idx dl ok n
    by (simp add: IssueNextBundle_def download_profile_def write_file_def bundle_path_def LastAppIndex_def u'_def itoa_def
        del: uploads.simps append_Cons)
  moreover have "issuable genconf v3 (n + 1) \<and> (\<forall>i. new_profile genconf v3 i = new_profile genconf v2 i)"
    by (rule issuable_cong[OF conjunct1[OF i2]]) (simp_all add: v3_def path_distinct path_distinct[symmetric])
  ultimately show ?thesis using i2 by (intro exI[of _ u']) (simp add: u'_def)
qed

lemma IssueNextBundle_full:
  assumes i: "issuable genconf (su_remote u) 262"
  shows "\<exists>u'. IssueNextBundle (vps_exec starts genconf issue other) mkdir writable gen issue dest u = (u', 0, Some SSlotsFull)
     \<and> issuable genconf (su_remote u') 262 \<and> su_files u' = su_files u"
proof -
  let ?v = "su_remote u"
  define v1 where "v1 = ?v\<lparr>v_fs := (v_fs ?v)(nextIndex \<mapsto> unlines [nat_str 262])\<rparr>"
  obtain st where st: "ReadIssueStatus (vps_exec starts genconf issue other) ?v = (v1, Inr st)" "is_Ready st" "is_NextIndex st = 262"
    using status_vps[OF i, of starts issue other] unfolding v1_def by fastforce
  have "issuable genconf v1 262 \<and> (\<forall>i. new_profile genconf v1 i = new_profile genconf ?v i)"
    by (rule issuable_cong[OF i]) (simp_all add: v1_def path_distinct path_distinct[symmetric])
  with st show ?thesis
    by (intro exI[of _ "u\<lparr>su_remote := v1\<rparr>"]) (simp add: IssueNextBundle_def LastAppIndex_def)
qed

section \<open>Issuing many certificates\<close>

text \<open>The outcomes of \<open>k\<close> issue operations one after the other.\<close>

fun issue_many ::
  "('r installer \<Rightarrow> 'r installer \<times> int \<times> setup_error option) \<Rightarrow> nat \<Rightarrow> 'r installer \<Rightarrow>
   'r installer \<times> (int \<times> setup_error option) list" where
  "issue_many issue_op 0 u = (u, [])"
| "issue_many issue_op (Suc k) u =
     (case issue_op u of (u, r) \<Rightarrow> case issue_many issue_op k u of (u, rs) \<Rightarrow> (u, r # rs))"

definition outcome :: "nat \<Rightarrow> int \<times> setup_error option" where
  "outcome i = (if i \<le> 261 then (int i, None) else (0, Some SSlotsFull))"

lemma issue_many_outcomes:
  assumes "issuable genconf (su_remote u) (min n 262)" "9 \<le> n" "mkdir dest" "\<forall>m. writable (bundle_path dest m)"
  shows "\<exists>u'. issue_many (IssueNextBundle (vps_exec starts genconf issue other) mkdir writable gen issue dest) k u
       = (u', map outcome [n..<n + k])
     \<and> (\<forall>i. n \<le> i \<and> i < n + k \<and> i \<le> 261 \<longrightarrow>
           su_files u' (bundle_path dest i) = Some (new_profile genconf (su_remote u) i))
     \<and> (\<forall>p. (\<forall>i. n \<le> i \<and> i \<le> 261 \<longrightarrow> p \<noteq> bundle_path dest i) \<longrightarrow> su_files u' p = su_files u p)"
  using assms(1,2)
proof (induction k arbitrary: u n)
  case 0
  show ?case by auto
next
  case (Suc k)
  let ?op = "IssueNextBundle (vps_exec starts genconf issue other) mkdir writable gen issue dest"
  have up: "[n..<n + Suc k] = n # [Suc n..<Suc n + k]" by (simp add: upt_rec)
  show ?case
  proof (cases "n \<le> 261")
    case True
    then have "min n 262 = n" by simp
    with Suc.prems obtain u1 where u1: "?op u = (u1, int n, None)" "issuable genconf (su_remote u1) (n + 1)"
      "\<forall>i. new_profile genconf (su_remote u1) i = new_profile genconf (su_remote u) i"
      "su_files u1 = (su_files u)(bundle_path dest n \<mapsto> new_profile genconf (su_remote u) n)"
      using IssueNextBundle_vps[where u = u and mkdir = mkdir and writable = writable and dest = dest and n = n
          and genconf = genconf and starts = starts and issue = issue and other = other and gen = gen] True assms(3,4) by auto
    have "issuable genconf (su_remote u1) (min (Suc n) 262)" using u1(2) True by simp
    from Suc.IH[OF this] Suc.prems(2) obtain u' where
      u': "issue_many ?op k u1 = (u', map outcome [Suc n..<Suc n + k])"
        "\<And>i. Suc n \<le> i \<Longrightarrow> i < Suc n + k \<Longrightarrow> i \<le> 261 \<Longrightarrow>
           su_files u' (bundle_path dest i) = Some (new_profile genconf (su_remote u1) i)"
        "\<And>p. (\<forall>i. Suc n \<le> i \<and> i \<le> 261 \<longrightarrow> p \<noteq> bundle_path dest i) \<Longrightarrow> su_files u' p = su_files u1 p"
      by auto
    have inj: "bundle_path dest i \<noteq> bundle_path dest n" if "Suc n \<le> i" for i
      using that dec_val_nat_str[of i] dec_val_nat_str[of n] by (auto simp: bundle_path_def)
    have "su_files u' (bundle_path dest i) = Some (new_profile genconf (su_remote u) i)"
      if "n \<le> i" "i < n + Suc k" "i \<le> 261" for i
    proof (cases "i = n")
      case True
      have "su_files u' (bundle_path dest n) = su_files u1 (bundle_path dest n)"
        using inj by (intro u'(3)) metis
      then show ?thesis using u1(4) True by simp
    next
      case False
      then show ?thesis using u'(2)[of i] u1(3) that by simp
    qed
    moreover have "su_files u' p = su_files u p" if "\<forall>i. n \<le> i \<and> i \<le> 261 \<longrightarrow> p \<noteq> bundle_path dest i" for p
    proof -
      have "p \<noteq> bundle_path dest n" using that True by simp
      moreover have "su_files u' p = su_files u1 p" using that by (intro u'(3)) auto
      ultimately show ?thesis using u1(4) by simp
    qed
    ultimately show ?thesis using u1(1) u'(1) True unfolding up by (auto simp: outcome_def)
  next
    case False
    then have m: "min n 262 = 262" "min (Suc n) 262 = 262" by simp_all
    with Suc.prems obtain u1 where u1: "?op u = (u1, 0, Some SSlotsFull)" "issuable genconf (su_remote u1) 262"
      "su_files u1 = su_files u"
      using IssueNextBundle_full[of genconf u starts issue other mkdir writable gen dest] by auto
    with m(2) have i1: "issuable genconf (su_remote u1) (min (Suc n) 262)" by simp
    from Suc.IH[OF i1] Suc.prems(2) obtain u' where
      u': "issue_many ?op k u1 = (u', map outcome [Suc n..<Suc n + k])"
        "\<And>p. (\<forall>i. Suc n \<le> i \<and> i \<le> 261 \<longrightarrow> p \<noteq> bundle_path dest i) \<Longrightarrow> su_files u' p = su_files u1 p"
      by auto
    have "su_files u' p = su_files u p" for p
    proof -
      have "\<forall>i. Suc n \<le> i \<and> i \<le> 261 \<longrightarrow> p \<noteq> bundle_path dest i" using False by auto
      from u'(2)[OF this] u1(3) show ?thesis by simp
    qed
    then show ?thesis using u1(1) u'(1) False unfolding up by (auto simp: outcome_def)
  qed
qed

text \<open>
  C33. Certificate numbers are issued once each, in order: from a server whose next number is
  \<open>n\<close>, at least 9, \<open>k\<close> issue operations give exactly the numbers from \<open>n\<close> up to 261, each
  with its own profile on the local disk, and every further one is refused as full without
  touching a local file. A server without a counter starts at 9, so 1 to 8 are never issued.
\<close>

theorem certificates_issued_once:
  assumes "issuable genconf (su_remote u) n" "9 \<le> n" "n \<le> 262"
    and "mkdir dest" "\<And>m. writable (bundle_path dest m)"
  shows "\<exists>u'. issue_many (IssueNextBundle (vps_exec starts genconf issue other) mkdir writable gen issue dest) k u
       = (u', map (\<lambda>i. if i \<le> 261 then (int i, None) else (0, Some SSlotsFull)) [n..<n + k])
     \<and> (\<forall>i \<in> {n..<n + k}. i \<le> 261 \<longrightarrow>
           su_files u' (bundle_path dest i) = Some (new_profile genconf (su_remote u) i))
     \<and> (\<forall>p. (\<forall>i \<in> {n..261}. p \<noteq> bundle_path dest i) \<longrightarrow> su_files u' p = su_files u p)"
proof -
  have "issuable genconf (su_remote u) (min n 262)" using assms(1,3) by (simp add: min_absorb1)
  moreover have "(\<lambda>i. if i \<le> 261 then (int i, None) else (0, Some SSlotsFull)) = outcome"
    by (intro ext) (simp add: outcome_def)
  ultimately show ?thesis
    using issue_many_outcomes[where u = u and n = n and k = k and genconf = genconf and starts = starts and issue = issue and other = other
        and mkdir = mkdir and writable = writable and gen = gen and dest = dest] assms(2,4,5) by (simp add: Ball_def imp_conjL)
qed

definition demo_vps :: vps where
  "demo_vps = \<lparr>v_root = True, v_systemd = True, v_tun = True, v_apt = True, v_ufw = False, v_arch = ''x86_64'', v_ss = [],
     v_dir = True, v_svc = True, v_active = True,
     v_fs = Map.empty(caKey \<mapsto> ''key'', configFile \<mapsto> ''bind'', nextIndex \<mapsto> unlines [nat_str 261])\<rparr>"

definition demo_installer :: "vps installer" where
  "demo_installer = \<lparr>su_remote = demo_vps, su_files = Map.empty\<rparr>"

theorem certificates_issued_once_witness:
  "snd (issue_many (IssueNextBundle (vps_exec (\<lambda>_. True) (\<lambda>_ i. Some i) ''s'' (\<lambda>_ _ v. (v, RNoSession []))) (\<lambda>_. True) (\<lambda>_. True) ''g'' ''s'' ''out'') 3 demo_installer)
     = [(261, None), (0, Some SSlotsFull), (0, Some SSlotsFull)]"
proof -
  have i: "issuable (\<lambda>_ i. Some i) (su_remote demo_installer) 261"
    using path_distinct by (simp add: issuable_def demo_installer_def demo_vps_def caKey_def configFile_def nextIndex_def)
  have l: "[261..<261 + 3] = [261, 262, 263 :: nat]" by (simp add: upt_rec)
  show ?thesis
    using certificates_issued_once[OF i, of "\<lambda>_. True" "''out''" "\<lambda>_. True" "\<lambda>_. True" "''s''" "\<lambda>_ _ v. (v, RNoSession [])" "''g''" 3]
    unfolding l by fastforce
qed

end
