(* ===== verification/VpsRevoke.thy ===== *)
theory VpsRevoke
  imports VpsIssue Server
begin

text \<open>
  Revoking a certificate, from the installer through the denylist file to the VPN server's
  refusal, and the ports the installer recommends.
\<close>

section \<open>Revocation\<close>

definition file_text :: "string option \<Rightarrow> string" where
  "file_text f = (case f of None \<Rightarrow> [] | Some s \<Rightarrow> s)"

definition ends_line :: "string \<Rightarrow> bool" where
  "ends_line s \<longleftrightarrow> s = [] \<or> last s = CHR 0x0A"

lemma file_lines_split: "cn \<in> set (file_lines s) \<Longrightarrow> cn \<in> set (split_on (CHR 0x0A) s)"
  by (auto simp: file_lines_def Let_def split: if_splits dest: in_set_butlastD)

lemma RevokeClient_vps:
  assumes "RevokeClient (vps_exec starts genconf issue other) n v = (v', None)"
  shows "1 \<le> n \<and> n \<le> 261 \<and> v_fs v' = (v_fs v)(remoteBlockedCNs \<mapsto>
     (let old = file_text (v_fs v remoteBlockedCNs); cn = ''masque-client-'' @ itoa n
      in if cn \<in> set (file_lines old) then old else old @ cn @ [CHR 0x0A]))"
proof -
  obtain cn where cn: "ClientCN n = Inr cn" using assms by (auto simp: RevokeClient_def split: sum.splits)
  then have n: "1 \<le> n" "n \<le> 261" "cn = ''masque-client-'' @ itoa n"
    by (auto simp: ClientCN_def LastAppIndex_def split: if_splits)
  obtain w out where w: "revoke_script cn remoteBlockedCNs v = (w, out)" by (cases "revoke_script cn remoteBlockedCNs v")
  have "out \<noteq> None \<and> v' = w"
    using assms cn w
    by (cases out) (auto simp: RevokeClient_def Client_Run_def RunBytes_def vps_exec_def sh_word_quote_end exit1_def Let_def)
  with w n show ?thesis
    by (auto simp: revoke_script_def file_text_def Let_def split: if_splits)
qed

lemma client_name_facts:
  assumes "1 \<le> n"
  defines "cn \<equiv> ''masque-client-'' @ itoa n"
  shows "trim_space cn = cn" "CHR 0x0A \<notin> set cn" "cn \<noteq> []" "\<not> has_prefix cn ''#''"
proof -
  have i: "itoa n = nat_str (nat n)" using assms(1) by (simp add: itoa_def)
  show "CHR 0x0A \<notin> set cn" using newline_not_digits by (simp add: cn_def i)
  show "trim_space cn = cn"
    using graphic_nat_str_ends[of "nat n"] by (intro trim_space_graphic) (simp_all add: cn_def i graphic_def)
qed (simp_all add: cn_def has_prefix_def)

lemma image_up_to:
  assumes "A \<union> {z} = insert c B \<union> {z}" "f z = z" "x \<noteq> z"
  shows "x \<in> f ` A \<longleftrightarrow> x = f c \<or> x \<in> f ` B"
proof -
  have "f ` (A \<union> {z}) = f ` (insert c B \<union> {z})" using assms(1) by simp
  then have "f ` A \<union> {z} = insert (f c) (f ` B) \<union> {z}" using assms(2) by simp
  with assms(3) show ?thesis by blast
qed

lemma split_on_append_line:
  assumes "ends_line old" "CHR 0x0A \<notin> set cn"
  shows "set (split_on (CHR 0x0A) (old @ cn @ [CHR 0x0A])) \<union> {[]} = insert cn (set (split_on (CHR 0x0A) old)) \<union> {[]}"
proof -
  have s: "split_on (CHR 0x0A) (cn @ [CHR 0x0A]) = [cn, []]" using split_on_append[OF assms(2)] by simp
  show ?thesis
  proof (cases old rule: rev_cases)
    case Nil
    then show ?thesis using s by auto
  next
    case (snoc b x)
    with assms(1) have x: "x = CHR 0x0A" by (simp add: ends_line_def)
    have "split_on (CHR 0x0A) (b @ CHR 0x0A # cn @ [CHR 0x0A]) = split_on (CHR 0x0A) b @ [cn, []]"
      "split_on (CHR 0x0A) (b @ CHR 0x0A # []) = split_on (CHR 0x0A) b @ [[]]"
      unfolding split_on_join s by (simp_all add: split_on_single[OF assms(2)])
    then show ?thesis unfolding snoc x by auto
  qed
qed

lemma loadBlockedSet_append:
  assumes "ends_line old" "trim_space cn = cn" "CHR 0x0A \<notin> set cn" "cn \<noteq> []" "\<not> has_prefix cn ''#''" "file \<noteq> []"
  shows "loadBlockedSet (fs(file \<mapsto> old @ cn @ [CHR 0x0A])) names file =
         insert cn (loadBlockedSet (fs(file \<mapsto> old)) names file)"
proof (rule set_eqI)
  fix x
  have "x \<noteq> [] \<Longrightarrow> x \<in> trim_space ` set (split_on (CHR 0x0A) (old @ cn @ [CHR 0x0A])) \<longleftrightarrow>
             x = cn \<or> x \<in> trim_space ` set (split_on (CHR 0x0A) old)"
    using image_up_to[where f = trim_space, OF split_on_append_line[OF assms(1,3)] trim_space_Nil] assms(2) by simp
  then show "x \<in> loadBlockedSet (fs(file \<mapsto> old @ cn @ [CHR 0x0A])) names file \<longleftrightarrow>
        x \<in> insert cn (loadBlockedSet (fs(file \<mapsto> old)) names file)"
    using assms(4-6) by (cases "x = []") (simp_all add: loadBlockedSet_iff, blast)
qed

lemma loadBlockedSet_same_text:
  assumes "file_text (fs file) = old"
  shows "loadBlockedSet (fs(file \<mapsto> old)) names file = loadBlockedSet fs names file"
proof (cases "fs file")
  case None
  then show ?thesis using assms by (simp add: file_text_def loadBlockedSet_def blocked_add_def Let_def)
next
  case (Some s)
  then show ?thesis using assms by (simp add: file_text_def loadBlockedSet_def Let_def)
qed


definition demo_denylist :: "string \<Rightarrow> vps" where
  "demo_denylist s = \<lparr>v_root = True, v_systemd = True, v_tun = True, v_apt = True, v_ufw = False, v_arch = ''x86_64'', v_ss = [],
     v_dir = True, v_svc = True, v_active = True, v_fs = Map.empty(remoteBlockedCNs \<mapsto> s)\<rparr>"

text \<open>Revoking certificate 7 on a server with the given denylist, and the denylist after it.\<close>

definition revoke7 :: "string \<Rightarrow> vps \<times> setup_error option" where
  "revoke7 s = RevokeClient (vps_exec (\<lambda>_. True) (\<lambda>_ _. None) [] (\<lambda>_ _ v. (v, RNoSession []))) 7 (demo_denylist s)"

lemma revoke_vps:
  assumes "v_dir v" "1 \<le> n" "n \<le> 261"
  shows "snd (RevokeClient (vps_exec starts genconf issue other) n v) = None"
  using assms
  by (auto simp: RevokeClient_def ClientCN_def LastAppIndex_def Client_Run_def RunBytes_def vps_exec_def
      sh_word_quote_end revoke_script_def Let_def split: if_splits)


text \<open>
  Without the newline the name is glued to the last one: the revocation reports success, denies
  nobody, and admits the client of the last line again.
\<close>

theorem revocation_lost:
  "\<exists>v'. revoke7 ''masque-client-8'' = (v', None)
     \<and> loadBlockedSet (v_fs (demo_denylist ''masque-client-8'')) [] defaultBlockedFile = {''masque-client-8''}
     \<and> loadBlockedSet (v_fs v') [] defaultBlockedFile = {''masque-client-8masque-client-7''}"
proof -
  have "snd (revoke7 ''masque-client-8'') = None"
    unfolding revoke7_def by (rule revoke_vps) (simp_all add: demo_denylist_def)
  then obtain v' where v': "revoke7 ''masque-client-8'' = (v', None)" by (metis prod.collapse)
  have i: "itoa 7 = ''7''" by code_simp
  have f: "file_lines ''masque-client-8'' = [''masque-client-8'']" by code_simp
  have "v_fs v' = Map.empty(remoteBlockedCNs \<mapsto> ''masque-client-8masque-client-7\<newline>'')"
    using RevokeClient_vps[OF v'[unfolded revoke7_def]] by (simp add: demo_denylist_def file_text_def i f)
  then have "v_fs v' defaultBlockedFile = Some ''masque-client-8masque-client-7\<newline>''"
    by (simp add: remoteBlockedCNs_def defaultBlockedFile_def)
  moreover have "fold blocked_add (split_on (CHR 0x0A) ''masque-client-8masque-client-7\<newline>'') {} = {''masque-client-8masque-client-7''}"
    "fold blocked_add (split_on (CHR 0x0A) ''masque-client-8'') {} = {''masque-client-8''}"
    by code_simp+
  ultimately show ?thesis using v'
    by (simp add: loadBlockedSet_def Let_def demo_denylist_def remoteBlockedCNs_def defaultBlockedFile_def)
qed

end
