(* ===== verification/VpsPorts.thy ===== *)
theory VpsPorts
  imports VpsText
begin

text \<open>
  The preflight's reading of \<open>ss -H -uln\<close>: printing a table of sockets and parsing it gives
  the bound ports back, and the recommended ports are the candidates that are free.
\<close>

text \<open>A row of the table: padding, local address and port, peer.\<close>

record sock =
  sk_pad :: nat
  sk_addr :: string
  sk_port :: nat
  sk_peer :: string

definition column :: "nat \<Rightarrow> string \<Rightarrow> string \<Rightarrow> string" where
  "column n w s = w @ replicate (Suc n) CHR 0x20 @ s"

definition sock_line :: "sock \<Rightarrow> string" where
  "sock_line k =
     column (sk_pad k) ''UNCONN'' (column (sk_pad k) ''0'' (column (sk_pad k) ''0''
       (column 0 (sk_addr k @ '':'' @ nat_str (sk_port k)) (sk_peer k))))"

definition sock_ok :: "sock \<Rightarrow> bool" where
  "sock_ok k \<longleftrightarrow>
     list_all graphic (sk_addr k) \<and> 1 \<le> sk_port k \<and> sk_port k \<le> 65535 \<and>
     list_all graphic (sk_peer k) \<and> sk_peer k \<noteq> [] \<and> int (length (sock_line k)) < 65536"

lemma fields_column:
  assumes "list_all graphic w" "w \<noteq> []"
  shows "str_fields (column n w s) = w # str_fields s"
proof -
  have "str_fields (replicate m CHR 0x20 @ s) = str_fields s" for m
    by (induction m) (simp_all add: fields_blank)
  then show ?thesis using fields_word[OF assms, of "replicate n CHR 0x20 @ s"] by (simp add: fields_blank column_def)
qed

lemma portFromAddr_port:
  assumes "1 \<le> p" "p \<le> 65535"
  shows "portFromAddr (a @ '':'' @ nat_str p) = Some (int p)"
proof -
  let ?f = "a @ '':'' @ nat_str p"
  have g: "CHR '','' \<notin> set (nat_str p)" "CHR '':'' \<notin> set (nat_str p)"
    using nat_str_digits[of p] by (auto simp: list_all_iff is_digit_def)
  have "\<not> has_suffix ?f '',''"
  proof
    assume "has_suffix ?f '',''"
    then obtain t where "?f = t @ '',''" by (auto simp: has_suffix_iff)
    then have "last ?f = CHR '',''" by (metis last_snoc)
    then have "last (nat_str p) = CHR '',''" by simp
    with g(1) show False by (metis last_in_set nat_str_nonempty)
  qed
  moreover have "last_index (CHR '':'') ?f = Some (length a)"
  proof -
    have n: "last_index (CHR '':'') (nat_str p) = None" using g(2) by (simp add: last_index_None)
    have "last_index (CHR '':'') ('':'' @ nat_str p) = Some 0" by (simp add: n)
    then show ?thesis using last_index_append[of "CHR '':''" a "'':'' @ nat_str p"] by simp
  qed
  moreover have "int (length a) \<noteq> int (length ?f) - 1"
    using nat_str_nonempty[of p] by (cases "nat_str p") auto
  moreover have "atoi (nat_str p) = Some (int p)" using assms by (intro atoi_nat_str) simp
  ultimately show ?thesis using assms by (simp add: portFromAddr_def trim_suffix_def)
qed

lemma listen_line_sock:
  assumes "sock_ok k"
  shows "listen_line (sock_line k) out = insert (int (sk_port k)) out"
proof -
  let ?local = "sk_addr k @ '':'' @ nat_str (sk_port k)"
  have loc: "list_all graphic ?local" "?local \<noteq> []"
    using assms graphic_nat_str[of "sk_port k"] by (simp_all add: sock_ok_def graphic_def)
  have peer: "list_all graphic (sk_peer k)" "sk_peer k \<noteq> []" using assms by (simp_all add: sock_ok_def)
  then have "graphic (last (sk_peer k))" by (simp add: list_all_iff)
  then have t: "trim_space (sock_line k) = sock_line k"
    using peer(2) by (intro trim_space_graphic) (simp_all add: sock_line_def column_def graphic_def)
  have w: "list_all graphic ''UNCONN''" "list_all graphic ''0''" by (simp_all add: graphic_def)
  have "str_fields (sock_line k) = [''UNCONN'', ''0'', ''0'', ?local, sk_peer k]"
    unfolding sock_line_def fields_column[OF w(1), simplified] fields_column[OF w(2), simplified]
      fields_column[OF loc] fields_last[OF peer] ..
  moreover have "portFromAddr ''UNCONN'' = None" "portFromAddr ''0'' = None" by code_simp+
  ultimately have "first_port (str_fields (sock_line k)) = Some (int (sk_port k))"
    using portFromAddr_port[of "sk_port k" "sk_addr k"] assms by (simp add: sock_ok_def)
  moreover have "sock_line k \<noteq> []" by (simp add: sock_line_def column_def)
  ultimately show ?thesis by (simp add: listen_line_def t)
qed

lemma sock_line_text: "sock_ok k \<Longrightarrow> CHR 0x0A \<notin> set (sock_line k) \<and> CHR 0x0D \<notin> set (sock_line k)"
  using graphic_nat_str[of "sk_port k"] by (auto simp: sock_ok_def sock_line_def column_def list_all_iff graphic_def)

lemma recommend_loop_filter: "recommend_loop l ps acc = acc @ filter (\<lambda>p. p \<notin> l) ps"
  by (induction ps arbitrary: acc) simp_all

text \<open>
  C36. The preflight reads the UDP ports correctly: from the table printed for any list of bound
  sockets it recovers exactly their ports, and it recommends exactly the candidates, in their
  order, that no socket is bound to.
\<close>

theorem listening_ports_roundtrip:
  assumes "\<And>k. k \<in> set ks \<Longrightarrow> sock_ok k"
  shows "ParseListeningUDPPorts (unlines (map sock_line ks)) = {int (sk_port k) | k. k \<in> set ks}
    \<and> Recommend (ParseListeningUDPPorts (unlines (map sock_line ks))) =
        [p \<leftarrow> CandidatePorts. \<forall>k \<in> set ks. int (sk_port k) \<noteq> p]"
proof -
  have "scan_lines (unlines (map sock_line ks)) = map sock_line ks"
    using assms sock_line_text by (intro scan_lines_unlines) (auto simp: sock_ok_def)
  moreover have "fold listen_line (map sock_line ks) out = (\<lambda>k. int (sk_port k)) ` set ks \<union> out" for out
    using assms by (induction ks arbitrary: out) (auto simp: listen_line_sock)
  ultimately have "ParseListeningUDPPorts (unlines (map sock_line ks)) = {int (sk_port k) | k. k \<in> set ks}"
    by (auto simp: ParseListeningUDPPorts_def)
  then show ?thesis by (auto simp: Recommend_def recommend_loop_filter intro!: filter_cong)
qed

definition demo_socks :: "sock list" where
  "demo_socks = [\<lparr>sk_pad = 2, sk_addr = ''0.0.0.0'', sk_port = 443, sk_peer = ''0.0.0.0:*''\<rparr>]"

theorem listening_ports_roundtrip_witness:
  "Recommend (ParseListeningUDPPorts (unlines (map sock_line demo_socks))) = [2053, 8443, 41234]"
proof -
  have "sock_ok k" if "k \<in> set demo_socks" for k
    using that graphic_nat_str[of 443]
    by (auto simp: demo_socks_def sock_ok_def sock_line_def column_def graphic_def nat_str.simps)
  from listening_ports_roundtrip[of demo_socks, OF this]
  have "Recommend (ParseListeningUDPPorts (unlines (map sock_line demo_socks))) =
        [p \<leftarrow> CandidatePorts. \<forall>k \<in> set demo_socks. int (sk_port k) \<noteq> p]" by blast
  also have "\<dots> = [2053, 8443, 41234]" by (simp add: demo_socks_def CandidatePorts_def)
  finally show ?thesis .
qed

end
