(* ===== verification/Store.thy ===== *)
theory Store
  imports Profile GoText
begin

text \<open>
  The store of the Windows service (\<open>windows/internal/store/store.go\<close>): its settings file, the
  import of a profile with its certificates, and the profile file. The disk is a map from
  paths to texts; \<open>wr\<close> tells how a write ends. The JSON and TOML decoders are parameters.
\<close>

section \<open>The disk\<close>

text \<open>A write succeeds, fails to open the file, or fails after some bytes of the truncated file.\<close>

datatype write_end = WOk | WOpen | WPartial nat

type_synonym disk = "path \<rightharpoonup> string"

definition os_WriteFile :: "(path \<Rightarrow> write_end) \<Rightarrow> path \<Rightarrow> string \<Rightarrow> disk \<Rightarrow> disk \<times> bool" where
  "os_WriteFile wr p data d =
     (case wr p of
        WOk \<Rightarrow> (d(p \<mapsto> data), True)
      | WOpen \<Rightarrow> (d, False)
      | WPartial n \<Rightarrow> (d(p \<mapsto> take n data), False))"

text \<open>The environment variable, the decoders, the quoting of a text that is not ASCII.\<close>

record store_env =
  se_programData :: string
  se_unmarshal :: "string \<Rightarrow> (bool \<times> bool) option"
  se_toml :: "string \<Rightarrow> (string list \<times> toml_profile) option"
  se_quote :: "string \<Rightarrow> string"

definition store_Dir :: "store_env \<Rightarrow> path" where
  "store_Dir se =
     (let pd = se_programData se; pd = (if pd = [] then ''C:'' @ [CHR 0x5C] @ ''ProgramData'' else pd)
      in [pd, ''MASQUE''])"

definition profilePath :: "store_env \<Rightarrow> path" where "profilePath se = store_Dir se @ [''profile.toml'']"
definition settingsPath :: "store_env \<Rightarrow> path" where "settingsPath se = store_Dir se @ [''settings.json'']"
definition certsDir :: "store_env \<Rightarrow> path" where "certsDir se = store_Dir se @ [''certs'']"

definition path_string :: "path \<Rightarrow> string" where
  "path_string p = join_with [CHR 0x5C] p"

section \<open>Settings\<close>

record settings =
  st_Autoconnect :: bool
  st_KillSwitch :: bool

definition json_bool :: "bool \<Rightarrow> string" where
  "json_bool b = (if b then ''true'' else ''false'')"

text \<open>\<open>json.MarshalIndent\<close> of the two fields.\<close>

definition marshal_settings :: "settings \<Rightarrow> string" where
  "marshal_settings s =
     ''{'' @ [CHR 0x0A] @ ''  '' @ [CHR 0x22] @ ''autoconnect'' @ [CHR 0x22] @ '': '' @ json_bool (st_Autoconnect s)
     @ '','' @ [CHR 0x0A] @ ''  '' @ [CHR 0x22] @ ''kill_switch'' @ [CHR 0x22] @ '': '' @ json_bool (st_KillSwitch s)
     @ [CHR 0x0A] @ ''}''"

definition LoadSettings :: "store_env \<Rightarrow> disk \<Rightarrow> settings" where
  "LoadSettings se d =
     (case d (settingsPath se) of
        None \<Rightarrow> \<lparr>st_Autoconnect = False, st_KillSwitch = False\<rparr>
      | Some b \<Rightarrow>
          (case se_unmarshal se b of
             None \<Rightarrow> \<lparr>st_Autoconnect = False, st_KillSwitch = False\<rparr>
           | Some (a, k) \<Rightarrow> \<lparr>st_Autoconnect = a, st_KillSwitch = k\<rparr>))"

text \<open>\<open>mk\<close> tells whether a directory can be made.\<close>

record io_env =
  io_mkdir :: "path \<Rightarrow> bool"
  io_write :: "path \<Rightarrow> write_end"

definition SaveSettings :: "store_env \<Rightarrow> io_env \<Rightarrow> settings \<Rightarrow> disk \<Rightarrow> disk \<times> bool" where
  "SaveSettings se io s d =
     (if \<not> io_mkdir io (store_Dir se) then (d, False)
      else os_WriteFile (io_write io) (settingsPath se) (marshal_settings s) d)"

definition store_SetKillSwitch :: "store_env \<Rightarrow> io_env \<Rightarrow> bool \<Rightarrow> disk \<Rightarrow> disk \<times> bool" where
  "store_SetKillSwitch se io v d = SaveSettings se io ((LoadSettings se d)\<lparr>st_KillSwitch := v\<rparr>) d"

definition store_SetAutoconnect :: "store_env \<Rightarrow> io_env \<Rightarrow> bool \<Rightarrow> disk \<Rightarrow> disk \<times> bool" where
  "store_SetAutoconnect se io v d = SaveSettings se io ((LoadSettings se d)\<lparr>st_Autoconnect := v\<rparr>) d"

section \<open>Reading a bundle\<close>

definition skip_ws :: "string \<Rightarrow> string" where
  "skip_ws s = dropWhile (\<lambda>c. c \<in> set [CHR 0x09, CHR 0x0A, CHR 0x0C, CHR 0x0D, CHR 0x20]) s"

text \<open>\<open>\s*key\s*=\s*\<close> at the start of a text: what follows it.\<close>

definition match_key :: "string \<Rightarrow> string \<Rightarrow> string option" where
  "match_key key s =
     (let s = skip_ws s
      in if \<not> has_prefix s key then None
         else case skip_ws (drop (length key) s) of
                c # t \<Rightarrow> if c = CHR ''='' then Some (skip_ws t) else None
              | [] \<Rightarrow> None)"

definition quoted_value :: "string \<Rightarrow> string option" where
  "quoted_value s =
     (case s of
        c # t \<Rightarrow>
          if c = CHR 0x22 then
            (case index_byte (CHR 0x22) t of None \<Rightarrow> None | Some i \<Rightarrow> Some (take i t))
          else None
      | [] \<Rightarrow> None)"

definition number_value :: "string \<Rightarrow> string option" where
  "number_value s = (let ds = takeWhile is_digit s in if ds = [] then None else Some ds)"

text \<open>The leftmost match at the beginning of a line; the flag tells whether one begins here.\<close>

fun line_match :: "(string \<Rightarrow> string option) \<Rightarrow> string \<Rightarrow> bool \<Rightarrow> string \<Rightarrow> string option" where
  "line_match value key bol s =
     (case (if bol then Option.bind (match_key key s) value else None) of
        Some v \<Rightarrow> Some v
      | None \<Rightarrow> (case s of [] \<Rightarrow> None | c # t \<Rightarrow> line_match value key (c = CHR 0x0A) t))"

fun firstString :: "string \<Rightarrow> string list \<Rightarrow> string" where
  "firstString text [] = []"
| "firstString text (key # keys) =
     (case line_match quoted_value key True text of Some v \<Rightarrow> v | None \<Rightarrow> firstString text keys)"

fun firstInt :: "string \<Rightarrow> string list \<Rightarrow> int" where
  "firstInt text [] = 0"
| "firstInt text (key # keys) =
     (case (let s = firstString text [key] in if s \<noteq> [] then atoi s else None) of
        Some n \<Rightarrow> n
      | None \<Rightarrow>
          (case Option.bind (line_match number_value key True text) atoi of
             Some n \<Rightarrow> n
           | None \<Rightarrow> firstInt text keys))"

definition word_char :: "char \<Rightarrow> bool" where
  "word_char c \<longleftrightarrow>
     (let n = (of_char c :: nat)
      in is_digit c \<or> 65 \<le> n \<and> n \<le> 90 \<or> 97 \<le> n \<and> n \<le> 122 \<or> n = 95)"

definition triple_quote :: string where
  "triple_quote = [CHR 0x22, CHR 0x22, CHR 0x22]"

text \<open>\<open>\bkey\s*=\s*"{3}(.*?)"{3}\<close>: the flag tells whether a word character precedes.\<close>

definition triple_at :: "string \<Rightarrow> string \<Rightarrow> string option" where
  "triple_at key s =
     (if \<not> has_prefix s key then None
      else case match_key key s of
             None \<Rightarrow> None
           | Some t \<Rightarrow>
               if \<not> has_prefix t triple_quote then None
               else case str_cut (drop 3 t) triple_quote of (v, _, found) \<Rightarrow> if found then Some v else None)"

fun triple_scan :: "string \<Rightarrow> bool \<Rightarrow> string \<Rightarrow> string option" where
  "triple_scan key word [] = None"
| "triple_scan key word (c # s) =
     (case (if word then None else triple_at key (c # s)) of
        Some v \<Rightarrow> Some v
      | None \<Rightarrow> triple_scan key (word_char c) s)"

definition triple :: "string \<Rightarrow> string \<Rightarrow> string" where
  "triple text key = (case triple_scan key False text of Some v \<Rightarrow> trim_space v | None \<Rightarrow> [])"

definition looksPEM :: "string \<Rightarrow> bool" where
  "looksPEM s = str_contains s ''-----BEGIN''"

definition pickPEM :: "string \<Rightarrow> string \<Rightarrow> string" where
  "pickPEM primary extra =
     (let primary = trim_space primary in if looksPEM primary then primary else trim_space extra)"

definition ensureNL :: "string \<Rightarrow> string" where
  "ensureNL s =
     (let s = trim_space s in if \<not> has_suffix s [CHR 0x0A] then s @ [CHR 0x0A] else s)"

datatype store_error =
  StNoServerFields | StNoInlinePEM | StNoServer | StNoPEM | StMkdir | StWrite | StProfile profile_error

definition empty_profile :: profile where
  "empty_profile =
     \<lparr>pf_Server = [], pf_ServerName = [], pf_AltPort = 0, pf_CA = [], pf_Cert = [], pf_Key = [], pf_Insecure = False,
      pf_TUNName = [], pf_MTU = 0, pf_DNS = [], pf_BindInterface = []\<rparr>"

text \<open>The profile and the three PEM texts.\<close>

definition parse_toml_bundle ::
  "toml_profile \<Rightarrow> string \<Rightarrow> string \<Rightarrow> string \<Rightarrow> store_error + (profile \<times> string \<times> string \<times> string)" where
  "parse_toml_bundle tp extraCA extraCert extraKey =
     (let p = empty_profile\<lparr>pf_Server := tp_server tp, pf_ServerName := tp_server_name tp, pf_AltPort := tp_alt_port tp,
                pf_Insecure := tp_insecure tp, pf_TUNName := tp_tun_name tp, pf_MTU := tp_mtu tp, pf_DNS := tp_dns tp\<rparr>;
          ca = pickPEM (tp_ca tp) extraCA; cert = pickPEM (tp_cert tp) extraCert; key = pickPEM (tp_key tp) extraKey
      in if pf_Server p = [] \<or> pf_ServerName p = [] then Inl StNoServerFields
         else if \<not> looksPEM ca \<or> \<not> looksPEM cert \<or> \<not> looksPEM key then Inl StNoInlinePEM
         else Inr (p, ca, cert, key))"

definition text_name :: "string \<Rightarrow> string \<Rightarrow> string" where
  "text_name text server =
     (let name = firstString text [''name'', ''server_name'']
      in if name \<noteq> [] then name
         else case last_index (CHR '':'') server of
                Some i \<Rightarrow> if 0 < i then take i server else server
              | None \<Rightarrow> server)"

definition text_profile :: "string \<Rightarrow> string \<Rightarrow> profile" where
  "text_profile text server =
     (let dns = firstString text [''dns'']
      in empty_profile\<lparr>pf_Server := server, pf_ServerName := text_name text server,
           pf_AltPort := firstInt text [''alt_port''], pf_DNS := if dns \<noteq> [] then [dns] else []\<rparr>)"

definition parse_text_bundle ::
  "string \<Rightarrow> string \<Rightarrow> string \<Rightarrow> string \<Rightarrow> store_error + (profile \<times> string \<times> string \<times> string)" where
  "parse_text_bundle text extraCA extraCert extraKey =
     (let server = firstString text [''address'', ''server''];
          ca = pickPEM (triple text ''ca'') extraCA; cert = pickPEM (triple text ''cert'') extraCert;
          key = pickPEM (triple text ''key'') extraKey
      in if server = [] then Inl StNoServer
         else if \<not> looksPEM ca \<or> \<not> looksPEM cert \<or> \<not> looksPEM key then Inl StNoPEM
         else Inr (text_profile text server, ca, cert, key))"

definition parseBundle ::
  "store_env \<Rightarrow> string \<Rightarrow> string \<Rightarrow> string \<Rightarrow> string \<Rightarrow> store_error + (profile \<times> string \<times> string \<times> string)" where
  "parseBundle se text extraCA extraCert extraKey =
     (if str_contains text ''[server]'' \<or> str_contains text ''[tls]'' then
        (case se_toml se text of
           Some (_, tp) \<Rightarrow> parse_toml_bundle tp extraCA extraCert extraKey
         | None \<Rightarrow> parse_text_bundle text extraCA extraCert extraKey)
      else parse_text_bundle text extraCA extraCert extraKey)"

section \<open>Writing the profile\<close>

definition hex_digit :: "nat \<Rightarrow> char" where
  "hex_digit n = (if n < 10 then char_of (48 + n) else char_of (87 + n))"

text \<open>The verb \<open>%q\<close> on ASCII texts.\<close>

definition quote_char :: "char \<Rightarrow> string" where
  "quote_char c =
     (let n = (of_char c :: nat)
      in if c = CHR 0x22 \<or> c = CHR 0x5C then [CHR 0x5C, c]
         else if n = 7 then CHR 0x5C # ''a'' else if n = 8 then CHR 0x5C # ''b''
         else if n = 9 then CHR 0x5C # ''t'' else if n = 10 then CHR 0x5C # ''n''
         else if n = 11 then CHR 0x5C # ''v'' else if n = 12 then CHR 0x5C # ''f''
         else if n = 13 then CHR 0x5C # ''r''
         else if n < 32 \<or> n = 127 then CHR 0x5C # CHR ''x'' # [hex_digit (n div 16), hex_digit (n mod 16)]
         else [c])"

definition go_quote :: "store_env \<Rightarrow> string \<Rightarrow> string" where
  "go_quote se s =
     (if list_all (\<lambda>c. (of_char c :: nat) < 128) s
      then CHR 0x22 # concat (map quote_char s) @ [CHR 0x22] else se_quote se s)"

definition profile_text :: "store_env \<Rightarrow> profile \<Rightarrow> string" where
  "profile_text se p =
     (let q = go_quote se;
          alt = (if 0 < pf_AltPort p then ''alt_port = '' @ itoa (pf_AltPort p) @ [CHR 0x0A] else [])
      in unlines [''[server]'', ''server = '' @ q (pf_Server p), ''server_name = '' @ q (pf_ServerName p), alt,
                  ''[tls]'', ''ca = '' @ q (pf_CA p), ''cert = '' @ q (pf_Cert p), ''key = '' @ q (pf_Key p),
                  ''insecure = '' @ json_bool (pf_Insecure p), [],
                  ''[tun]'', ''tun_name = '' @ q (pf_TUNName p), ''mtu = '' @ itoa (pf_MTU p),
                  ''dns = ['' @ join_with '', '' (map q (pf_DNS p)) @ '']''])"

definition writeProfileTOML :: "store_env \<Rightarrow> io_env \<Rightarrow> path \<Rightarrow> profile \<Rightarrow> disk \<Rightarrow> disk \<times> bool" where
  "writeProfileTOML se io p prof d = os_WriteFile (io_write io) p (profile_text se prof) d"

section \<open>The profile of the service\<close>

definition Configured :: "store_env \<Rightarrow> disk \<Rightarrow> bool" where
  "Configured se d \<longleftrightarrow> d (profilePath se) \<noteq> None"

definition store_Load :: "store_env \<Rightarrow> disk \<Rightarrow> profile_error + profile" where
  "store_Load se d = LoadProfile (\<lambda>_. Option.bind (d (profilePath se)) (se_toml se)) (path_string (profilePath se))"

fun write_all :: "io_env \<Rightarrow> (path \<times> string) list \<Rightarrow> disk \<Rightarrow> disk \<times> bool" where
  "write_all io [] d = (d, True)"
| "write_all io ((p, s) # fs) d =
     (case os_WriteFile (io_write io) p s d of
        (d, False) \<Rightarrow> (d, False)
      | (d, True) \<Rightarrow> write_all io fs d)"

definition import_defaults :: "store_env \<Rightarrow> profile \<Rightarrow> profile" where
  "import_defaults se p =
     (let p = (if pf_TUNName p = [] then p\<lparr>pf_TUNName := ''masque0''\<rparr> else p);
          p = (if pf_MTU p = 0 then p\<lparr>pf_MTU := 1369\<rparr> else p);
          p = (if length (pf_DNS p) = 0 then p\<lparr>pf_DNS := [''1.1.1.1'']\<rparr> else p)
      in p\<lparr>pf_CA := path_string (certsDir se @ [''ca.crt'']), pf_Cert := path_string (certsDir se @ [''client.crt'']),
           pf_Key := path_string (certsDir se @ [''client.key''])\<rparr>)"

definition store_Import ::
  "store_env \<Rightarrow> io_env \<Rightarrow> string \<Rightarrow> string \<Rightarrow> string \<Rightarrow> string \<Rightarrow> string \<Rightarrow> disk \<Rightarrow> disk \<times> store_error option" where
  "store_Import se io text filename extraCA extraCert extraKey d =
     (case parseBundle se text extraCA extraCert extraKey of
        Inl e \<Rightarrow> (d, Some e)
      | Inr (p, ca, cert, key) \<Rightarrow>
          if \<not> io_mkdir io (certsDir se) then (d, Some StMkdir)
          else case write_all io [(certsDir se @ [''ca.crt''], ensureNL ca), (certsDir se @ [''client.crt''], ensureNL cert),
                                  (certsDir se @ [''client.key''], ensureNL key)] d of
                 (d, False) \<Rightarrow> (d, Some StWrite)
               | (d, True) \<Rightarrow>
                   (case Validate (import_defaults se p) of
                      Inl e \<Rightarrow> (d, Some (StProfile e))
                    | Inr p \<Rightarrow>
                        (case writeProfileTOML se io (profilePath se) p d of
                           (d, ok) \<Rightarrow> (d, if ok then None else Some StWrite))))"

end
