(* ===== verification/StoreProps.thy ===== *)
theory StoreProps
  imports Store
begin

text \<open>What the store keeps: the settings over a save and a load, the imported profile and its files.\<close>

section \<open>Settings\<close>

definition settings_json_ok :: "store_env \<Rightarrow> bool" where
  "settings_json_ok se \<longleftrightarrow> (\<forall>s. se_unmarshal se (marshal_settings s) = Some (st_Autoconnect s, st_KillSwitch s))"

lemma LoadSettings_saved:
  "settings_json_ok se \<Longrightarrow> LoadSettings se (d(settingsPath se \<mapsto> marshal_settings s)) = s"
  by (simp add: LoadSettings_def settings_json_ok_def)

lemma os_WriteFile_ok: "os_WriteFile wr p s d = (d', True) \<Longrightarrow> d' = d(p \<mapsto> s)"
  by (auto simp: os_WriteFile_def split: write_end.splits)

lemma SaveSettings_ok:
  assumes "settings_json_ok se" "SaveSettings se io s d = (d', True)"
  shows "LoadSettings se d' = s \<and> (\<forall>p. p \<noteq> settingsPath se \<longrightarrow> d' p = d p)"
proof -
  have "d' = d(settingsPath se \<mapsto> marshal_settings s)"
    using assms(2) by (auto simp: SaveSettings_def split: if_splits dest: os_WriteFile_ok)
  then show ?thesis using LoadSettings_saved[OF assms(1), of d s] by simp
qed

lemma paths_distinct:
  "profilePath se \<noteq> settingsPath se" "certsDir se @ [f] \<noteq> settingsPath se" "certsDir se @ [f] \<noteq> profilePath se"
  by (simp_all add: profilePath_def settingsPath_def certsDir_def store_Dir_def)

lemma same_files:
  assumes "\<And>p. p \<noteq> settingsPath se \<Longrightarrow> d' p = d p"
  shows "Configured se d' = Configured se d" "store_Load se d' = store_Load se d"
  using assms[of "profilePath se"] paths_distinct by (simp_all add: Configured_def store_Load_def)

section \<open>Import\<close>

text \<open>The decoded form of a profile that was written.\<close>

definition toml_of :: "profile \<Rightarrow> toml_profile" where
  "toml_of p =
     \<lparr>tp_server = pf_Server p, tp_server_name = pf_ServerName p, tp_alt_port = pf_AltPort p, tp_ca = pf_CA p,
      tp_cert = pf_Cert p, tp_key = pf_Key p, tp_insecure = pf_Insecure p, tp_tun_name = pf_TUNName p,
      tp_mtu = pf_MTU p, tp_dns = pf_DNS p\<rparr>"

lemma profile_of_toml_of: "pf_BindInterface p = [] \<Longrightarrow> profile_of_toml (toml_of p) = p"
  by (simp add: profile_of_toml_def toml_of_def)

lemma parseBundle_facts:
  assumes "parseBundle se text a b c = Inr (p, ca, cert, key)"
  shows "pf_BindInterface p = []" "looksPEM ca" "looksPEM cert" "looksPEM key"
proof -
  have t: "parse_text_bundle text a b c = Inr (p, ca, cert, key) \<Longrightarrow>
      pf_BindInterface p = [] \<and> looksPEM ca \<and> looksPEM cert \<and> looksPEM key"
    by (auto simp: parse_text_bundle_def Let_def text_profile_def empty_profile_def split: if_split_asm)
  have m: "parse_toml_bundle tp a b c = Inr (p, ca, cert, key) \<Longrightarrow>
      pf_BindInterface p = [] \<and> looksPEM ca \<and> looksPEM cert \<and> looksPEM key" for tp
    by (auto simp: parse_toml_bundle_def Let_def empty_profile_def split: if_split_asm)
  have "pf_BindInterface p = [] \<and> looksPEM ca \<and> looksPEM cert \<and> looksPEM key"
    using assms t m by (auto simp: parseBundle_def split: if_split_asm option.splits)
  then show "pf_BindInterface p = []" "looksPEM ca" "looksPEM cert" "looksPEM key" by simp_all
qed

lemma write_all_ok:
  "write_all io fs d = (d', True) \<Longrightarrow> d' = fold (\<lambda>f d. d(fst f \<mapsto> snd f)) fs d"
proof (induction fs arbitrary: d)
  case (Cons f fs)
  obtain p s where f: "f = (p, s)" by (cases f)
  obtain d1 ok where w: "os_WriteFile (io_write io) p s d = (d1, ok)" by (cases "os_WriteFile (io_write io) p s d")
  with Cons.prems f have ok by (cases ok) simp_all
  with w os_WriteFile_ok have d1: "d1 = d(p \<mapsto> s)" by (metis (full_types))
  have "write_all io fs d1 = (d', True)" using Cons.prems f w \<open>ok\<close> by simp
  then have "d' = fold (\<lambda>f d. d(fst f \<mapsto> snd f)) fs d1" by (rule Cons.IH)
  then show ?case by (simp only: f d1 fold_simps fst_conv snd_conv)
qed simp

lemma Validate_defaults: "Validate p = Inr q \<Longrightarrow> profile_ok p \<and> q = profile_defaults p"
  using Validate_ok[of p] Validate_fails[of p] by (cases "profile_ok p") auto

lemma Validate_again:
  assumes "Validate p = Inr q"
  shows "Validate q = Inr q" "pf_BindInterface q = pf_BindInterface p" "0 \<le> pf_AltPort q"
proof -
  from Validate_defaults[OF assms] have p: "profile_ok p" "q = profile_defaults p" by auto
  then show "Validate q = Inr q"
    using Validate_ok[OF profile_defaults_ok[OF p(1)]] profile_defaults_idem by simp
  show "pf_BindInterface q = pf_BindInterface p" using p(2) by (simp add: profile_defaults_def)
  have "pf_AltPort q = pf_AltPort p" using p(2) by (simp add: profile_defaults_def)
  moreover have "pf_AltPort p \<noteq> 0 \<Longrightarrow> 1 \<le> pf_AltPort p"
    using p(1) validateAltPort_None by (auto simp: profile_ok_def)
  ultimately show "0 \<le> pf_AltPort q" by (cases "pf_AltPort p = 0") auto
qed

lemma store_Import_success:
  assumes "store_Import se io text filename a b c d = (d', None)"
  obtains p ca cert key q where "parseBundle se text a b c = Inr (p, ca, cert, key)"
    "Validate (import_defaults se p) = Inr q"
    "d' = d(certsDir se @ [''ca.crt''] \<mapsto> ensureNL ca, certsDir se @ [''client.crt''] \<mapsto> ensureNL cert,
            certsDir se @ [''client.key''] \<mapsto> ensureNL key, profilePath se \<mapsto> profile_text se q)"
proof -
  obtain p ca cert key where b: "parseBundle se text a b c = Inr (p, ca, cert, key)"
    using assms by (auto simp: store_Import_def split: sum.splits)
  let ?fs = "[(certsDir se @ [''ca.crt''], ensureNL ca), (certsDir se @ [''client.crt''], ensureNL cert),
              (certsDir se @ [''client.key''], ensureNL key)]"
  obtain d1 where w: "write_all io ?fs d = (d1, True)"
    using assms b by (auto simp: store_Import_def simp del: write_all.simps split: if_splits prod.splits bool.splits)
  obtain q where q: "Validate (import_defaults se p) = Inr q"
    using assms b w by (auto simp: store_Import_def simp del: write_all.simps split: if_splits sum.splits)
  obtain "writeProfileTOML se io (profilePath se) q d1 = (d', True)"
    using assms b w q by (auto simp: store_Import_def simp del: write_all.simps split: if_splits prod.splits)
  then have "d' = d1(profilePath se \<mapsto> profile_text se q)"
    by (auto simp: writeProfileTOML_def os_WriteFile_def split: write_end.splits)
  moreover have "d1 = d(certsDir se @ [''ca.crt''] \<mapsto> ensureNL ca, certsDir se @ [''client.crt''] \<mapsto> ensureNL cert,
            certsDir se @ [''client.key''] \<mapsto> ensureNL key)"
    using write_all_ok[OF w] by simp
  ultimately show ?thesis using that b q by blast
qed


definition demo_bundle :: string where
  "demo_bundle = ''address = '' @ [CHR 0x22] @ ''vpn.example:https'' @ [CHR 0x22, CHR 0x0A]"

definition no_store :: store_env where
  "no_store = \<lparr>se_programData = [], se_unmarshal = (\<lambda>_. None), se_toml = (\<lambda>_. None), se_quote = (\<lambda>s. s)\<rparr>"

definition imported_profile :: profile where
  "imported_profile = empty_profile\<lparr>pf_Server := ''vpn.example:https'', pf_ServerName := ''vpn.example'',
     pf_CA := path_string (certsDir no_store @ [''ca.crt'']), pf_Cert := path_string (certsDir no_store @ [''client.crt'']),
     pf_Key := path_string (certsDir no_store @ [''client.key'']), pf_TUNName := ''masque0'', pf_MTU := 1369, pf_DNS := [''1.1.1.1'']\<rparr>"

definition demo_store :: store_env where
  "demo_store = no_store\<lparr>se_toml := (\<lambda>t. if t = profile_text no_store imported_profile then Some ([], toml_of imported_profile) else None)\<rparr>"

definition good_io :: io_env where
  "good_io = \<lparr>io_mkdir = (\<lambda>_. True), io_write = (\<lambda>_. WOk)\<rparr>"

definition demo_pem :: string where
  "demo_pem = ''-----BEGIN X''"

lemma store_paths_env: "certsDir (se\<lparr>se_toml := f\<rparr>) = certsDir se" "profile_text (se\<lparr>se_toml := f\<rparr>) p = profile_text se p"
proof -
  have "go_quote (se\<lparr>se_toml := f\<rparr>) = go_quote se" by (intro ext) (simp add: go_quote_def)
  then show "profile_text (se\<lparr>se_toml := f\<rparr>) p = profile_text se p" by (simp add: profile_text_def)
qed (simp add: certsDir_def store_Dir_def)

lemma demo_parse:
  "parseBundle demo_store demo_bundle demo_pem demo_pem demo_pem =
     Inr (empty_profile\<lparr>pf_Server := ''vpn.example:https'', pf_ServerName := ''vpn.example''\<rparr>, demo_pem, demo_pem, demo_pem)"
proof -
  have "\<not> str_contains demo_bundle ''[server]''" "\<not> str_contains demo_bundle ''[tls]''" by code_simp+
  moreover have "parse_text_bundle demo_bundle demo_pem demo_pem demo_pem =
     Inr (empty_profile\<lparr>pf_Server := ''vpn.example:https'', pf_ServerName := ''vpn.example''\<rparr>, demo_pem, demo_pem, demo_pem)"
    by code_simp
  ultimately show ?thesis by (simp add: parseBundle_def)
qed

lemma demo_validate:
  "Validate (import_defaults demo_store (empty_profile\<lparr>pf_Server := ''vpn.example:https'', pf_ServerName := ''vpn.example''\<rparr>)) = Inr imported_profile"
proof -
  have "import_defaults demo_store (empty_profile\<lparr>pf_Server := ''vpn.example:https'', pf_ServerName := ''vpn.example''\<rparr>) = imported_profile"
    by (simp add: import_defaults_def imported_profile_def empty_profile_def demo_store_def store_paths_env Let_def)
  moreover have "hasPort ''vpn.example:https''" by code_simp
  ultimately show ?thesis using default_dns_parses
    by (simp add: Validate_def imported_profile_def empty_profile_def validateAltPort_def Let_def)
qed


text \<open>
  An import that is refused has already replaced the certificates: the service keeps the old
  profile, whose certificate paths now hold those of the rejected bundle.
\<close>

theorem refused_import_replaces_certs:
  assumes "parseBundle se text a b c = Inr (p, ca, cert, key)" "Validate (import_defaults se p) = Inl e"
    and "io_mkdir io (certsDir se)" "\<And>f. io_write io f = WOk"
  shows "\<exists>d'. store_Import se io text filename a b c d = (d', Some (StProfile e)) \<and> store_Load se d' = store_Load se d
    \<and> d' (certsDir se @ [''client.crt'']) = Some (ensureNL cert) \<and> d' (certsDir se @ [''client.key'']) = Some (ensureNL key)"
  using assms paths_distinct(3)[of se] paths_distinct(3)[of se, symmetric]
  by (auto simp: store_Import_def os_WriteFile_def store_Load_def)

end
