(* ===== verification/EngineLoop.thy ===== *)
theory EngineLoop
  imports StoreProps PumpRuns
begin

text \<open>
  The connection loop of the Windows service (\<open>windows/internal/engine/engine.go\<close>): one
  goroutine that loads the profile, brings up the TUN device and the routes, connects and
  pumps, with or without the kill switch. A step is one statement up to the next access to
  shared state or the next call that waits; the loop's state extends the pump's, and its
  effects on the engine are returned.
\<close>

section \<open>States\<close>

datatype vpn_state = VDisconnected | VConnecting | VConnected | VReconnecting | VError

datatype engine_error =
  ELoad profile_error | ECreateTUN | EIfUp | ERoutes | EIfUp6 | ERoutes6 | EConnect connect_error
| ENoAddress | ENoIPv4 | EPump pump_result | ECancelled
| EBusy | EAlready | ENotImported | EStore store_error | ESettings | EMissing string | EUnknown string

datatype detail = DText string | DError engine_error | DKillSwitch "engine_error option"

text \<open>What the loop has set up in the system and not undone.\<close>

datatype net_item = TunDev | BlockRoutes | BlockV6 | FullRoute | V6Default

text \<open>The statement to execute next; a session is named by its pointer.\<close>

datatype loop_pc =
  LStart | LLoad | LTun | LKsUp | LKsRoute | LKsV6
| LKsTop | LDial | LAssigned nat | LIfUp nat | LRoute nat | LV6 nat | LUp nat | LNewPump nat
| LPump | LPumpEnd engine_error | LCleanup engine_error | LReturned engine_error | LSleep
| LUnwind engine_error | LEnd engine_error | LCancelNil | LFinish | LDone | LCrash

text \<open>
  \<open>el_stale\<close> counts the TUN readers of earlier pumps that still read the device, \<open>el_lost\<close>
  what they took from it.
\<close>

record eloop = pump +
  el_pc :: loop_pc
  el_ks :: bool
  el_prof :: profile
  el_v4 :: prefix
  el_v6 :: prefix
  el_backoff :: int
  el_net :: "net_item set"
  el_stale :: nat
  el_lost :: "bytes list"

datatype loop_effect = FxStatus vpn_state detail string | FxPump | FxNoPump | FxNoCancel

text \<open>
  What a step may need from its environment: the outcomes of system calls, of a dial, of a
  sleep, an event of the pump's goroutines, a batch read by a stale reader.
\<close>

datatype loop_env =
  LNone | LOs bool bool | LConnect connect_env | LTimer bool | LPumpEv "connect_env pump_event" | LStaleRead "bytes list"

definition lgoto :: "loop_pc \<Rightarrow> eloop \<Rightarrow> eloop" where
  "lgoto pc l = l\<lparr>el_pc := pc\<rparr>"

definition client_ip :: "eloop \<Rightarrow> string" where
  "client_ip l = addr_string (px_addr (el_v4 l))"

section \<open>Setting up\<close>

text \<open>\<open>loop\<close>, \<open>runOnce\<close> and the beginning of \<open>loopKillSwitch\<close>.\<close>

definition setup_step :: "store_env \<Rightarrow> disk \<Rightarrow> loop_env \<Rightarrow> eloop \<Rightarrow> eloop" where
  "setup_step se d ev l =
     (case el_pc l of
        LStart \<Rightarrow> lgoto LLoad (l\<lparr>el_ks := st_KillSwitch (LoadSettings se d)\<rparr>)
      | LLoad \<Rightarrow>
          (case store_Load se d of
             Inl e \<Rightarrow> lgoto (LEnd (ELoad e)) l
           | Inr p \<Rightarrow> lgoto LTun (l\<lparr>el_prof := p\<rparr>))
      | LTun \<Rightarrow>
          (case ev of
             LOs ok _ \<Rightarrow>
               if \<not> ok then lgoto (LEnd ECreateTUN) l
               else lgoto (if el_ks l then LKsUp else LDial) (l\<lparr>el_net := insert TunDev (el_net l)\<rparr>)
           | _ \<Rightarrow> l)
      | LKsUp \<Rightarrow> (case ev of LOs ok _ \<Rightarrow> lgoto (if ok then LKsRoute else LUnwind EIfUp) l | _ \<Rightarrow> l)
      | LKsRoute \<Rightarrow>
          (case ev of
             LOs ok _ \<Rightarrow>
               if \<not> ok then lgoto (LUnwind ERoutes) l
               else lgoto LKsV6 (l\<lparr>el_net := insert BlockRoutes (el_net l)\<rparr>)
           | _ \<Rightarrow> l)
      | LKsV6 \<Rightarrow>
          (case ev of
             LOs up route \<Rightarrow>
               lgoto LKsTop (l\<lparr>el_net := (if up \<and> route then insert BlockV6 (el_net l) else el_net l), el_backoff := 1\<rparr>)
           | _ \<Rightarrow> l)
      | _ \<Rightarrow> l)"

section \<open>Connecting\<close>

text \<open>A panic of \<open>MustNew\<close> is not recovered here: it ends the service.\<close>

definition dial_step :: "loop_env \<Rightarrow> eloop \<Rightarrow> eloop" where
  "dial_step ev l =
     (case ev of
        LConnect env \<Rightarrow>
          (case connect_redial (env, el_prof l, False, False) l of
             (l, Inl e) \<Rightarrow> lgoto (if e = CPanic then LCrash else LReturned (EConnect e)) l
           | (l, Inr i) \<Rightarrow> lgoto (LAssigned i) l)
      | _ \<Rightarrow> l)"

definition fail_session :: "nat \<Rightarrow> engine_error \<Rightarrow> eloop \<Rightarrow> eloop" where
  "fail_session i e l = lgoto (LReturned e) (close_session i l)"

definition assigned_step :: "nat \<Rightarrow> eloop \<Rightarrow> eloop" where
  "assigned_step i l =
     (let ps = ss_AssignedPrefixes (sessions l ! i)
      in if ps = [] then fail_session i ENoAddress l
         else case SplitAssigned ps of
                (v4, v6) \<Rightarrow>
                  if \<not> prefix_is_valid v4 then fail_session i ENoIPv4 l
                  else lgoto (LIfUp i) (l\<lparr>el_v4 := v4, el_v6 := v6\<rparr>))"

text \<open>The addresses and routes of the session; with the kill switch the routes are there already.\<close>

definition net_step :: "loop_env \<Rightarrow> eloop \<Rightarrow> eloop" where
  "net_step ev l =
     (case el_pc l of
        LIfUp i \<Rightarrow> (case ev of LOs ok _ \<Rightarrow> if ok then lgoto (LRoute i) l else fail_session i EIfUp l | _ \<Rightarrow> l)
      | LRoute i \<Rightarrow>
          if el_ks l then lgoto (LV6 i) l
          else (case ev of
                  LOs ok _ \<Rightarrow>
                    if ok then lgoto (LV6 i) (l\<lparr>el_net := insert FullRoute (el_net l)\<rparr>) else fail_session i ERoutes l
                | _ \<Rightarrow> l)
      | LV6 i \<Rightarrow>
          if \<not> prefix_is_valid (el_v6 l) then lgoto (LUp i) l
          else (case ev of
                  LOs up route \<Rightarrow>
                    if \<not> up then fail_session i EIfUp6 (l\<lparr>el_net := el_net l - {FullRoute}\<rparr>)
                    else if el_ks l then lgoto (LUp i) l
                    else if \<not> route then fail_session i ERoutes6 (l\<lparr>el_net := el_net l - {FullRoute}\<rparr>)
                    else lgoto (LUp i) (l\<lparr>el_net := insert V6Default (el_net l)\<rparr>)
                | _ \<Rightarrow> l)
      | _ \<Rightarrow> l)"

section \<open>Pumping\<close>

definition engine_redial :: "profile \<Rightarrow> (connect_env, 'x) redial" where
  "engine_redial prof env p = connect_redial (env, prof, False, False) p"

definition redial_panics :: "connect_env \<Rightarrow> eloop \<Rightarrow> bool" where
  "redial_panics env l \<longleftrightarrow> pm_run l = RDial \<and> snd (engine_redial (el_prof l) env l) = Inl CPanic"

text \<open>
  One event of the pump. Its \<open>OnRedial\<close> hook reports before a reconnect, the redial closure
  after one that succeeded.
\<close>

definition pump_ev_step :: "connect_env pump_event \<Rightarrow> eloop \<Rightarrow> eloop \<times> loop_effect list" where
  "pump_ev_step pe l =
     (case pe of
        EvCancel \<Rightarrow> (l, [])
      | EvRun \<Rightarrow>
          (pump_step (engine_redial (el_prof l)) EvRun l,
           if pm_run l = RSess \<and> pm_sess l = None
           then [FxStatus VReconnecting (DText ''connection dropped by the network; reconnecting'') (client_ip l)] else [])
      | EvRedial env \<Rightarrow>
          if redial_panics env l then (lgoto LCrash l, [])
          else
            let l' = pump_step (engine_redial (el_prof l)) (EvRedial env) l
            in (l', if pm_run l = RDial \<and> (case pm_run l' of RCheck _ \<Rightarrow> True | _ \<Rightarrow> False)
                    then [FxStatus VConnected (DText ''reconnected'') (client_ip l)] else [])
      | _ \<Rightarrow> (pump_step (engine_redial (el_prof l)) pe l, []))"

definition pump_on_step :: "loop_env \<Rightarrow> eloop \<Rightarrow> eloop \<times> loop_effect list" where
  "pump_on_step ev l =
     (case el_pc l of
        LUp i \<Rightarrow> (lgoto (LNewPump i) l, [FxStatus VConnected (DText ''connected'') (client_ip l)])
      | LNewPump i \<Rightarrow> (lgoto LPump (Pump_Run (NewPump (Some i) True l)), [FxPump])
      | LPump \<Rightarrow>
          (case pm_run l of
             RDone r \<Rightarrow>
               (lgoto (LPumpEnd (if ctx_done l then ECancelled else EPump r))
                  (l\<lparr>el_stale := (if pm_tun l = TDone \<or> pm_tun l = TErr then el_stale l else el_stale l + 1)\<rparr>), [])
           | _ \<Rightarrow> (case ev of LPumpEv pe \<Rightarrow> pump_ev_step pe l | _ \<Rightarrow> (l, [])))
      | LPumpEnd e \<Rightarrow> (lgoto (LCleanup e) l, [FxNoPump])
      | LCleanup e \<Rightarrow> (lgoto (LReturned e) (l\<lparr>el_net := el_net l - {V6Default, FullRoute}\<rparr>), [])
      | _ \<Rightarrow> (l, []))"

section \<open>Retrying and returning\<close>

definition ks_backoff :: "int \<Rightarrow> int" where
  "ks_backoff b = (if b < 15 then 2 * b else b)"

definition retry_step :: "loop_env \<Rightarrow> eloop \<Rightarrow> eloop \<times> loop_effect list" where
  "retry_step ev l =
     (case el_pc l of
        LKsTop \<Rightarrow>
          if ctx_done l then (lgoto (LUnwind ECancelled) l, [])
          else (lgoto LDial l, [FxStatus VConnecting (DText ''kill switch on; dialing server'') []])
      | LReturned e \<Rightarrow>
          if \<not> el_ks l then (lgoto (LUnwind e) l, [])
          else if ctx_done l then (lgoto (LUnwind ECancelled) l, [])
          else (lgoto LSleep l, [FxStatus VReconnecting (DKillSwitch (Some e)) []])
      | LSleep \<Rightarrow>
          (case ev of
             LTimer fired \<Rightarrow>
               if fired then (lgoto LKsTop (l\<lparr>el_backoff := ks_backoff (el_backoff l)\<rparr>), [])
               else if ctx_done l then (lgoto (LUnwind ECancelled) l, [])
               else (l, [])
           | _ \<Rightarrow> (l, []))
      | _ \<Rightarrow> (l, []))"

text \<open>The deferred calls: routes, the device (its readers end with it), then those of \<open>loop\<close>.\<close>

definition end_step :: "eloop \<Rightarrow> eloop \<times> loop_effect list" where
  "end_step l =
     (case el_pc l of
        LUnwind e \<Rightarrow> (lgoto (LEnd e) (l\<lparr>el_net := {}, el_stale := 0\<rparr>), [])
      | LEnd e \<Rightarrow> (lgoto LCancelNil l, if ctx_done l then [] else [FxStatus VError (DError e) []])
      | LCancelNil \<Rightarrow> (lgoto LFinish l, [FxNoCancel])
      | LFinish \<Rightarrow> (lgoto LDone l, if ctx_done l then [FxStatus VDisconnected (DText ''disconnected'') []] else [])
      | _ \<Rightarrow> (l, []))"

text \<open>A reader left over from an earlier pump: it drops what it reads until the context is done.\<close>

definition stale_step :: "bytes list \<Rightarrow> eloop \<Rightarrow> eloop" where
  "stale_step pkts l =
     (if el_stale l = 0 then l
      else if ctx_done l then l\<lparr>el_stale := el_stale l - 1\<rparr>
      else l\<lparr>el_lost := el_lost l @ pkts\<rparr>)"

section \<open>The loop\<close>

definition loop_move :: "store_env \<Rightarrow> disk \<Rightarrow> loop_env \<Rightarrow> eloop \<Rightarrow> eloop \<times> loop_effect list" where
  "loop_move se d ev l =
     (case el_pc l of
        LStart \<Rightarrow> (setup_step se d ev l, []) | LLoad \<Rightarrow> (setup_step se d ev l, [])
      | LTun \<Rightarrow> (setup_step se d ev l, []) | LKsUp \<Rightarrow> (setup_step se d ev l, [])
      | LKsRoute \<Rightarrow> (setup_step se d ev l, []) | LKsV6 \<Rightarrow> (setup_step se d ev l, [])
      | LKsTop \<Rightarrow> retry_step ev l | LReturned _ \<Rightarrow> retry_step ev l | LSleep \<Rightarrow> retry_step ev l
      | LDial \<Rightarrow> (dial_step ev l, []) | LAssigned i \<Rightarrow> (assigned_step i l, [])
      | LIfUp _ \<Rightarrow> (net_step ev l, []) | LRoute _ \<Rightarrow> (net_step ev l, []) | LV6 _ \<Rightarrow> (net_step ev l, [])
      | LUp _ \<Rightarrow> pump_on_step ev l | LNewPump _ \<Rightarrow> pump_on_step ev l | LPump \<Rightarrow> pump_on_step ev l
      | LPumpEnd _ \<Rightarrow> pump_on_step ev l | LCleanup _ \<Rightarrow> pump_on_step ev l
      | LDone \<Rightarrow> (l, []) | LCrash \<Rightarrow> (l, [])
      | _ \<Rightarrow> end_step l)"

definition loop_step :: "store_env \<Rightarrow> disk \<Rightarrow> loop_env \<Rightarrow> eloop \<Rightarrow> eloop \<times> loop_effect list" where
  "loop_step se d ev l = (case ev of LStaleRead pkts \<Rightarrow> (stale_step pkts l, []) | _ \<Rightarrow> loop_move se d ev l)"

definition new_loop :: eloop where
  "new_loop =
     \<lparr>w_next = 0, w_open = {}, sessions = [], ctx_done = False,
      pm_sess = None, pm_dev = False, pm_tunErr = None, pm_backoff = 1, pm_run = RDone PNoDevice, pm_tun = TDone,
      pm_sent = [], pm_delivered = [], el_pc = LStart, el_ks = False, el_prof = empty_profile,
      el_v4 = no_prefix, el_v6 = no_prefix, el_backoff = 1, el_net = {}, el_stale = 0, el_lost = []\<rparr>"

definition cancel_loop :: "eloop \<Rightarrow> eloop" where
  "cancel_loop l = l\<lparr>ctx_done := True\<rparr>"

end
