(* ===== verification/EngineLoopProps.thy ===== *)
theory EngineLoopProps
  imports EngineLoop
begin

text \<open>
  The connection loop under every outcome of its calls and a cancellation at any moment: its
  sessions, device and routes, the kill switch, and how it ends.
\<close>

section \<open>Reachable loops\<close>

definition good_loop_env :: "loop_env \<Rightarrow> bool" where
  "good_loop_env ev =
     (case ev of LConnect env \<Rightarrow> good_env env | LPumpEv (EvRedial env) \<Rightarrow> good_env env | _ \<Rightarrow> True)"

inductive loop_reach :: "store_env \<Rightarrow> eloop \<Rightarrow> bool" for se where
  start: "loop_reach se new_loop"
| step: "loop_reach se l \<Longrightarrow> good_loop_env ev \<Longrightarrow> loop_reach se (fst (loop_step se d ev l))"
| cancel: "loop_reach se l \<Longrightarrow> loop_reach se (cancel_loop l)"

section \<open>Frames\<close>

lemma more_engine:
  assumes "pump.more u = pump.more (l :: eloop)"
  shows "el_pc u = el_pc l" "el_ks u = el_ks l" "el_prof u = el_prof l" "el_v4 u = el_v4 l" "el_v6 u = el_v6 l"
    "el_backoff u = el_backoff l" "el_net u = el_net l" "el_stale u = el_stale l" "el_lost u = el_lost l"
  using assms by (cases l; cases u; simp)+

lemma lgoto_sel [simp]:
  "w_open (lgoto pc l) = w_open l" "w_next (lgoto pc l) = w_next l" "sessions (lgoto pc l) = sessions l"
  "ctx_done (lgoto pc l) = ctx_done l" "pm_sess (lgoto pc l) = pm_sess l" "pm_dev (lgoto pc l) = pm_dev l"
  "pm_tunErr (lgoto pc l) = pm_tunErr l" "pm_run (lgoto pc l) = pm_run l" "pm_tun (lgoto pc l) = pm_tun l"
  "el_pc (lgoto pc l) = pc" "el_ks (lgoto pc l) = el_ks l" "el_prof (lgoto pc l) = el_prof l"
  "el_v4 (lgoto pc l) = el_v4 l" "el_v6 (lgoto pc l) = el_v6 l" "el_backoff (lgoto pc l) = el_backoff l"
  "el_net (lgoto pc l) = el_net l" "el_stale (lgoto pc l) = el_stale l" "el_lost (lgoto pc l) = el_lost l"
  by (simp_all add: lgoto_def)

lemma engine_redial_ok: "redial_ok good_env (engine_redial prof)"
proof -
  have "redial_ok good_dial connect_redial" by (rule connect_redial_ok)
  then show ?thesis
    unfolding redial_ok_def engine_redial_def by (blast intro: good_dial_env[THEN iffD2])
qed

lemma more_pump_step:
  fixes l :: eloop
  shows "pump.more (pump_step (engine_redial prof) ev l) = (if ev = EvCancel then pump.more l else pump.more l)"
proof (cases ev)
  case (EvRedial d)
  obtain q r where q: "connect_redial (d, prof, False, False) l = (q, r)" by (cases "connect_redial (d, prof, False, False) l")
  from more_connect_redial[OF q] q EvRedial show ?thesis
    by (cases r) (auto simp: redial_step_def engine_redial_def)
qed simp_all

lemma loop_step_move: "\<nexists>pkts. ev = LStaleRead pkts \<Longrightarrow> loop_step se d ev l = loop_move se d ev l"
  by (cases ev) (simp_all add: loop_step_def)

section \<open>Sessions\<close>

text \<open>The session a connecting loop holds.\<close>

fun held :: "loop_pc \<Rightarrow> nat option" where
  "held (LAssigned i) = Some i" | "held (LIfUp i) = Some i" | "held (LRoute i) = Some i"
| "held (LV6 i) = Some i" | "held (LUp i) = Some i" | "held (LNewPump i) = Some i"
| "held _ = None"

definition sess_ok :: "eloop \<Rightarrow> bool" where
  "sess_ok l \<longleftrightarrow>
     (case el_pc l of LPump \<Rightarrow> pump_inv {} l | LCrash \<Rightarrow> True | pc \<Rightarrow> pump_ready {} (held pc) l)"

lemma pump_inv_cong:
  assumes eq: "w_open m' = w_open m" "w_next m' = w_next m" "sessions m' = sessions m" "pm_sess m' = pm_sess m"
      "pm_run m' = pm_run m" "pm_tunErr m' = pm_tunErr m"
    and c: "ctx_done m \<Longrightarrow> ctx_done m'" and i: "pump_inv B m"
  shows "pump_inv B m'"
proof (rule pump_invI)
  show "acc B m'" using pump_invD(1)[OF i] eq(1-3) by (rule acc_cong)
  show "result_ok m' r" if "pm_run m' = RReturn r \<or> pm_run m' = RDone r" for r
  proof -
    have "result_ok m r" using pump_invD(6)[OF i] that unfolding eq by blast
    then show ?thesis using eq(6) c by (cases r) (auto simp: result_ok_def)
  qed
  show "pm_sess m' = Some k \<or> run_holds (pm_run m') = Some k"
    if "k < length (sessions m')" "\<not> ss_done (sessions m' ! k)" for k
    using pump_invD(2)[OF i] that unfolding eq by blast
  show "pm_sess m' = None" if "no_sess_pc (pm_run m')" using pump_invD(3)[OF i] that unfolding eq by blast
  show "k < length (sessions m')" if "pm_sess m' = Some k" for k using pump_invD(4)[OF i] that unfolding eq by blast
  show "k < length (sessions m')" if "run_holds (pm_run m') = Some k" for k
    using pump_invD(5)[OF i] that unfolding eq by blast
qed

lemma pump_ready_quiet: "pump_ready B None m \<Longrightarrow> w_open m = B"
  using all_done_quiet[of B m] by (auto simp: pump_ready_def)

lemma pump_done_ready:
  assumes "pump_inv B p" "pm_run p = RDone r"
  shows "pump_ready B None p"
  using pump_invD(1)[OF assms(1)] pump_invD(2)[OF assms(1)] pump_invD(3)[OF assms(1)] assms(2)
  by (auto simp: pump_ready_def no_sess_pc_def)

lemma pump_ready_close:
  assumes "pump_ready B (Some i) m"
  shows "pump_ready B None (close_session i m)"
proof -
  have i: "acc B m" "i < length (sessions m)" using assms by (auto simp: pump_ready_def)
  have "ss_done (sessions (close_session i m) ! j)" if "j < length (sessions m)" for j
    using assms that by (cases "j = i") (auto simp: pump_ready_def close_session_eq)
  then show ?thesis using acc_close_session[OF i] by (auto simp: pump_ready_def)
qed

lemma pump_ready_dial:
  assumes "pump_ready B None m" "good_env env" "connect_redial (env, prof, False, False) m = (m', r)"
  shows "case r of Inl _ \<Rightarrow> pump_ready B None m' | Inr i \<Rightarrow> pump_ready B (Some i) m'"
proof -
  have a: "acc B m" and d: "\<And>i. i < length (sessions m) \<Longrightarrow> ss_done (sessions m ! i)"
    using assms(1) by (auto simp: pump_ready_def)
  note ok = alloc_session_ok[OF good_dial_env[THEN iffD2, OF assms(2)] a assms(3)[unfolded connect_redial_def]]
  show ?thesis
  proof (cases r)
    case (Inl e)
    with ok d show ?thesis by (auto simp: pump_ready_def)
  next
    case (Inr i)
    with ok have i: "i = length (sessions m)" "length (sessions m') = Suc i" "take i (sessions m') = sessions m" "acc B m'" by auto
    have "ss_done (sessions m' ! j)" if "j < i" for j
      using d[of j] that i by (metis nth_take)
    with i Inr show ?thesis by (auto simp: pump_ready_def less_Suc_eq)
  qed
qed

lemma ready_fields [simp]:
  fixes l :: eloop
  shows "pump_ready B s (lgoto pc l) = pump_ready B s l"
    "pump_ready B s (l\<lparr>el_ks := a\<rparr>) = pump_ready B s l" "pump_ready B s (l\<lparr>el_prof := b\<rparr>) = pump_ready B s l"
    "pump_ready B s (l\<lparr>el_net := c\<rparr>) = pump_ready B s l" "pump_ready B s (l\<lparr>el_backoff := x\<rparr>) = pump_ready B s l"
    "pump_ready B s (l\<lparr>el_stale := n\<rparr>) = pump_ready B s l" "pump_ready B s (l\<lparr>el_lost := ps\<rparr>) = pump_ready B s l"
    "pump_ready B s (l\<lparr>el_v4 := v\<rparr>) = pump_ready B s l" "pump_ready B s (l\<lparr>el_v6 := v\<rparr>) = pump_ready B s l"
    "pump_ready B s (cancel_loop l) = pump_ready B s l"
  by (rule pump_ready_same; simp add: cancel_loop_def)+

lemma sess_okI: "pump_ready {} (held (el_pc l)) l \<Longrightarrow> el_pc l \<noteq> LPump \<Longrightarrow> sess_ok l"
  by (cases "el_pc l"; simp add: sess_ok_def)

lemma sess_okD: "sess_ok l \<Longrightarrow> el_pc l \<noteq> LPump \<Longrightarrow> el_pc l \<noteq> LCrash \<Longrightarrow> pump_ready {} (held (el_pc l)) l"
  by (cases "el_pc l"; simp add: sess_ok_def)

lemma ready_setup:
  "pump_ready {} None l \<Longrightarrow> held (el_pc l) = None \<Longrightarrow>
   pump_ready {} None (setup_step se d ev l) \<and> held (el_pc (setup_step se d ev l)) = None \<and>
   (el_pc l \<noteq> LPump \<longrightarrow> el_pc (setup_step se d ev l) \<noteq> LPump)"
  by (cases "el_pc l"; cases ev; simp add: setup_step_def split: sum.split)

lemma ready_retry:
  "pump_ready {} None l \<Longrightarrow> held (el_pc l) = None \<Longrightarrow>
   pump_ready {} None (fst (retry_step ev l)) \<and> held (el_pc (fst (retry_step ev l))) = None \<and>
   (el_pc l \<noteq> LPump \<longrightarrow> el_pc (fst (retry_step ev l)) \<noteq> LPump)"
  by (cases "el_pc l"; cases ev; simp add: retry_step_def)

lemma ready_end:
  "pump_ready {} None l \<Longrightarrow> held (el_pc l) = None \<Longrightarrow>
   pump_ready {} None (fst (end_step l)) \<and> held (el_pc (fst (end_step l))) = None \<and>
   (el_pc l \<noteq> LPump \<longrightarrow> el_pc (fst (end_step l)) \<noteq> LPump)"
  by (cases "el_pc l"; simp add: end_step_def)

lemma ready_fail: "pump_ready {} (Some i) l \<Longrightarrow> sess_ok (fail_session i e l)"
  by (rule sess_okI) (simp_all add: fail_session_def pump_ready_close)

lemma sess_dial:
  assumes "pump_ready {} None l" "el_pc l = LDial" "good_loop_env ev"
  shows "sess_ok (dial_step ev l)"
proof (cases ev)
  case (LConnect env)
  obtain m r where c: "connect_redial (env, el_prof l, False, False) l = (m, r)"
    by (cases "connect_redial (env, el_prof l, False, False) l")
  have "good_env env" using assms(3) LConnect by (simp add: good_loop_env_def)
  from pump_ready_dial[OF assms(1) this c] show ?thesis
    by (cases r) (auto simp: dial_step_def LConnect c intro!: sess_okI)
qed (use assms(1,2) in \<open>auto simp: dial_step_def intro: sess_okI\<close>)

lemma sess_assigned:
  assumes "pump_ready {} (Some i) l"
  shows "sess_ok (assigned_step i l)"
proof -
  obtain v4 v6 where s: "SplitAssigned (ss_AssignedPrefixes (sessions l ! i)) = (v4, v6)"
    by (cases "SplitAssigned (ss_AssignedPrefixes (sessions l ! i))")
  have "sess_ok (lgoto (LIfUp i) (l\<lparr>el_v4 := v4, el_v6 := v6\<rparr>))" using assms by (intro sess_okI) simp_all
  with s ready_fail[OF assms] show ?thesis by (simp add: assigned_step_def Let_def)
qed

lemma sess_net:
  assumes "pump_ready {} (held (el_pc l)) l" "el_pc l \<noteq> LPump"
  shows "sess_ok (net_step ev l)"
proof -
  have l: "sess_ok l" using assms by (rule sess_okI)
  have f: "sess_ok (fail_session i e (l\<lparr>el_net := n\<rparr>))" "sess_ok (fail_session i e l)" if "held (el_pc l) = Some i" for i e n
    using assms(1) that by (simp_all add: ready_fail)
  have g: "sess_ok (lgoto pc l)" "sess_ok (lgoto pc (l\<lparr>el_net := n\<rparr>))" if "held pc = held (el_pc l)" "pc \<noteq> LPump" for pc n
    using assms(1) that by (auto intro: sess_okI)
  show ?thesis
  proof (cases "el_pc l")
    case (LIfUp i)
    with l f g show ?thesis by (cases ev) (simp_all add: net_step_def)
  next
    case (LRoute i)
    with l f g show ?thesis by (cases ev) (simp_all add: net_step_def)
  next
    case (LV6 i)
    with l f g show ?thesis by (cases ev) (simp_all add: net_step_def)
  qed (use l in \<open>simp_all add: net_step_def\<close>)
qed

lemma sess_pump_fields:
  fixes l :: eloop
  shows "pump_inv {} (l\<lparr>el_lost := x\<rparr>) = pump_inv {} l" "pump_inv {} (l\<lparr>el_stale := n\<rparr>) = pump_inv {} l"
  by (rule iffI; erule pump_inv_cong[rotated -1]; simp)+

lemma sess_pump_ev:
  assumes i: "pump_inv {} l" and pc: "el_pc l = LPump" and g: "good_loop_env (LPumpEv pe)"
  shows "sess_ok (fst (pump_ev_step pe l))"
proof -
  have g': "\<forall>d. pe = EvRedial d \<longrightarrow> good_env d" using g by (auto simp: good_loop_env_def)
  let ?l = "pump_step (engine_redial (el_prof l)) pe l"
  have "pump_inv {} ?l" by (rule pump_inv_step[OF i engine_redial_ok g'])
  moreover have "el_pc ?l = LPump" using more_engine(1)[of ?l l] more_pump_step[of "el_prof l" pe l] pc by simp
  ultimately have s: "sess_ok ?l" by (simp add: sess_ok_def)
  have "sess_ok l" using i pc by (simp add: sess_ok_def)
  moreover have "sess_ok (lgoto LCrash l)" by (simp add: sess_ok_def)
  ultimately show ?thesis using s by (cases pe) (simp_all add: pump_ev_step_def Let_def)
qed

lemma sess_pump_on:
  assumes "sess_ok l" "good_loop_env ev" "el_pc l \<noteq> LCrash"
  shows "sess_ok (fst (pump_on_step ev l))"
proof -
  have r: "pump_ready {} (held (el_pc l)) l" if "el_pc l \<noteq> LPump" using assms(1,3) that by (intro sess_okD)
  show ?thesis
  proof (cases "el_pc l")
    case (LNewPump i)
    have "pump_inv {} (Pump_Run (NewPump (Some i) True l))" using r LNewPump by (intro pump_inv_start) simp
    then have "pump_inv {} (lgoto LPump (Pump_Run (NewPump (Some i) True l)))" by (rule pump_inv_cong[rotated -1]) simp_all
    then show ?thesis by (simp add: pump_on_step_def LNewPump sess_ok_def)
  next
    case LPump
    then have i: "pump_inv {} l" using assms(1) by (simp add: sess_ok_def)
    show ?thesis
    proof (cases "\<exists>r. pm_run l = RDone r")
      case True
      then obtain x where "pm_run l = RDone x" by blast
      with pump_done_ready[OF i this] LPump show ?thesis
        by (auto simp: pump_on_step_def intro!: sess_okI)
    next
      case False
      then have "fst (pump_on_step ev l) = (case ev of LPumpEv pe \<Rightarrow> fst (pump_ev_step pe l) | _ \<Rightarrow> l)"
        using LPump by (simp add: pump_on_step_def split: run_pc.splits loop_env.splits)
      then show ?thesis using sess_pump_ev[OF i LPump] assms(1,2) by (simp split: loop_env.splits)
    qed
  qed (use r assms(1) in \<open>auto simp: pump_on_step_def intro!: sess_okI\<close>)
qed

lemma sess_stale: "sess_ok l \<Longrightarrow> sess_ok (stale_step pkts l)"
  by (cases "el_pc l") (simp_all add: stale_step_def sess_ok_def sess_pump_fields)

lemma sess_ok_step:
  assumes "sess_ok l" "good_loop_env ev"
  shows "sess_ok (fst (loop_step se d ev l))"
proof (cases "\<exists>pkts. ev = LStaleRead pkts")
  case True
  with sess_stale[OF assms(1)] show ?thesis by (auto simp: loop_step_def)
next
  case False
  then have e: "loop_step se d ev l = loop_move se d ev l" by (rule loop_step_move)
  have r: "pump_ready {} (held (el_pc l)) l" if "el_pc l \<noteq> LPump" "el_pc l \<noteq> LCrash" using assms(1) that by (intro sess_okD)
  have su: "sess_ok (setup_step se d ev l)" "sess_ok (fst (retry_step ev l))" "sess_ok (fst (end_step l))"
    if "held (el_pc l) = None" "el_pc l \<noteq> LPump" "el_pc l \<noteq> LCrash"
    using ready_setup[of l se d ev] ready_retry[of l ev] ready_end[of l] r that by (auto intro!: sess_okI)
  show ?thesis
    unfolding e loop_move_def using su sess_dial[OF _ _ assms(2)] sess_assigned sess_net[of l ev] sess_pump_on[OF assms] r assms(1)
    by (cases "el_pc l") simp_all
qed

lemma sess_cancel: "sess_ok l \<Longrightarrow> sess_ok (cancel_loop l)"
proof -
  assume s: "sess_ok l"
  have p: "pump_inv {} (cancel_loop l)" if "pump_inv {} l"
    by (rule pump_inv_cong[rotated -1, OF that]) (simp_all add: cancel_loop_def)
  have "el_pc (cancel_loop l) = el_pc l" by (simp add: cancel_loop_def)
  with s p show ?thesis by (cases "el_pc l") (simp_all add: sess_ok_def)
qed

lemma reach_sess_ok: "loop_reach se l \<Longrightarrow> sess_ok l"
proof (induction rule: loop_reach.induct)
  case start
  show ?case
    by (rule sess_okI) (simp_all add: new_loop_def pump_ready_def acc_def cl.accounts_def world_ok_def)
qed (simp_all add: sess_ok_step sess_cancel)

section \<open>Device and routes\<close>

text \<open>What a loop between two sessions has set up, and what it adds for one without the kill switch.\<close>

definition idle_net :: "bool \<Rightarrow> net_item set \<Rightarrow> bool" where
  "idle_net ks n \<longleftrightarrow> (if ks then n = {TunDev, BlockRoutes} \<or> n = {TunDev, BlockRoutes, BlockV6} else n = {TunDev})"

definition up_net :: "bool \<Rightarrow> net_item set \<Rightarrow> bool" where
  "up_net ks n \<longleftrightarrow> (if ks then idle_net True n else n = {TunDev, FullRoute} \<or> n = {TunDev, FullRoute, V6Default})"

definition net_ok :: "eloop \<Rightarrow> bool" where
  "net_ok l \<longleftrightarrow>
     (case el_pc l of
        LStart \<Rightarrow> el_net l = {} \<and> el_stale l = 0 | LLoad \<Rightarrow> el_net l = {} \<and> el_stale l = 0
      | LTun \<Rightarrow> el_net l = {} \<and> el_stale l = 0
      | LKsUp \<Rightarrow> el_ks l \<and> el_net l = {TunDev} | LKsRoute \<Rightarrow> el_ks l \<and> el_net l = {TunDev}
      | LKsV6 \<Rightarrow> el_ks l \<and> el_net l = {TunDev, BlockRoutes}
      | LKsTop \<Rightarrow> el_ks l \<and> idle_net True (el_net l) | LSleep \<Rightarrow> el_ks l \<and> idle_net True (el_net l)
      | LDial \<Rightarrow> idle_net (el_ks l) (el_net l) | LAssigned _ \<Rightarrow> idle_net (el_ks l) (el_net l)
      | LIfUp _ \<Rightarrow> idle_net (el_ks l) (el_net l) | LRoute _ \<Rightarrow> idle_net (el_ks l) (el_net l)
      | LReturned _ \<Rightarrow> idle_net (el_ks l) (el_net l)
      | LV6 _ \<Rightarrow> (if el_ks l then idle_net True (el_net l) else el_net l = {TunDev, FullRoute})
      | LUp _ \<Rightarrow> up_net (el_ks l) (el_net l) | LNewPump _ \<Rightarrow> up_net (el_ks l) (el_net l)
      | LPump \<Rightarrow> up_net (el_ks l) (el_net l)
      | LPumpEnd _ \<Rightarrow> up_net (el_ks l) (el_net l) | LCleanup _ \<Rightarrow> up_net (el_ks l) (el_net l)
      | LUnwind _ \<Rightarrow> el_ks l \<and> BlockRoutes \<in> el_net l \<longrightarrow> ctx_done l
      | LCrash \<Rightarrow> True
      | _ \<Rightarrow> el_net l = {} \<and> el_stale l = 0)"

lemma net_ok_cong:
  "el_pc l' = el_pc l \<Longrightarrow> el_net l' = el_net l \<Longrightarrow> el_ks l' = el_ks l \<Longrightarrow> el_stale l' = el_stale l \<Longrightarrow>
   (ctx_done l \<Longrightarrow> ctx_done l') \<Longrightarrow> net_ok l \<Longrightarrow> net_ok l'"
  by (cases "el_pc l"; simp add: net_ok_def)

lemma net_close_session [simp]:
  fixes l :: eloop
  shows "el_pc (close_session i l) = el_pc l" "el_net (close_session i l) = el_net l" "el_ks (close_session i l) = el_ks l"
    "el_stale (close_session i l) = el_stale l"
  using more_engine[of "close_session i l" l] by simp_all

lemma net_pump_step:
  fixes l :: eloop
  shows "el_pc (pump_step (engine_redial p) ev l) = el_pc l" "el_net (pump_step (engine_redial p) ev l) = el_net l"
    "el_ks (pump_step (engine_redial p) ev l) = el_ks l" "el_stale (pump_step (engine_redial p) ev l) = el_stale l"
  using more_engine[of "pump_step (engine_redial p) ev l" l] more_pump_step[of p ev l] by simp_all

lemma net_setup: "net_ok l \<Longrightarrow> net_ok (setup_step se d ev l)"
  by (cases "el_pc l"; cases ev; simp add: setup_step_def net_ok_def idle_net_def split: sum.split) auto

lemma net_retry: "net_ok l \<Longrightarrow> net_ok (fst (retry_step ev l))"
  by (cases "el_pc l"; cases ev; auto simp add: retry_step_def net_ok_def idle_net_def)

lemma net_end: "net_ok l \<Longrightarrow> net_ok (fst (end_step l))"
  by (cases "el_pc l"; simp add: end_step_def net_ok_def)

lemma net_dial:
  assumes "net_ok l" "el_pc l = LDial"
  shows "net_ok (dial_step ev l)"
proof (cases ev)
  case (LConnect env)
  obtain m r where c: "connect_redial (env, el_prof l, False, False) l = (m, r)"
    by (cases "connect_redial (env, el_prof l, False, False) l")
  note m = more_engine[OF more_connect_redial[OF c]]
  from assms m show ?thesis by (cases r) (auto simp: dial_step_def LConnect c net_ok_def)
qed (use assms in \<open>simp_all add: dial_step_def\<close>)

lemma net_fail: "idle_net (el_ks l) (el_net l) \<Longrightarrow> net_ok (fail_session i e l)"
  by (simp add: fail_session_def net_ok_def)

lemma net_assigned:
  assumes "net_ok l" "el_pc l = LAssigned i"
  shows "net_ok (assigned_step i l)"
proof -
  have n: "idle_net (el_ks l) (el_net l)" using assms by (simp add: net_ok_def)
  obtain v4 v6 where s: "SplitAssigned (ss_AssignedPrefixes (sessions l ! i)) = (v4, v6)"
    by (cases "SplitAssigned (ss_AssignedPrefixes (sessions l ! i))")
  have "net_ok (lgoto (LIfUp i) (l\<lparr>el_v4 := v4, el_v6 := v6\<rparr>))" using n by (simp add: net_ok_def)
  with s net_fail[OF n] show ?thesis by (simp add: assigned_step_def Let_def)
qed

lemma net_net: "net_ok l \<Longrightarrow> net_ok (net_step ev l)"
  by (cases "el_pc l"; cases ev; auto simp: net_step_def net_ok_def fail_session_def idle_net_def up_net_def)

lemma net_pump_ev: "net_ok l \<Longrightarrow> el_pc l = LPump \<Longrightarrow> net_ok (fst (pump_ev_step pe l))"
  by (cases pe; cases "el_ks l"; simp add: pump_ev_step_def net_ok_def net_pump_step Let_def del: pump_step.simps)

lemma net_new_pump:
  fixes l :: eloop
  shows "el_pc (Pump_Run (NewPump s dev l)) = el_pc l" "el_net (Pump_Run (NewPump s dev l)) = el_net l"
    "el_ks (Pump_Run (NewPump s dev l)) = el_ks l" "el_stale (Pump_Run (NewPump s dev l)) = el_stale l"
  by (auto simp: Pump_Run_def NewPump_def attach_tun_def Let_def split: option.splits)

lemma net_pump_on: "net_ok l \<Longrightarrow> net_ok (fst (pump_on_step ev l))"
proof -
  assume n: "net_ok l"
  show ?thesis
  proof (cases "el_pc l")
    case LPump
    show ?thesis
    proof (cases "\<exists>r. pm_run l = RDone r")
      case True
      with n LPump show ?thesis by (auto simp: pump_on_step_def net_ok_def)
    next
      case False
      then have "fst (pump_on_step ev l) = (case ev of LPumpEv pe \<Rightarrow> fst (pump_ev_step pe l) | _ \<Rightarrow> l)"
        using LPump by (simp add: pump_on_step_def split: run_pc.splits loop_env.splits)
      then show ?thesis using net_pump_ev[OF n LPump] n by (simp split: loop_env.splits)
    qed
  qed (use n in \<open>auto simp: pump_on_step_def net_ok_def net_new_pump up_net_def idle_net_def\<close>)
qed

lemma net_ok_step: "net_ok l \<Longrightarrow> net_ok (fst (loop_step se d ev l))"
proof -
  assume n: "net_ok l"
  have s: "net_ok (stale_step pkts l)" for pkts
    using n by (cases "el_pc l") (auto simp: stale_step_def net_ok_def)
  show ?thesis
    using s net_setup[OF n] net_retry[OF n] net_end[OF n] net_dial[OF n] net_assigned[OF n] net_net[OF n] net_pump_on[OF n] n
    by (cases ev; cases "el_pc l"; simp add: loop_step_def loop_move_def)
qed

lemma reach_net_ok: "loop_reach se l \<Longrightarrow> net_ok l"
proof (induction rule: loop_reach.induct)
  case (cancel l)
  then show ?case by (intro net_ok_cong[of "cancel_loop l" l]) (simp_all add: cancel_loop_def)
qed (simp_all add: net_ok_step, simp add: net_ok_def new_loop_def)

section \<open>What the loop promises\<close>

text \<open>The states from the first dial on in which the loop of an uncancelled context is.\<close>

definition serving :: "loop_pc \<Rightarrow> bool" where
  "serving pc = (case pc of LDial \<Rightarrow> True | LAssigned _ \<Rightarrow> True | LIfUp _ \<Rightarrow> True | LRoute _ \<Rightarrow> True | LV6 _ \<Rightarrow> True
     | LUp _ \<Rightarrow> True | LNewPump _ \<Rightarrow> True | LPump \<Rightarrow> True | LPumpEnd _ \<Rightarrow> True | LCleanup _ \<Rightarrow> True | LReturned _ \<Rightarrow> True
     | LSleep \<Rightarrow> True | LKsTop \<Rightarrow> True | _ \<Rightarrow> False)"

lemma serving_simps [simp]:
  "serving LDial" "serving (LAssigned i)" "serving (LIfUp i)" "serving (LRoute i)" "serving (LV6 i)" "serving (LUp i)"
  "serving (LNewPump i)" "serving LPump" "serving (LPumpEnd e)" "serving (LCleanup e)" "serving (LReturned e)"
  "serving LSleep" "serving LKsTop" "\<not> serving LStart" "\<not> serving LLoad" "\<not> serving LTun" "\<not> serving LKsUp"
  "\<not> serving LKsRoute" "\<not> serving LKsV6" "\<not> serving (LUnwind e)" "\<not> serving (LEnd e)" "\<not> serving LCancelNil"
  "\<not> serving LFinish" "\<not> serving LDone" "\<not> serving LCrash"
  by (simp_all add: serving_def)

lemma open_serving:
  assumes "sess_ok l" "w_open l \<noteq> {}" "el_pc l \<noteq> LCrash"
  shows "held (el_pc l) \<noteq> None \<or> el_pc l = LPump"
  using sess_okD[OF assms(1) _ assms(3)] pump_ready_quiet[of "{}" l] assms(2) by (cases "el_pc l") auto

lemma serving_net:
  "net_ok l \<Longrightarrow> serving (el_pc l) \<Longrightarrow> el_ks l \<Longrightarrow> TunDev \<in> el_net l \<and> BlockRoutes \<in> el_net l"
  by (cases "el_pc l") (auto simp: net_ok_def idle_net_def up_net_def)

lemma blocked_pc:
  "net_ok l \<Longrightarrow> el_ks l \<Longrightarrow> BlockRoutes \<in> el_net l \<Longrightarrow> \<not> ctx_done l \<Longrightarrow> serving (el_pc l) \<or> el_pc l = LKsV6 \<or> el_pc l = LCrash"
  by (cases "el_pc l") (auto simp: net_ok_def)

text \<open>No step moves a serving, uncancelled loop with the kill switch out of service.\<close>

lemma serving_step:
  assumes "serving (el_pc l) \<or> el_pc l = LKsV6" "el_ks l" "\<not> ctx_done l"
  shows "serving (el_pc (fst (loop_step se d ev l))) \<or> el_pc (fst (loop_step se d ev l)) = LKsV6 \<or>
    el_pc (fst (loop_step se d ev l)) = LCrash"
proof -
  have dial: "el_pc (dial_step ev l) = LDial \<or> serving (el_pc (dial_step ev l)) \<or> el_pc (dial_step ev l) = LCrash" if "el_pc l = LDial"
    using that by (auto simp: dial_step_def split: loop_env.splits prod.splits sum.splits)
  have pump: "serving (el_pc (fst (pump_ev_step pe l))) \<or> el_pc (fst (pump_ev_step pe l)) = LCrash" if "el_pc l = LPump" for pe
    using that by (cases pe) (simp_all add: pump_ev_step_def net_pump_step Let_def del: pump_step.simps)
  have on: "serving (el_pc (fst (pump_on_step ev l))) \<or> el_pc (fst (pump_on_step ev l)) = LCrash" if "el_pc l = LPump"
  proof (cases "\<exists>r. pm_run l = RDone r")
    case True
    with that show ?thesis by (auto simp: pump_on_step_def)
  next
    case False
    then have "fst (pump_on_step ev l) = (case ev of LPumpEv pe \<Rightarrow> fst (pump_ev_step pe l) | _ \<Rightarrow> l)"
      using that by (simp add: pump_on_step_def split: run_pc.splits loop_env.splits)
    then show ?thesis using pump that by (auto simp: split: loop_env.splits)
  qed
  have on': "serving (el_pc (fst (pump_on_step ev l))) \<or> el_pc (fst (pump_on_step ev l)) = LCrash"
    if "el_pc l \<in> {LUp i, LNewPump i, LPump, LPumpEnd e, LCleanup e}" for i e
    using that on by (cases "el_pc l = LPump") (auto simp: pump_on_step_def)
  have stale: "el_pc (stale_step pkts l) = el_pc l" for pkts by (simp add: stale_step_def)
  have fail: "el_pc (fail_session i e m) = LReturned e" for i e m by (simp add: fail_session_def)
  have asg: "serving (el_pc (assigned_step i l))" for i
    by (auto simp: assigned_step_def Let_def fail split: prod.splits)
  have net: "serving (el_pc (net_step ev l))" if "serving (el_pc l)"
    using that assms(2) by (cases "el_pc l"; cases ev) (auto simp: net_step_def fail)
  show ?thesis
  proof (cases "\<exists>pkts. ev = LStaleRead pkts")
    case True
    with assms(1) stale show ?thesis by (auto simp: loop_step_def)
  next
    case False
    then have e: "loop_step se d ev l = loop_move se d ev l" by (rule loop_step_move)
    have ret: "serving (el_pc (fst (retry_step ev l)))" if "serving (el_pc l)"
      using that assms(2,3) by (cases "el_pc l"; cases ev) (auto simp: retry_step_def)
    have v6: "serving (el_pc (setup_step se d ev l)) \<or> el_pc (setup_step se d ev l) = LKsV6" if "el_pc l = LKsV6"
      using that by (cases ev) (auto simp: setup_step_def)
    show ?thesis
      unfolding e loop_move_def using assms(1) dial on' asg net ret v6 by (cases "el_pc l") auto
  qed
qed

end
