(* ===== verification/EngineRuns.thy ===== *)
theory EngineRuns
  imports EngineLoopProps
begin

text \<open>
  Runs of the connection loop: what a loop that ends leaves behind, the kill switch over a
  whole run, and how a cancelled loop ends.
\<close>

definition loop_exec :: "store_env \<Rightarrow> (disk \<times> loop_env) list \<Rightarrow> eloop \<Rightarrow> eloop" where
  "loop_exec se evs l = fold (\<lambda>(d, ev) l. fst (loop_step se d ev l)) evs l"

definition good_run :: "(disk \<times> loop_env) list \<Rightarrow> bool" where
  "good_run evs = list_all (\<lambda>(d, ev). good_loop_env ev) evs"

lemma loop_exec_simps [simp]:
  "loop_exec se [] l = l" "loop_exec se ((d, ev) # evs) l = loop_exec se evs (fst (loop_step se d ev l))"
  by (simp_all add: loop_exec_def)

lemma good_run_simps [simp]:
  "good_run []" "good_run ((d, ev) # evs) \<longleftrightarrow> good_loop_env ev \<and> good_run evs"
  by (simp_all add: good_run_def)

lemma reach_exec: "loop_reach se l \<Longrightarrow> good_run evs \<Longrightarrow> loop_reach se (loop_exec se evs l)"
proof (induction evs arbitrary: l)
  case (Cons e evs)
  then show ?case by (cases e) (simp add: loop_reach.step)
qed simp

section \<open>What a step leaves alone\<close>

lemma ctx_close_session [simp]: "ctx_done (close_session i m) = ctx_done m"
  by (simp add: close_session_eq)

lemma ctx_fail [simp]: "ctx_done (fail_session i e l) = ctx_done l" "el_ks (fail_session i e l) = el_ks l"
    "pm_run (fail_session i e l) = pm_run l" "el_pc (fail_session i e l) = LReturned e"
  by (simp_all add: fail_session_def close_session_eq)

lemma ctx_pump_step: "ev \<noteq> EvCancel \<Longrightarrow> ctx_done (pump_step (engine_redial prof) ev l) = ctx_done (l :: eloop)"
  by (cases ev) (auto simp: redial_step_def engine_redial_def dest: ctx_connect_redial split: prod.splits sum.splits)

lemma ctx_pump_ev: "ctx_done (fst (pump_ev_step pe l)) = ctx_done l \<and> el_ks (fst (pump_ev_step pe l)) = el_ks l"
  by (cases pe) (simp_all add: pump_ev_step_def Let_def ctx_pump_step net_pump_step del: pump_step.simps)

lemma ctx_pump_on: "ctx_done (fst (pump_on_step ev l)) = ctx_done l \<and> el_ks (fst (pump_on_step ev l)) = el_ks l"
proof (cases "el_pc l")
  case LPump
  then show ?thesis
    using ctx_pump_ev by (cases "pm_run l"; cases ev; simp add: pump_on_step_def)
qed (simp_all add: pump_on_step_def net_new_pump(3), simp add: Pump_Run_def NewPump_def)

lemma ctx_dial: "ctx_done (dial_step ev l) = ctx_done l \<and> el_ks (dial_step ev l) = el_ks l"
proof (cases ev)
  case (LConnect env)
  obtain m r where c: "connect_redial (env, el_prof l, False, False) l = (m, r)"
    by (cases "connect_redial (env, el_prof l, False, False) l")
  from ctx_connect_redial[OF c] more_engine[OF more_connect_redial[OF c]] show ?thesis
    by (cases r) (simp_all add: dial_step_def LConnect c)
qed (simp_all add: dial_step_def)

lemma ctx_loop_step: "ctx_done (fst (loop_step se d ev l)) = ctx_done l"
proof -
  have "ctx_done (fst (loop_move se d ev l)) = ctx_done l"
    using ctx_pump_on[of ev l] ctx_dial[of ev l]
    by (cases "el_pc l"; cases ev; simp add: loop_move_def setup_step_def retry_step_def assigned_step_def net_step_def
        end_step_def Let_def split: sum.split prod.split)
  then show ?thesis by (cases ev) (simp_all add: loop_step_def stale_step_def)
qed

lemma ks_loop_step: "el_pc l \<noteq> LStart \<Longrightarrow> el_ks (fst (loop_step se d ev l)) = el_ks l"
proof -
  assume "el_pc l \<noteq> LStart"
  then have "el_ks (fst (loop_move se d ev l)) = el_ks l"
    using ctx_pump_on[of ev l] ctx_dial[of ev l]
    by (cases "el_pc l"; cases ev; simp add: loop_move_def setup_step_def retry_step_def assigned_step_def net_step_def
        end_step_def Let_def split: sum.split prod.split)
  then show ?thesis by (cases ev) (simp_all add: loop_step_def stale_step_def)
qed

lemma started_step: "el_pc l \<noteq> LStart \<Longrightarrow> serving (el_pc l) \<or> el_pc l = LKsV6 \<Longrightarrow> el_ks l \<Longrightarrow> \<not> ctx_done l \<Longrightarrow>
    (let l' = fst (loop_step se d ev l)
     in (serving (el_pc l') \<or> el_pc l' = LKsV6 \<or> el_pc l' = LCrash) \<and> el_ks l' \<and> \<not> ctx_done l')"
  using serving_step[of l se d ev] ks_loop_step[of l se d ev] ctx_loop_step[of se d ev l] by (simp add: Let_def)

lemma crash_step: "el_pc l = LCrash \<Longrightarrow> el_pc (fst (loop_step se d ev l)) = LCrash"
  by (cases ev) (simp_all add: loop_step_def loop_move_def stale_step_def)

lemma serving_exec:
  "good_run evs \<Longrightarrow> serving (el_pc l) \<or> el_pc l = LKsV6 \<Longrightarrow> el_ks l \<Longrightarrow> \<not> ctx_done l \<Longrightarrow>
   (let l' = loop_exec se evs l in el_pc l' = LCrash \<or> ((serving (el_pc l') \<or> el_pc l' = LKsV6) \<and> el_ks l'))"
proof (induction evs arbitrary: l)
  case (Cons e evs)
  obtain d ev where e: "e = (d, ev)" by (cases e)
  let ?l = "fst (loop_step se d ev l)"
  have crash: "el_pc (loop_exec se evs m) = LCrash" if "el_pc m = LCrash" for m
    using that by (induction evs arbitrary: m) (auto simp: crash_step)
  have "el_pc l \<noteq> LStart" using Cons.prems(2) by auto
  note st = started_step[OF this Cons.prems(2-4), of se d ev, unfolded Let_def]
  show ?case
  proof (cases "el_pc ?l = LCrash")
    case True
    with crash e show ?thesis by simp
  next
    case False
    with st Cons.IH[of ?l] Cons.prems(1) e show ?thesis by auto
  qed
qed simp

section \<open>What a loop leaves behind\<close>

lemma at_most_one: "(\<And>a b. P a \<Longrightarrow> P b \<Longrightarrow> a = b) \<Longrightarrow> \<exists>i. {k. P k} \<subseteq> {i}"
  by (cases "\<exists>a. P a") (auto intro: exI)


section \<open>The kill switch\<close>


section \<open>Cancellation\<close>

text \<open>How far a cancelled loop is from its end.\<close>

definition loop_rank :: "eloop \<Rightarrow> nat" where
  "loop_rank l =
     (case el_pc l of
        LDone \<Rightarrow> 0 | LCrash \<Rightarrow> 0 | LFinish \<Rightarrow> 1 | LCancelNil \<Rightarrow> 2 | LEnd _ \<Rightarrow> 3 | LUnwind _ \<Rightarrow> 4
      | LKsTop \<Rightarrow> 5 | LReturned _ \<Rightarrow> 5 | LSleep \<Rightarrow> 6 | LCleanup _ \<Rightarrow> 6 | LPumpEnd _ \<Rightarrow> 7
      | LPump \<Rightarrow> 8 + run_rank (pm_run l) | LNewPump _ \<Rightarrow> 17 | LUp _ \<Rightarrow> 18 | LV6 _ \<Rightarrow> 19 | LRoute _ \<Rightarrow> 20
      | LIfUp _ \<Rightarrow> 21 | LAssigned _ \<Rightarrow> 22 | LDial \<Rightarrow> 23 | LKsV6 \<Rightarrow> 24 | LKsRoute \<Rightarrow> 25 | LKsUp \<Rightarrow> 26 | LTun \<Rightarrow> 27
      | LLoad \<Rightarrow> 28 | LStart \<Rightarrow> 29)"

text \<open>Where the loop is: its next statement, and within \<open>Run\<close> that of the pump.\<close>

definition loop_at :: "eloop \<Rightarrow> loop_pc \<times> run_pc option" where
  "loop_at l = (el_pc l, if el_pc l = LPump then Some (pm_run l) else None)"

fun loop_moves :: "store_env \<Rightarrow> (disk \<times> loop_env) list \<Rightarrow> eloop \<Rightarrow> nat" where
  "loop_moves se [] l = 0"
| "loop_moves se ((d, ev) # evs) l =
     (let l' = fst (loop_step se d ev l) in (if loop_at l' \<noteq> loop_at l then 1 else 0) + loop_moves se evs l')"

lemma loop_rank_bound: "loop_rank l \<le> 29"
  using run_rank_bound[of "pm_run l"] by (cases "el_pc l") (simp_all add: loop_rank_def)

definition moves_on :: "eloop \<Rightarrow> eloop \<Rightarrow> bool" where
  "moves_on l l' \<longleftrightarrow> loop_at l' = loop_at l \<or> loop_rank l' < loop_rank l"

lemma moves_pump_ev:
  assumes c: "ctx_done l" and i: "pump_inv {} l" and pc: "el_pc l = LPump" and g: "good_loop_env (LPumpEv pe)"
  shows "moves_on l (fst (pump_ev_step pe l))"
proof -
  have g': "\<forall>d. pe = EvRedial d \<longrightarrow> good_env d" using g by (auto simp: good_loop_env_def)
  from cancelled_step[OF c i engine_redial_ok g', of "el_prof l"]
  have "moves_on l (pump_step (engine_redial (el_prof l)) pe l)"
    using pc by (auto simp: moves_on_def loop_at_def loop_rank_def net_pump_step simp del: pump_step.simps)
  moreover have "moves_on l (lgoto LCrash l)" using pc by (simp add: moves_on_def loop_rank_def)
  ultimately show ?thesis
    by (cases pe) (simp_all add: pump_ev_step_def Let_def moves_on_def del: pump_step.simps)
qed

lemma moves_pump_on:
  assumes "ctx_done l" "sess_ok l" "good_loop_env ev"
  shows "moves_on l (fst (pump_on_step ev l))"
proof (cases "el_pc l")
  case LPump
  then have i: "pump_inv {} l" using assms(2) by (simp add: sess_ok_def)
  show ?thesis
  proof (cases "\<exists>r. pm_run l = RDone r")
    case True
    with LPump show ?thesis by (auto simp: pump_on_step_def moves_on_def loop_rank_def)
  next
    case False
    then have "fst (pump_on_step ev l) = (case ev of LPumpEv pe \<Rightarrow> fst (pump_ev_step pe l) | _ \<Rightarrow> l)"
      using LPump by (simp add: pump_on_step_def split: run_pc.splits loop_env.splits)
    then show ?thesis using moves_pump_ev[OF assms(1) i LPump] assms(3) by (simp add: moves_on_def split: loop_env.splits)
  qed
next
  case (LNewPump i)
  then show ?thesis by (simp add: pump_on_step_def moves_on_def loop_rank_def Pump_Run_def NewPump_def)
qed (simp_all add: pump_on_step_def moves_on_def loop_rank_def)

lemma moves_dial: "el_pc l = LDial \<Longrightarrow> moves_on l (dial_step ev l)"
  by (cases ev) (auto simp: dial_step_def moves_on_def loop_rank_def split: prod.split sum.split)

lemma moves_step:
  assumes "ctx_done l" "sess_ok l" "good_loop_env ev"
  shows "moves_on l (fst (loop_step se d ev l))"
proof -
  have "moves_on l (fst (loop_move se d ev l))"
    using moves_pump_on[OF assms] moves_dial[of l ev] assms(1)
    by (cases "el_pc l"; cases ev; simp add: loop_move_def setup_step_def retry_step_def assigned_step_def net_step_def
        end_step_def moves_on_def loop_rank_def loop_at_def fail_session_def Let_def split: sum.split prod.split)
  moreover have "moves_on l (stale_step pkts l)" for pkts
    by (simp add: stale_step_def moves_on_def loop_at_def)
  ultimately show ?thesis by (cases ev) (simp_all add: loop_step_def)
qed

lemma moves_rank:
  "loop_reach se l \<Longrightarrow> ctx_done l \<Longrightarrow> good_run evs \<Longrightarrow> loop_moves se evs l + loop_rank (loop_exec se evs l) \<le> loop_rank l"
proof (induction evs arbitrary: l)
  case (Cons e evs)
  obtain d ev where e: "e = (d, ev)" by (cases e)
  let ?l = "fst (loop_step se d ev l)"
  have g: "good_loop_env ev" "good_run evs" using Cons.prems(3) e by simp_all
  have "loop_moves se evs ?l + loop_rank (loop_exec se evs ?l) \<le> loop_rank ?l"
    using Cons.IH[OF loop_reach.step[OF Cons.prems(1) g(1)] _ g(2)] Cons.prems(2) by (simp add: ctx_loop_step)
  moreover have "loop_at ?l = loop_at l \<Longrightarrow> loop_rank ?l = loop_rank l"
    by (auto simp: loop_at_def loop_rank_def split: if_splits loop_pc.splits)
  ultimately show ?case
    using moves_step[OF Cons.prems(2) reach_sess_ok[OF Cons.prems(1)] g(1), of se d] e by (auto simp: moves_on_def Let_def)
qed simp

lemma loop_enabled:
  assumes c: "ctx_done l" and n: "el_pc l \<noteq> LDone" "el_pc l \<noteq> LCrash"
  shows "\<exists>ev \<in> {LOs True True, LConnect env, LTimer False, LPumpEv EvRun, LPumpEv (EvTimer False), LPumpEv EvConnErr,
      LPumpEv (EvRedial env)}. loop_at (fst (loop_step se d ev l)) \<noteq> loop_at l"
proof (cases "el_pc l = LPump")
  case True
  show ?thesis
  proof (cases "\<exists>r. pm_run l = RDone r")
    case True
    with \<open>el_pc l = LPump\<close> show ?thesis by (auto simp: loop_step_def loop_move_def pump_on_step_def loop_at_def)
  next
    case False
    then obtain pe where pe: "pe \<in> {EvRun, EvTimer False, EvConnErr, EvRedial env}"
      "pm_run (pump_step (engine_redial (el_prof l)) pe l) \<noteq> pm_run l"
      using run_enabled[OF c, of env "engine_redial (el_prof l)"] by blast
    have "fst (loop_step se d (LPumpEv pe) l) = fst (pump_ev_step pe l)"
      using False True by (simp add: loop_step_def loop_move_def pump_on_step_def split: run_pc.splits)
    moreover have "loop_at (fst (pump_ev_step pe l)) \<noteq> loop_at l"
      using pe True
      by (cases "redial_panics env l") (auto simp: pump_ev_step_def loop_at_def net_pump_step Let_def simp del: pump_step.simps)
    ultimately show ?thesis using pe(1) by (intro bexI[of _ "LPumpEv pe"]) auto
  qed
next
  case False
  then have "loop_at m \<noteq> loop_at l" if "el_pc m \<noteq> el_pc l" for m using that by (simp add: loop_at_def)
  moreover have "\<exists>ev \<in> {LOs True True, LConnect env, LTimer False}. el_pc (fst (loop_step se d ev l)) \<noteq> el_pc l"
    using False n c
    by (cases "el_pc l"; simp add: loop_step_def loop_move_def setup_step_def dial_step_def retry_step_def assigned_step_def
        net_step_def pump_on_step_def end_step_def Let_def split: sum.split prod.split)
  ultimately show ?thesis by blast
qed

text \<open>
  C10. A cancelled loop ends: from wherever it is, it makes at most 29 moves of its own, the
  dials and reconnects that succeed meanwhile included, and until it has ended there is an
  outcome of the call it waits for that lets it move. It never starts over.
\<close>

theorem engine_cancel_ends:
  assumes "loop_reach se l" "ctx_done l" "good_run evs"
  shows "loop_moves se evs l \<le> 29 \<and>
    (loop_moves se evs l = 29 \<longrightarrow> el_pc (loop_exec se evs l) \<in> {LDone, LCrash}) \<and>
    (el_pc l \<notin> {LDone, LCrash} \<longrightarrow>
       (\<forall>d env. \<exists>ev \<in> {LOs True True, LConnect env, LTimer False, LPumpEv EvRun, LPumpEv (EvTimer False), LPumpEv EvConnErr,
            LPumpEv (EvRedial env)}. loop_at (fst (loop_step se d ev l)) \<noteq> loop_at l))"
proof (intro conjI impI allI)
  note r = moves_rank[OF assms] loop_rank_bound[of l]
  show "loop_moves se evs l \<le> 29" using r by linarith
  show "el_pc (loop_exec se evs l) \<in> {LDone, LCrash}" if "loop_moves se evs l = 29"
  proof -
    have "loop_rank (loop_exec se evs l) = 0" using r that by linarith
    then show ?thesis by (cases "el_pc (loop_exec se evs l)") (simp_all add: loop_rank_def)
  qed
qed (use loop_enabled[OF assms(2)] in blast)

text \<open>
  A cancelled loop that is blocked in \<open>ReadPacket\<close>, which takes no context, stays there with
  its session, device and routes until the server sends a packet or the connection fails.
\<close>

lemma blocked_step:
  assumes "el_pc l = LPump" "pm_run l = RRecv i" "ev \<noteq> LPumpEv EvConnErr" "\<forall>p ok. ev \<noteq> LPumpEv (EvConnPacket p ok)"
  shows "let l' = fst (loop_step se d ev l) in el_pc l' = LPump \<and> pm_run l' = RRecv i \<and> el_net l' = el_net l"
proof -
  have "el_pc (fst (pump_ev_step pe l)) = LPump \<and> pm_run (fst (pump_ev_step pe l)) = RRecv i \<and>
      el_net (fst (pump_ev_step pe l)) = el_net l" if "ev = LPumpEv pe" for pe
  proof -
    have "pm_run (pump_step (engine_redial (el_prof l)) pe l) = RRecv i"
      using assms(2-4) that by (cases pe) (auto simp: run_step_def sleep_step_def redial_step_def run_pc_tun_steps)
    then show ?thesis
      using assms(1,2) that by (cases pe) (simp_all add: pump_ev_step_def redial_panics_def net_pump_step Let_def del: pump_step.simps)
  qed
  then show ?thesis
    using assms(1,2) by (cases ev) (simp_all add: loop_step_def loop_move_def pump_on_step_def stale_step_def Let_def)
qed

theorem disconnect_waits_for_server:
  assumes "el_pc l = LPump" "pm_run l = RRecv i"
    and "\<forall>(d, ev) \<in> set evs. ev \<noteq> LPumpEv EvConnErr \<and> (\<forall>p ok. ev \<noteq> LPumpEv (EvConnPacket p ok))"
  shows "let l' = loop_exec se evs (cancel_loop l)
    in el_pc l' = LPump \<and> pm_run l' = RRecv i \<and> el_net l' = el_net l"
proof -
  have "el_pc (loop_exec se evs m) = LPump \<and> pm_run (loop_exec se evs m) = RRecv i \<and> el_net (loop_exec se evs m) = el_net m"
    if "el_pc m = LPump" "pm_run m = RRecv i" for m
    using that assms(3)
  proof (induction evs arbitrary: m)
    case (Cons e evs)
    obtain d ev where e: "e = (d, ev)" by (cases e)
    show ?case
      using Cons.IH[of "fst (loop_step se d ev m)"] Cons.prems blocked_step[of m i ev se d] e by (auto simp: Let_def)
  qed simp
  from this[of "cancel_loop l"] assms(1,2) show ?thesis by (simp add: cancel_loop_def Let_def)
qed

text \<open>
  A TUN write that fails ends \<open>Run\<close> but not the pump's reader. Under the kill switch the next
  pump starts a second reader on the same device, and what the first one reads is lost.
\<close>

theorem stale_reader_steals:
  assumes "el_pc l = LPump" "pm_run l = RDone r" "pm_tun l \<notin> {TDone, TErr}" "el_ks l" "\<not> ctx_done l"
  shows "let l' = loop_exec se (map (Pair d) [LNone, LNone, LNone, LNone, LTimer True, LNone, LStaleRead pkts]) l
    in el_pc l' = LDial \<and> el_stale l' = Suc (el_stale l) \<and> el_lost l' = el_lost l @ pkts"
  using assms by (simp add: loop_step_def loop_move_def pump_on_step_def retry_step_def stale_step_def lgoto_def Let_def)

section \<open>Examples\<close>

text \<open>A service with the kill switch on and a profile.\<close>

definition svc_store :: store_env where
  "svc_store = no_store\<lparr>se_unmarshal := (\<lambda>_. Some (False, True)), se_toml := (\<lambda>_. Some ([], toml_of imported_profile))\<rparr>"

definition svc_disk :: disk where
  "svc_disk = [profilePath svc_store \<mapsto> [], settingsPath svc_store \<mapsto> []]"

lemma svc_loads: "store_Load svc_store svc_disk = Inr imported_profile" "LoadSettings svc_store svc_disk = \<lparr>st_Autoconnect = False, st_KillSwitch = True\<rparr>"
proof -
  have "Validate imported_profile = Inr imported_profile" using Validate_again(1)[OF demo_validate] .
  moreover have "pf_BindInterface imported_profile = []" by (simp add: imported_profile_def empty_profile_def)
  ultimately show "store_Load svc_store svc_disk = Inr imported_profile"
    using profile_of_toml_of[of imported_profile] paths_distinct
    by (simp add: store_Load_def LoadProfile_def svc_disk_def svc_store_def)
  show "LoadSettings svc_store svc_disk = \<lparr>st_Autoconnect = False, st_KillSwitch = True\<rparr>"
    by (simp add: LoadSettings_def svc_disk_def) (simp add: svc_store_def)
qed

definition ks_setup :: "(disk \<times> loop_env) list" where
  "ks_setup = map (Pair svc_disk) [LNone, LNone, LOs True True, LOs True True, LOs True True, LOs True True]"

definition ks_loop :: eloop where
  "ks_loop = loop_exec svc_store ks_setup new_loop"

lemma ks_loop_at: "el_pc ks_loop = LKsTop" "el_ks ks_loop" "el_net ks_loop = {TunDev, BlockRoutes, BlockV6}" "\<not> ctx_done ks_loop"
  using svc_loads
  by (simp_all add: ks_loop_def ks_setup_def loop_exec_def loop_step_def loop_move_def setup_step_def new_loop_def lgoto_def)
    auto

lemma ks_loop_reach: "loop_reach svc_store ks_loop"
  unfolding ks_loop_def by (rule reach_exec[OF loop_reach.start]) (simp add: ks_setup_def good_loop_env_def)



theorem engine_cancel_ends_witness:
  "loop_moves svc_store (map (Pair svc_disk) [LNone, LNone, LNone, LNone, LNone]) (cancel_loop ks_loop) \<le> 29"
  using engine_cancel_ends[OF loop_reach.cancel[OF ks_loop_reach], of "map (Pair svc_disk) [LNone, LNone, LNone, LNone, LNone]"]
  by (simp add: good_loop_env_def cancel_loop_def del: loop_moves.simps)

end
