(* ===== verification/Engine.thy ===== *)
theory Engine
  imports EngineRuns
begin

text \<open>
  The Windows service around the connection loop: the engine (\<open>windows/internal/engine/engine.go\<close>),
  the messages and the hub of the named pipe (\<open>windows/internal/ipc\<close>), and the request handler
  (\<open>windows/cmd/vpn-service/main.go\<close>). A request is handled in one step; the steps of the loops
  lie between requests, in any order. A loop is named by the number of the \<open>Connect\<close> that started it.
\<close>

section \<open>Messages\<close>

record ipc_request =
  iq_ID :: nat
  iq_Cmd :: string
  iq_Text :: string
  iq_Filename :: string
  iq_CA :: string
  iq_Cert :: string
  iq_Key :: string
  iq_Autoconnect :: "bool option"
  iq_KillSwitch :: "bool option"

definition CmdImport :: string where "CmdImport = ''import''"
definition CmdConnect :: string where "CmdConnect = ''connect''"
definition CmdDisconnect :: string where "CmdDisconnect = ''disconnect''"
definition CmdStatus :: string where "CmdStatus = ''status''"
definition CmdSetAutoconnect :: string where "CmdSetAutoconnect = ''set_autoconnect''"
definition CmdSetKillSwitch :: string where "CmdSetKillSwitch = ''set_kill_switch''"
definition EventStatus :: string where "EventStatus = ''status''"

record ipc_response =
  ir_ID :: nat
  ir_OK :: bool
  ir_Error :: "engine_error option"
  ir_Event :: string
  ir_State :: vpn_state
  ir_Detail :: detail
  ir_Configured :: bool
  ir_Autoconnect :: bool
  ir_KillSwitch :: bool
  ir_AssignedIP :: string
  ir_RTTMs :: int

section \<open>The hub\<close>

text \<open>The connections that hear broadcasts, and what was written to each, oldest first.\<close>

record hub =
  hb_clients :: "nat set"
  hb_out :: "nat \<Rightarrow> ipc_response list"

definition NewHub :: hub where "NewHub = \<lparr>hb_clients = {}, hb_out = (\<lambda>_. [])\<rparr>"
definition hub_Add :: "nat \<Rightarrow> hub \<Rightarrow> hub" where "hub_Add c h = h\<lparr>hb_clients := insert c (hb_clients h)\<rparr>"
definition hub_Remove :: "nat \<Rightarrow> hub \<Rightarrow> hub" where "hub_Remove c h = h\<lparr>hb_clients := hb_clients h - {c}\<rparr>"

definition WriteJSON :: "nat \<Rightarrow> ipc_response \<Rightarrow> hub \<Rightarrow> hub" where
  "WriteJSON c r h = h\<lparr>hb_out := (hb_out h)(c := hb_out h c @ [r])\<rparr>"

definition Broadcast :: "ipc_response \<Rightarrow> hub \<Rightarrow> hub" where
  "Broadcast r h =
     (let r = r\<lparr>ir_Event := EventStatus\<rparr>
      in h\<lparr>hb_out := (\<lambda>c. if c \<in> hb_clients h then hb_out h c @ [r] else hb_out h c)\<rparr>)"

section \<open>The engine\<close>

record status =
  sv_State :: vpn_state
  sv_Detail :: detail
  sv_Configured :: bool
  sv_Autoconnect :: bool
  sv_KillSwitch :: bool
  sv_AssignedIP :: string
  sv_RTTMs :: int

record engine =
  en_status :: status
  en_cancel :: "nat option"
  en_pump :: "nat option"
  en_loops :: "eloop list"
  en_disk :: disk
  en_hub :: hub

definition engine_New :: "store_env \<Rightarrow> disk \<Rightarrow> hub \<Rightarrow> engine" where
  "engine_New se d h =
     \<lparr>en_status = \<lparr>sv_State = VDisconnected, sv_Detail = DText [], sv_Configured = Configured se d,
        sv_Autoconnect = st_Autoconnect (LoadSettings se d), sv_KillSwitch = st_KillSwitch (LoadSettings se d),
        sv_AssignedIP = [], sv_RTTMs = 0\<rparr>,
      en_cancel = None, en_pump = None, en_loops = [], en_disk = d, en_hub = h\<rparr>"

text \<open>The round-trip time of the live session, in whole milliseconds; \<open>smoothed\<close> is in nanoseconds.\<close>

definition engine_rtt :: "(nat \<Rightarrow> resource \<Rightarrow> int) \<Rightarrow> engine \<Rightarrow> int" where
  "engine_rtt smoothed en =
     (case en_pump en of
        None \<Rightarrow> 0
      | Some i \<Rightarrow>
          if sv_State (en_status en) = VConnected \<or> sv_State (en_status en) = VReconnecting
          then (let d = Pump_RTT (smoothed i) (en_loops en ! i) in if 0 < d then d div 1000000 else 0) else 0)"

definition Snapshot :: "store_env \<Rightarrow> (nat \<Rightarrow> resource \<Rightarrow> int) \<Rightarrow> engine \<Rightarrow> status" where
  "Snapshot se smoothed en =
     (en_status en)\<lparr>sv_Configured := Configured se (en_disk en),
        sv_Autoconnect := st_Autoconnect (LoadSettings se (en_disk en)),
        sv_KillSwitch := st_KillSwitch (LoadSettings se (en_disk en)), sv_RTTMs := engine_rtt smoothed en\<rparr>"

definition status_response :: "nat \<Rightarrow> status \<Rightarrow> ipc_response" where
  "status_response i s =
     \<lparr>ir_ID = i, ir_OK = True, ir_Error = None, ir_Event = [], ir_State = sv_State s, ir_Detail = sv_Detail s,
      ir_Configured = sv_Configured s, ir_Autoconnect = sv_Autoconnect s, ir_KillSwitch = sv_KillSwitch s,
      ir_AssignedIP = sv_AssignedIP s, ir_RTTMs = sv_RTTMs s\<rparr>"

text \<open>\<open>set\<close>; nothing sets \<open>onChange\<close>.\<close>

definition engine_set :: "store_env \<Rightarrow> vpn_state \<Rightarrow> detail \<Rightarrow> string \<Rightarrow> engine \<Rightarrow> engine" where
  "engine_set se st det ip en =
     (let s = (en_status en)\<lparr>sv_State := st, sv_Detail := det\<rparr>;
          s = (if ip \<noteq> [] then s\<lparr>sv_AssignedIP := ip\<rparr> else s);
          s = (if st = VDisconnected then s\<lparr>sv_AssignedIP := []\<rparr> else s);
          s = s\<lparr>sv_Configured := Configured se (en_disk en), sv_Autoconnect := st_Autoconnect (LoadSettings se (en_disk en)),
                sv_KillSwitch := st_KillSwitch (LoadSettings se (en_disk en))\<rparr>
      in en\<lparr>en_status := s, en_hub := Broadcast (status_response 0 s) (en_hub en)\<rparr>)"

definition engine_Import ::
  "store_env \<Rightarrow> io_env \<Rightarrow> string \<Rightarrow> string \<Rightarrow> string \<Rightarrow> string \<Rightarrow> string \<Rightarrow> engine \<Rightarrow> engine \<times> engine_error option" where
  "engine_Import se io text filename ca cert key en =
     (if en_cancel en \<noteq> None then (en, Some EBusy)
      else case store_Import se io text filename ca cert key (en_disk en) of
             (d, Some e) \<Rightarrow> (en\<lparr>en_disk := d\<rparr>, Some (EStore e))
           | (d, None) \<Rightarrow> (engine_set se VDisconnected (DText ''profile imported'') [] (en\<lparr>en_disk := d\<rparr>), None))"

text \<open>The rest of \<open>SetAutoconnect\<close> and \<open>SetKillSwitch\<close>, after the write of the settings.\<close>

definition after_setting ::
  "store_env \<Rightarrow> (nat \<Rightarrow> resource \<Rightarrow> int) \<Rightarrow> disk \<times> bool \<Rightarrow> engine \<Rightarrow> engine \<times> engine_error option" where
  "after_setting se smoothed r en =
     (case r of
        (d, False) \<Rightarrow> (en\<lparr>en_disk := d\<rparr>, Some ESettings)
      | (d, True) \<Rightarrow>
          (let en = en\<lparr>en_disk := d\<rparr>; s = Snapshot se smoothed en
           in (engine_set se (sv_State s) (sv_Detail s) (sv_AssignedIP s) en, None)))"

definition engine_SetAutoconnect ::
  "store_env \<Rightarrow> io_env \<Rightarrow> (nat \<Rightarrow> resource \<Rightarrow> int) \<Rightarrow> bool \<Rightarrow> engine \<Rightarrow> engine \<times> engine_error option" where
  "engine_SetAutoconnect se io smoothed v en = after_setting se smoothed (store_SetAutoconnect se io v (en_disk en)) en"

definition engine_SetKillSwitch ::
  "store_env \<Rightarrow> io_env \<Rightarrow> (nat \<Rightarrow> resource \<Rightarrow> int) \<Rightarrow> bool \<Rightarrow> engine \<Rightarrow> engine \<times> engine_error option" where
  "engine_SetKillSwitch se io smoothed v en = after_setting se smoothed (store_SetKillSwitch se io v (en_disk en)) en"

definition engine_Connect :: "store_env \<Rightarrow> engine \<Rightarrow> engine \<times> engine_error option" where
  "engine_Connect se en =
     (if en_cancel en \<noteq> None then (en, Some EAlready)
      else if \<not> Configured se (en_disk en) then (en, Some ENotImported)
      else
        let en = en\<lparr>en_cancel := Some (length (en_loops en))\<rparr>;
            en = engine_set se VConnecting (DText ''dialing server'') [] en
        in (en\<lparr>en_loops := en_loops en @ [new_loop]\<rparr>, None))"

definition engine_Disconnect :: "engine \<Rightarrow> engine" where
  "engine_Disconnect en =
     (case en_cancel en of
        None \<Rightarrow> en\<lparr>en_cancel := None\<rparr>
      | Some i \<Rightarrow> en\<lparr>en_cancel := None, en_loops := (en_loops en)[i := cancel_loop (en_loops en ! i)]\<rparr>)"

definition MaybeAutoconnect :: "store_env \<Rightarrow> engine \<Rightarrow> engine" where
  "MaybeAutoconnect se en =
     (if \<not> st_Autoconnect (LoadSettings se (en_disk en)) \<or> \<not> Configured se (en_disk en) then en
      else fst (engine_Connect se en))"

section \<open>The loops of the engine\<close>

definition loop_fx :: "store_env \<Rightarrow> nat \<Rightarrow> loop_effect \<Rightarrow> engine \<Rightarrow> engine" where
  "loop_fx se i fx en =
     (case fx of
        FxStatus st det ip \<Rightarrow> engine_set se st det ip en
      | FxPump \<Rightarrow> en\<lparr>en_pump := Some i\<rparr>
      | FxNoPump \<Rightarrow> en\<lparr>en_pump := None\<rparr>
      | FxNoCancel \<Rightarrow> en\<lparr>en_cancel := None\<rparr>)"

definition engine_loop_step :: "store_env \<Rightarrow> nat \<Rightarrow> loop_env \<Rightarrow> engine \<Rightarrow> engine" where
  "engine_loop_step se i ev en =
     (case loop_step se (en_disk en) ev (en_loops en ! i) of
        (l, fxs) \<Rightarrow> fold (loop_fx se i) fxs (en\<lparr>en_loops := (en_loops en)[i := l]\<rparr>))"

section \<open>Requests\<close>

definition refuse :: "ipc_response \<Rightarrow> engine_error \<Rightarrow> ipc_response" where
  "refuse r e = r\<lparr>ir_OK := False, ir_Error := Some e\<rparr>"

definition svc_handle ::
  "store_env \<Rightarrow> io_env \<Rightarrow> (nat \<Rightarrow> resource \<Rightarrow> int) \<Rightarrow> ipc_request \<Rightarrow> engine \<Rightarrow> engine \<times> ipc_response" where
  "svc_handle se io smoothed req en =
     (let resp = status_response (iq_ID req) (Snapshot se smoothed en)
      in if iq_Cmd req = CmdStatus then (en, resp)
         else if iq_Cmd req = CmdImport then
           (case engine_Import se io (iq_Text req) (iq_Filename req) (iq_CA req) (iq_Cert req) (iq_Key req) en of
              (en, Some e) \<Rightarrow> (en, (refuse resp e)\<lparr>ir_State := VError, ir_Detail := DError e\<rparr>)
            | (en, None) \<Rightarrow>
                (let s = Snapshot se smoothed en in (en, resp\<lparr>ir_Configured := sv_Configured s, ir_Detail := sv_Detail s\<rparr>)))
         else if iq_Cmd req = CmdConnect then
           (case engine_Connect se en of
              (en, Some e) \<Rightarrow> (en, refuse resp e)
            | (en, None) \<Rightarrow>
                (let s = Snapshot se smoothed en
                 in (en, resp\<lparr>ir_State := sv_State s, ir_Detail := sv_Detail s, ir_AssignedIP := sv_AssignedIP s,
                              ir_RTTMs := sv_RTTMs s\<rparr>)))
         else if iq_Cmd req = CmdDisconnect then
           (engine_Disconnect en, resp\<lparr>ir_State := VDisconnected, ir_Detail := DText ''disconnect requested''\<rparr>)
         else if iq_Cmd req = CmdSetAutoconnect then
           (case iq_Autoconnect req of
              None \<Rightarrow> (en, refuse resp (EMissing ''autoconnect''))
            | Some v \<Rightarrow>
                (case engine_SetAutoconnect se io smoothed v en of
                   (en, Some e) \<Rightarrow> (en, refuse resp e)
                 | (en, None) \<Rightarrow> (en, resp\<lparr>ir_Autoconnect := v\<rparr>)))
         else if iq_Cmd req = CmdSetKillSwitch then
           (case iq_KillSwitch req of
              None \<Rightarrow> (en, refuse resp (EMissing ''kill_switch''))
            | Some v \<Rightarrow>
                (case engine_SetKillSwitch se io smoothed v en of
                   (en, Some e) \<Rightarrow> (en, refuse resp e)
                 | (en, None) \<Rightarrow> (en, resp\<lparr>ir_KillSwitch := v\<rparr>)))
         else (en, refuse resp (EUnknown (iq_Cmd req))))"

section \<open>The service\<close>

text \<open>
  The accept loop, a connection's loop, the autoconnect at the start, the connection loops. A
  loop that panicked has ended the process.
\<close>

datatype svc_event =
  SvAccept nat | SvRequest nat io_env ipc_request | SvHangup nat | SvAutoconnect | SvLoop nat loop_env

definition svc_crashed :: "engine \<Rightarrow> bool" where
  "svc_crashed en = list_ex (\<lambda>l. el_pc l = LCrash) (en_loops en)"

definition svc_step :: "store_env \<Rightarrow> (nat \<Rightarrow> resource \<Rightarrow> int) \<Rightarrow> svc_event \<Rightarrow> engine \<Rightarrow> engine" where
  "svc_step se smoothed ev en =
     (if svc_crashed en then en
      else case ev of
        SvAccept c \<Rightarrow> en\<lparr>en_hub := hub_Add c (en_hub en)\<rparr>
      | SvRequest c io req \<Rightarrow>
          if c \<in> hb_clients (en_hub en) then
            (case svc_handle se io smoothed req en of
               (en, resp) \<Rightarrow> en\<lparr>en_hub := WriteJSON c resp (en_hub en)\<rparr>)
          else en
      | SvHangup c \<Rightarrow> en\<lparr>en_hub := hub_Remove c (en_hub en)\<rparr>
      | SvAutoconnect \<Rightarrow> MaybeAutoconnect se en
      | SvLoop i lev \<Rightarrow> if i < length (en_loops en) then engine_loop_step se i lev en else en)"

definition svc_exec :: "store_env \<Rightarrow> (nat \<Rightarrow> resource \<Rightarrow> int) \<Rightarrow> svc_event list \<Rightarrow> engine \<Rightarrow> engine" where
  "svc_exec se smoothed evs en = fold (svc_step se smoothed) evs en"

text \<open>
  The client's \<open>RoundTrip\<close>: the request it sends, and what it makes of the messages that
  its connection receives, of which it reads the first.
\<close>

datatype round_trip_error = RtRead | RtService engine_error | RtFailed

definition RoundTrip_send :: "ipc_request \<Rightarrow> ipc_request" where
  "RoundTrip_send req = (if iq_ID req = 0 then req\<lparr>iq_ID := 1\<rparr> else req)"

definition RoundTrip_receive :: "ipc_response list \<Rightarrow> ipc_response option \<times> round_trip_error option" where
  "RoundTrip_receive msgs =
     (case msgs of
        [] \<Rightarrow> (None, Some RtRead)
      | r # _ \<Rightarrow>
          (Some r, if ir_OK r then None
                   else Some (case ir_Error r of None \<Rightarrow> RtFailed | Some e \<Rightarrow> RtService e)))"

end
