(* ===== verification/EngineProps.thy ===== *)
theory EngineProps
  imports Engine
begin

text \<open>
  The service over any sequence of requests, connections and loop steps: what \<open>Disconnect\<close>
  stops, which settings last, what a client of the pipe is told.
\<close>

section \<open>Frames\<close>

lemma engine_set_sel [simp]:
  "en_cancel (engine_set se st det ip en) = en_cancel en" "en_pump (engine_set se st det ip en) = en_pump en"
  "en_loops (engine_set se st det ip en) = en_loops en" "en_disk (engine_set se st det ip en) = en_disk en"
  "hb_clients (en_hub (engine_set se st det ip en)) = hb_clients (en_hub en)"
  by (simp_all add: engine_set_def Broadcast_def Let_def)

lemma loop_fx_sel [simp]:
  "en_loops (loop_fx se i fx en) = en_loops en" "en_disk (loop_fx se i fx en) = en_disk en"
  "hb_clients (en_hub (loop_fx se i fx en)) = hb_clients (en_hub en)"
  "en_cancel (loop_fx se i fx en) = (if fx = FxNoCancel then None else en_cancel en)"
  by (cases fx; simp add: loop_fx_def)+

lemma fold_fx_sel [simp]:
  "en_loops (fold (loop_fx se i) fxs en) = en_loops en" "en_disk (fold (loop_fx se i) fxs en) = en_disk en"
  "hb_clients (en_hub (fold (loop_fx se i) fxs en)) = hb_clients (en_hub en)"
  "en_cancel (fold (loop_fx se i) fxs en) = (if FxNoCancel \<in> set fxs then None else en_cancel en)"
  by (induction fxs arbitrary: en) auto

lemma engine_loop_step_sel:
  "en_loops (engine_loop_step se i ev en) = (en_loops en)[i := fst (loop_step se (en_disk en) ev (en_loops en ! i))]"
  "en_disk (engine_loop_step se i ev en) = en_disk en"
  "en_cancel (engine_loop_step se i ev en) =
     (if FxNoCancel \<in> set (snd (loop_step se (en_disk en) ev (en_loops en ! i))) then None else en_cancel en)"
  by (simp_all add: engine_loop_step_def split: prod.split)

lemma after_setting_sel:
  assumes "after_setting se smoothed (d, ok) en = (en', r)"
  shows "en_loops en' = en_loops en" "en_cancel en' = en_cancel en" "en_disk en' = d" "r = None \<longleftrightarrow> ok"
  using assms by (cases ok; auto simp: after_setting_def Let_def)+

lemma engine_Import_sel:
  assumes "engine_Import se io text f ca cert key en = (en', r)"
  shows "en_loops en' = en_loops en" "en_cancel en' = en_cancel en"
    "en_disk en' = (if en_cancel en = None then fst (store_Import se io text f ca cert key (en_disk en)) else en_disk en)"
  using assms by (auto simp: engine_Import_def split: if_splits prod.splits option.splits)

text \<open>What a request does to the loops.\<close>

lemma svc_handle_loops:
  assumes h: "svc_handle se io smoothed req en = (en', resp)"
  shows "(en_loops en', en_cancel en') =
     (if iq_Cmd req = CmdConnect then (en_loops (fst (engine_Connect se en)), en_cancel (fst (engine_Connect se en)))
      else if iq_Cmd req = CmdDisconnect then (en_loops (engine_Disconnect en), en_cancel (engine_Disconnect en))
      else (en_loops en, en_cancel en))"
proof -
  have d: "CmdConnect \<noteq> CmdStatus" "CmdConnect \<noteq> CmdImport" "CmdDisconnect \<noteq> CmdStatus" "CmdDisconnect \<noteq> CmdImport"
    "CmdDisconnect \<noteq> CmdConnect"
    by (simp_all add: CmdConnect_def CmdStatus_def CmdImport_def CmdDisconnect_def)
  consider "iq_Cmd req = CmdStatus" | "iq_Cmd req = CmdImport" | "iq_Cmd req = CmdConnect" | "iq_Cmd req = CmdDisconnect"
    | "iq_Cmd req \<notin> {CmdStatus, CmdImport, CmdConnect, CmdDisconnect}" by blast
  then show ?thesis
  proof cases
    case 2
    obtain m r where m: "engine_Import se io (iq_Text req) (iq_Filename req) (iq_CA req) (iq_Cert req) (iq_Key req) en = (m, r)"
      by (cases "engine_Import se io (iq_Text req) (iq_Filename req) (iq_CA req) (iq_Cert req) (iq_Key req) en")
    from h 2 m engine_Import_sel[OF m] d show ?thesis
      by (cases r) (auto simp: svc_handle_def Let_def CmdStatus_def CmdImport_def)
  next
    case 3
    obtain m r where m: "engine_Connect se en = (m, r)" by (cases "engine_Connect se en")
    from h 3 m d show ?thesis by (cases r) (auto simp: svc_handle_def Let_def)
  next
    case 5
    obtain m r where m: "engine_SetAutoconnect se io smoothed (the (iq_Autoconnect req)) en = (m, r)"
      by (cases "engine_SetAutoconnect se io smoothed (the (iq_Autoconnect req)) en")
    obtain n s where n: "engine_SetKillSwitch se io smoothed (the (iq_KillSwitch req)) en = (n, s)"
      by (cases "engine_SetKillSwitch se io smoothed (the (iq_KillSwitch req)) en")
    have "en_loops m = en_loops en \<and> en_cancel m = en_cancel en" "en_loops n = en_loops en \<and> en_cancel n = en_cancel en"
      using after_setting_sel m n unfolding engine_SetAutoconnect_def engine_SetKillSwitch_def by (metis prod.collapse)+
    with h 5 m n show ?thesis
      by (auto simp: svc_handle_def Let_def split: if_splits option.splits)
  qed (use h d in \<open>auto simp: svc_handle_def Let_def\<close>)
qed

section \<open>Runs of the service\<close>

definition connects :: "svc_event \<Rightarrow> bool" where
  "connects ev = (case ev of SvAutoconnect \<Rightarrow> True | SvRequest _ _ req \<Rightarrow> iq_Cmd req = CmdConnect | _ \<Rightarrow> False)"

definition good_svc_event :: "svc_event \<Rightarrow> bool" where
  "good_svc_event ev = (case ev of SvLoop _ lev \<Rightarrow> good_loop_env lev | _ \<Rightarrow> True)"

text \<open>
  The states of a service; a patient one is asked to connect only when every earlier loop has
  ended.
\<close>

inductive svc_reach :: "store_env \<Rightarrow> (nat \<Rightarrow> resource \<Rightarrow> int) \<Rightarrow> bool \<Rightarrow> engine \<Rightarrow> bool" for se smoothed patient where
  start: "svc_reach se smoothed patient (engine_New se d NewHub)"
| step: "svc_reach se smoothed patient en \<Longrightarrow> good_svc_event ev \<Longrightarrow>
    (patient \<Longrightarrow> connects ev \<Longrightarrow> \<forall>l \<in> set (en_loops en). el_pc l = LDone) \<Longrightarrow>
    svc_reach se smoothed patient (svc_step se smoothed ev en)"

text \<open>How a step changes the loops and the engine's cancel function.\<close>

lemma engine_Connect_sel:
  "en_loops (fst (engine_Connect se en)) = (if snd (engine_Connect se en) = None then en_loops en @ [new_loop] else en_loops en)"
  "en_cancel (fst (engine_Connect se en)) =
     (if snd (engine_Connect se en) = None then Some (length (en_loops en)) else en_cancel en)"
  "en_disk (fst (engine_Connect se en)) = en_disk en"
  "snd (engine_Connect se en) = None \<Longrightarrow> en_cancel en = None"
  by (auto simp: engine_Connect_def Let_def split: if_splits)

lemma svc_step_cases:
  assumes "good_svc_event ev"
  obtains (same) "en_loops (svc_step se sm ev en) = en_loops en" "en_cancel (svc_step se sm ev en) = en_cancel en"
  | (connect) "connects ev" "en_cancel en = None" "en_loops (svc_step se sm ev en) = en_loops en @ [new_loop]"
      "en_cancel (svc_step se sm ev en) = Some (length (en_loops en))"
  | (disconnect) "en_loops (svc_step se sm ev en) = en_loops (engine_Disconnect en)" "en_cancel (svc_step se sm ev en) = None"
  | (loop) i lev d l fxs where "i < length (en_loops en)" "good_loop_env lev" "loop_step se d lev (en_loops en ! i) = (l, fxs)"
      "en_loops (svc_step se sm ev en) = (en_loops en)[i := l]"
      "en_cancel (svc_step se sm ev en) = (if FxNoCancel \<in> set fxs then None else en_cancel en)"
proof (cases "svc_crashed en")
  case True
  then have "svc_step se sm ev en = en" by (simp add: svc_step_def)
  then show ?thesis using same by simp
next
  case c: False
  have dc: "en_cancel (engine_Disconnect en) = None" by (simp add: engine_Disconnect_def split: option.split)
  have con: ?thesis if "connects ev" "en_loops (svc_step se sm ev en) = en_loops (fst (engine_Connect se en))"
      "en_cancel (svc_step se sm ev en) = en_cancel (fst (engine_Connect se en))"
    using that same connect engine_Connect_sel[of se en] by (cases "snd (engine_Connect se en) = None") auto
  show ?thesis
  proof (cases ev)
    case (SvAccept x)
    then show ?thesis using c same by (simp add: svc_step_def)
  next
    case (SvHangup x)
    then show ?thesis using c same by (simp add: svc_step_def)
  next
    case SvAutoconnect
    then have "svc_step se sm ev en = en \<or> svc_step se sm ev en = fst (engine_Connect se en)" "connects ev"
      using c by (simp_all add: svc_step_def MaybeAutoconnect_def connects_def)
    then show ?thesis using con same by auto
  next
    case (SvLoop i lev)
    obtain l fxs where l: "loop_step se (en_disk en) lev (en_loops en ! i) = (l, fxs)"
      by (cases "loop_step se (en_disk en) lev (en_loops en ! i)")
    show ?thesis
    proof (cases "i < length (en_loops en)")
      case True
      have "good_loop_env lev" using assms SvLoop by (simp add: good_svc_event_def)
      from loop[OF True this l] show ?thesis using c True SvLoop l by (simp add: svc_step_def engine_loop_step_sel)
    next
      case False
      then show ?thesis using same SvLoop by (simp add: svc_step_def)
    qed
  next
    case (SvRequest x io req)
    show ?thesis
    proof (cases "x \<in> hb_clients (en_hub en)")
      case False
      then show ?thesis using c same SvRequest by (simp add: svc_step_def)
    next
      case True
      obtain en' resp where h: "svc_handle se io sm req en = (en', resp)" by (cases "svc_handle se io sm req en")
      then have s: "en_loops (svc_step se sm ev en) = en_loops en'" "en_cancel (svc_step se sm ev en) = en_cancel en'"
        using True c SvRequest by (simp_all add: svc_step_def)
      note l = svc_handle_loops[OF h]
      consider "iq_Cmd req = CmdConnect" | "iq_Cmd req = CmdDisconnect" "iq_Cmd req \<noteq> CmdConnect"
        | "iq_Cmd req \<noteq> CmdConnect" "iq_Cmd req \<noteq> CmdDisconnect" by blast
      then show ?thesis
      proof cases
        case 1
        with l s con SvRequest show ?thesis by (simp add: connects_def)
      next
        case 2
        with l s dc show ?thesis by (intro disconnect) simp_all
      next
        case 3
        with l s show ?thesis by (intro same) simp_all
      qed
    qed
  qed
qed

section \<open>Every loop is a loop\<close>

lemma reach_loops: "svc_reach se sm pat en \<Longrightarrow> \<forall>l \<in> set (en_loops en). loop_reach se l"
proof (induction rule: svc_reach.induct)
  case (step en ev)
  have s: "set (xs[i := x]) \<subseteq> insert x (set xs)" for xs i and x :: eloop by (rule set_update_subset_insert)
  show ?case
  proof (cases rule: svc_step_cases[OF step.hyps(2), of se sm en, case_names same connect disconnect loop])
    case same
    with step.IH show ?thesis by simp
  next
    case connect
    with step.IH show ?thesis by (auto intro: loop_reach.start)
  next
    case disconnect
    have "loop_reach se (cancel_loop (en_loops en ! i))" if "i < length (en_loops en)" for i
      using step.IH that by (intro loop_reach.cancel) simp
    then have "\<forall>l \<in> set ((en_loops en)[i := cancel_loop (en_loops en ! i)]). loop_reach se l" for i
      using step.IH s[of "en_loops en" i] by (cases "i < length (en_loops en)") (auto simp: list_update_beyond)
    with disconnect step.IH show ?thesis by (simp add: engine_Disconnect_def split: option.split)
  next
    case (loop i lev d l fxs)
    have "loop_reach se (fst (loop_step se d lev (en_loops en ! i)))"
      using step.IH loop(1,2) by (intro loop_reach.step) simp_all
    with loop(3,4) step.IH s[of "en_loops en" i l] show ?thesis by auto
  qed
qed (simp add: engine_New_def)

section \<open>Cancelling\<close>

definition ended :: "eloop \<Rightarrow> bool" where
  "ended l \<longleftrightarrow> el_pc l = LFinish \<or> el_pc l = LDone"

lemma pump_step_not_ended:
  "el_pc l = LPump \<Longrightarrow> \<not> ended (fst (pump_on_step ev l)) \<and> FxNoCancel \<notin> set (snd (pump_on_step ev l))"
proof -
  assume l: "el_pc l = LPump"
  have pe: "\<not> ended (fst (pump_ev_step pe l)) \<and> FxNoCancel \<notin> set (snd (pump_ev_step pe l))" for pe
    using l by (cases pe) (simp_all add: pump_ev_step_def ended_def net_pump_step Let_def del: pump_step.simps)
  show ?thesis
  proof (cases "\<exists>r. pm_run l = RDone r")
    case True
    with l show ?thesis by (auto simp: pump_on_step_def ended_def)
  next
    case False
    then have "pump_on_step ev l = (case ev of LPumpEv pe \<Rightarrow> pump_ev_step pe l | _ \<Rightarrow> (l, []))"
      using l by (simp add: pump_on_step_def split: run_pc.splits)
    with pe l show ?thesis by (cases ev) (simp_all add: ended_def)
  qed
qed

lemma dial_not_ended: "el_pc l = LDial \<Longrightarrow> \<not> ended (dial_step ev l)"
  by (cases ev) (auto simp: dial_step_def ended_def split: prod.split sum.split)

text \<open>A loop passes its deferred \<open>e.cancel = nil\<close> exactly when it ends.\<close>

lemma loop_step_ended:
  assumes "loop_step se d ev l = (l', fxs)"
  shows "FxNoCancel \<in> set fxs \<longleftrightarrow> \<not> ended l \<and> ended l'" "ended l \<Longrightarrow> ended l'" "el_pc l = LDone \<Longrightarrow> el_pc l' = LDone"
    "ctx_done l' = ctx_done l"
proof -
  have "(FxNoCancel \<in> set (snd (loop_move se d ev l)) \<longleftrightarrow> \<not> ended l \<and> ended (fst (loop_move se d ev l))) \<and>
      (ended l \<longrightarrow> ended (fst (loop_move se d ev l))) \<and> (el_pc l = LDone \<longrightarrow> el_pc (fst (loop_move se d ev l)) = LDone)"
    using pump_step_not_ended[of l ev] dial_not_ended[of l ev]
    by (cases "el_pc l"; cases ev; simp add: loop_move_def setup_step_def retry_step_def assigned_step_def net_step_def
        pump_on_step_def end_step_def ended_def Let_def split: sum.split prod.split)
  moreover have "ended (stale_step pkts l) = ended l" "el_pc (stale_step pkts l) = el_pc l" for pkts
    by (simp_all add: stale_step_def ended_def)
  ultimately have r: "(FxNoCancel \<in> set (snd (loop_step se d ev l)) \<longleftrightarrow> \<not> ended l \<and> ended (fst (loop_step se d ev l))) \<and>
      (ended l \<longrightarrow> ended (fst (loop_step se d ev l))) \<and> (el_pc l = LDone \<longrightarrow> el_pc (fst (loop_step se d ev l)) = LDone)"
    by (cases ev) (simp_all add: loop_step_def)
  with assms show "FxNoCancel \<in> set fxs \<longleftrightarrow> \<not> ended l \<and> ended l'" "ended l \<Longrightarrow> ended l'" "el_pc l = LDone \<Longrightarrow> el_pc l' = LDone"
    by simp_all
  show "ctx_done l' = ctx_done l" using ctx_loop_step[of se d ev l] assms by simp
qed

text \<open>The engine's cancel function is that of the one loop that runs.\<close>

definition cancel_ok :: "engine \<Rightarrow> bool" where
  "cancel_ok en \<longleftrightarrow>
     (\<forall>i < length (en_loops en). \<not> ended (en_loops en ! i) \<longrightarrow> \<not> ctx_done (en_loops en ! i) \<longrightarrow> en_cancel en = Some i) \<and>
     (\<forall>i. en_cancel en = Some i \<longrightarrow>
        i < length (en_loops en) \<and> \<not> ended (en_loops en ! i) \<and> \<not> ctx_done (en_loops en ! i)) \<and>
     (\<forall>i < length (en_loops en). \<forall>j < length (en_loops en).
        el_pc (en_loops en ! i) \<noteq> LDone \<longrightarrow> el_pc (en_loops en ! j) \<noteq> LDone \<longrightarrow> i = j)"

lemma cancel_okD:
  assumes "cancel_ok en"
  shows "i < length (en_loops en) \<Longrightarrow> \<not> ended (en_loops en ! i) \<Longrightarrow> \<not> ctx_done (en_loops en ! i) \<Longrightarrow> en_cancel en = Some i"
    "en_cancel en = Some i \<Longrightarrow> i < length (en_loops en) \<and> \<not> ended (en_loops en ! i) \<and> \<not> ctx_done (en_loops en ! i)"
    "i < length (en_loops en) \<Longrightarrow> j < length (en_loops en) \<Longrightarrow> el_pc (en_loops en ! i) \<noteq> LDone \<Longrightarrow>
       el_pc (en_loops en ! j) \<noteq> LDone \<Longrightarrow> i = j"
  using assms unfolding cancel_ok_def by blast+

lemma cancel_okI:
  assumes "\<And>i. i < length (en_loops en) \<Longrightarrow> \<not> ended (en_loops en ! i) \<Longrightarrow> \<not> ctx_done (en_loops en ! i) \<Longrightarrow> en_cancel en = Some i"
    and "\<And>i. en_cancel en = Some i \<Longrightarrow> i < length (en_loops en) \<and> \<not> ended (en_loops en ! i) \<and> \<not> ctx_done (en_loops en ! i)"
    and "\<And>i j. i < length (en_loops en) \<Longrightarrow> j < length (en_loops en) \<Longrightarrow> el_pc (en_loops en ! i) \<noteq> LDone \<Longrightarrow>
       el_pc (en_loops en ! j) \<noteq> LDone \<Longrightarrow> i = j"
  shows "cancel_ok en"
  unfolding cancel_ok_def using assms by blast

lemma cancel_ok_cong:
  assumes "cancel_ok en" "en_loops en' = en_loops en" "en_cancel en' = en_cancel en"
  shows "cancel_ok en'"
  using assms(1) unfolding cancel_ok_def assms(2,3) .

lemma not_ended_not_done: "\<not> ended l \<Longrightarrow> el_pc l \<noteq> LDone"
  by (simp add: ended_def)

lemma cancel_ok_connect:
  assumes "cancel_ok en" "en_cancel en = None" "\<forall>l \<in> set (en_loops en). el_pc l = LDone"
    and "en_loops en' = en_loops en @ [new_loop]" "en_cancel en' = Some (length (en_loops en))"
  shows "cancel_ok en'"
proof -
  let ?n = "length (en_loops en)"
  have len: "length (en_loops en') = Suc ?n" and nw: "en_loops en' ! ?n = new_loop" by (simp_all add: assms(4))
  have d: "el_pc (en_loops en' ! i) = LDone" if "i < ?n" for i using assms(3) that by (simp add: assms(4) nth_append)
  have n: "i = ?n" if "i < length (en_loops en')" "el_pc (en_loops en' ! i) \<noteq> LDone" for i
    using that d[of i] by (auto simp: len less_Suc_eq)
  show ?thesis
  proof (rule cancel_okI)
    show "en_cancel en' = Some i" if "i < length (en_loops en')" "\<not> ended (en_loops en' ! i)" for i
      using n[OF that(1) not_ended_not_done[OF that(2)]] by (simp add: assms(5))
    show "i < length (en_loops en') \<and> \<not> ended (en_loops en' ! i) \<and> \<not> ctx_done (en_loops en' ! i)" if "en_cancel en' = Some i" for i
      using that nw by (simp add: assms(5) len ended_def new_loop_def)
    show "i = j" if "i < length (en_loops en')" "j < length (en_loops en')" "el_pc (en_loops en' ! i) \<noteq> LDone"
        "el_pc (en_loops en' ! j) \<noteq> LDone" for i j
      using n[OF that(1,3)] n[OF that(2,4)] by simp
  qed
qed

lemma cancel_ok_disconnect:
  assumes "cancel_ok en" "en_loops en' = en_loops (engine_Disconnect en)" "en_cancel en' = None"
  shows "cancel_ok en'"
proof (cases "en_cancel en")
  case None
  with assms show ?thesis by (intro cancel_ok_cong[OF assms(1)]) (simp_all add: engine_Disconnect_def)
next
  case (Some k)
  have l: "en_loops en' = (en_loops en)[k := cancel_loop (en_loops en ! k)]"
    using assms(2) Some by (simp add: engine_Disconnect_def)
  have len: "length (en_loops en') = length (en_loops en)" by (simp add: l)
  have nth: "en_loops en' ! i = (if i = k then cancel_loop (en_loops en ! i) else en_loops en ! i)" if "i < length (en_loops en)" for i
    using that by (simp add: l nth_list_update)
  have pc: "el_pc (en_loops en' ! i) = el_pc (en_loops en ! i)" if "i < length (en_loops en)" for i
    using nth[OF that] by (simp add: cancel_loop_def)
  show ?thesis
  proof (rule cancel_okI; unfold len)
    fix i assume i: "i < length (en_loops en)" and e: "\<not> ended (en_loops en' ! i)" "\<not> ctx_done (en_loops en' ! i)"
    then have "i \<noteq> k" using nth[OF i] by (auto simp: cancel_loop_def)
    then have "en_cancel en = Some i" using e nth[OF i] by (intro cancel_okD(1)[OF assms(1) i]) simp_all
    with Some \<open>i \<noteq> k\<close> show "en_cancel en' = Some i" by simp
  next
    fix i j assume a: "i < length (en_loops en)" "j < length (en_loops en)"
      and b: "el_pc (en_loops en' ! i) \<noteq> LDone" "el_pc (en_loops en' ! j) \<noteq> LDone"
    show "i = j" using cancel_okD(3)[OF assms(1) a] b by (simp add: pc[OF a(1)] pc[OF a(2)])
  qed (simp add: assms(3))
qed

lemma cancel_ok_loop:
  assumes "cancel_ok en" "i < length (en_loops en)" "loop_step se d lev (en_loops en ! i) = (l, fxs)"
    and l: "en_loops en' = (en_loops en)[i := l]" and c: "en_cancel en' = (if FxNoCancel \<in> set fxs then None else en_cancel en)"
  shows "cancel_ok en'"
proof -
  note st = loop_step_ended[OF assms(3)]
  have nth: "en_loops en' ! j = (if j = i then l else en_loops en ! j)" if "j < length (en_loops en)" for j
    using that assms(2) by (simp add: l nth_list_update)
  have len: "length (en_loops en') = length (en_loops en)" by (simp add: l)
  have was: "el_pc (en_loops en ! j) \<noteq> LDone" if "j < length (en_loops en)" "el_pc (en_loops en' ! j) \<noteq> LDone" for j
    using that st(3) by (cases "j = i") (auto simp: nth)
  have live: "\<not> ended (en_loops en ! j)" if "j < length (en_loops en)" "\<not> ended (en_loops en' ! j)" for j
    using that st(2) by (cases "j = i") (auto simp: nth)
  have ctx: "ctx_done (en_loops en' ! j) = ctx_done (en_loops en ! j)" if "j < length (en_loops en)" for j
    using that st(4) by (cases "j = i") (simp_all add: nth)
  have A: "en_cancel en' = Some j"
    if j: "j < length (en_loops en)" and e: "\<not> ended (en_loops en' ! j)" "\<not> ctx_done (en_loops en' ! j)" for j
  proof -
    have cj: "en_cancel en = Some j" by (rule cancel_okD(1)[OF assms(1) j live[OF j e(1)]]) (use e(2) ctx[OF j] in simp)
    have "FxNoCancel \<notin> set fxs"
    proof
      assume "FxNoCancel \<in> set fxs"
      then have f: "\<not> ended (en_loops en ! i)" "ended l" using st(1) by simp_all
      have "j = i"
        by (rule cancel_okD(3)[OF assms(1) j assms(2) not_ended_not_done[OF live[OF j e(1)]] not_ended_not_done[OF f(1)]])
      with e(1) nth[OF j] f(2) show False by simp
    qed
    with cj show ?thesis by (simp add: c)
  qed
  have B: "j < length (en_loops en) \<and> \<not> ended (en_loops en' ! j) \<and> \<not> ctx_done (en_loops en' ! j)"
    if "en_cancel en' = Some j" for j
  proof -
    have f: "FxNoCancel \<notin> set fxs" "en_cancel en = Some j" using that c by (simp_all split: if_splits)
    have j: "j < length (en_loops en)" "\<not> ended (en_loops en ! j)" "\<not> ctx_done (en_loops en ! j)"
      using cancel_okD(2)[OF assms(1) f(2)] by blast+
    moreover have "\<not> ended (en_loops en' ! j)" using j(1,2) st(1) f(1) by (cases "j = i") (simp_all add: nth)
    ultimately show ?thesis by (simp add: ctx)
  qed
  show ?thesis
  proof (rule cancel_okI; unfold len)
    fix a b assume x: "a < length (en_loops en)" "b < length (en_loops en)"
      and y: "el_pc (en_loops en' ! a) \<noteq> LDone" "el_pc (en_loops en' ! b) \<noteq> LDone"
    show "a = b" by (rule cancel_okD(3)[OF assms(1) x was[OF x(1) y(1)] was[OF x(2) y(2)]])
  next
    fix j assume "en_cancel en' = Some j"
    then show "j < length (en_loops en) \<and> \<not> ended (en_loops en' ! j) \<and> \<not> ctx_done (en_loops en' ! j)" by (rule B)
  qed (rule A)
qed

lemma reach_cancel_ok: "svc_reach se sm pat en \<Longrightarrow> pat \<Longrightarrow> cancel_ok en"
proof (induction rule: svc_reach.induct)
  case (step en ev)
  then have c: "cancel_ok en" by blast
  show ?case
  proof (cases rule: svc_step_cases[OF step.hyps(2), of se sm en, case_names same connect disconnect loop])
    case same
    with c show ?thesis by (rule cancel_ok_cong)
  next
    case connect
    with step.hyps(3)[OF step.prems] show ?thesis by (intro cancel_ok_connect[OF c]) simp_all
  next
    case disconnect
    then show ?thesis by (rule cancel_ok_disconnect[OF c])
  next
    case (loop i lev d l fxs)
    show ?thesis by (rule cancel_ok_loop[OF c loop(1,3-5)])
  qed
qed (simp add: cancel_ok_def engine_New_def)

end
