(* ===== verification/EngineSpec.thy ===== *)
theory EngineSpec
  imports EngineProps
begin

text \<open>The properties of the Windows service.\<close>

section \<open>Requests of a connected client\<close>

lemma svc_request:
  assumes "\<not> svc_crashed en" "c \<in> hb_clients (en_hub en)" "svc_handle se io sm req en = (en', resp)"
  shows "svc_step se sm (SvRequest c io req) en = en'\<lparr>en_hub := WriteJSON c resp (en_hub en')\<rparr>"
  using assms by (simp add: svc_step_def)

lemma disconnect_handled:
  "iq_Cmd req = CmdDisconnect \<Longrightarrow>
   svc_handle se io sm req en = (engine_Disconnect en,
     (status_response (iq_ID req) (Snapshot se sm en))\<lparr>ir_State := VDisconnected, ir_Detail := DText ''disconnect requested''\<rparr>)"
  by (simp add: svc_handle_def CmdDisconnect_def CmdConnect_def CmdImport_def CmdStatus_def Let_def)

lemma connect_handled:
  assumes "iq_Cmd req = CmdConnect" "en_cancel en = None" "Configured se (en_disk en)" "svc_handle se io sm req en = (en', resp)"
  shows "en' = fst (engine_Connect se en)" "ir_OK resp"
  using assms
  by (auto simp: svc_handle_def CmdConnect_def CmdImport_def CmdStatus_def Let_def engine_Connect_def refuse_def status_response_def)

section \<open>Disconnecting\<close>

text \<open>
  C11. When connections are asked for one after the other, \<open>Disconnect\<close> stops everything: at
  most one loop has not ended, and after the request every loop that has not passed its last
  statements is cancelled.
\<close>

theorem disconnect_stops_all:
  assumes "svc_reach se sm True en" "\<not> svc_crashed en" "c \<in> hb_clients (en_hub en)" "iq_Cmd req = CmdDisconnect"
  shows "let en' = svc_step se sm (SvRequest c io req) en
    in en_cancel en' = None \<and> (\<forall>l \<in> set (en_loops en'). ended l \<or> ctx_done l) \<and>
       (\<exists>i. {k. k < length (en_loops en') \<and> el_pc (en_loops en' ! k) \<noteq> LDone} \<subseteq> {i})"
proof -
  let ?en = "svc_step se sm (SvRequest c io req) en"
  have "svc_reach se sm True ?en"
    using assms(1) by (rule svc_reach.step) (simp_all add: good_svc_event_def connects_def assms(4) CmdConnect_def CmdDisconnect_def)
  then have ok: "cancel_ok ?en" by (rule reach_cancel_ok) simp
  have c: "en_cancel ?en = None"
    using svc_request[OF assms(2,3) disconnect_handled[OF assms(4)]] by (simp add: engine_Disconnect_def split: option.split)
  have "ended l \<or> ctx_done l" if "l \<in> set (en_loops ?en)" for l
    using that cancel_okD(1)[OF ok] c by (auto simp: in_set_conv_nth)
  moreover have "\<exists>i. {k. k < length (en_loops ?en) \<and> el_pc (en_loops ?en ! k) \<noteq> LDone} \<subseteq> {i}"
    by (rule at_most_one) (use cancel_okD(3)[OF ok] in blast)
  ultimately show ?thesis using c by (simp add: Let_def)
qed

text \<open>
  C12. A loop's last statements are not its own: a loop cancelled earlier that only now executes
  its deferred \<open>e.cancel = nil\<close> drops the cancel function of the loop that was started since.
  The status then says disconnected while that loop runs, \<open>Disconnect\<close> leaves it running, and
  the next \<open>Connect\<close> starts another one beside it.
\<close>

theorem reconnect_race:
  assumes "\<not> svc_crashed en" "c \<in> hb_clients (en_hub en)" "Configured se (en_disk en)"
    and "i < length (en_loops en)" "el_pc (en_loops en ! i) = LCancelNil" "ctx_done (en_loops en ! i)"
    and "j < length (en_loops en)" "j \<noteq> i" "en_cancel en = Some j"
    and "iq_Cmd disc = CmdDisconnect" "iq_Cmd con = CmdConnect"
  shows "let e2 = svc_exec se sm [SvLoop i LNone, SvLoop i LNone] en;
      e3 = svc_step se sm (SvRequest c io disc) e2; e4 = svc_step se sm (SvRequest c io con) e3
    in sv_State (en_status e2) = VDisconnected \<and> en_cancel e2 = None \<and> en_loops e3 ! j = en_loops en ! j \<and>
       length (en_loops e4) = Suc (length (en_loops en)) \<and> en_loops e4 ! j = en_loops en ! j \<and>
       en_cancel e4 = Some (length (en_loops en))"
proof -
  let ?l = "en_loops en ! i"
  define e1 where "e1 = svc_step se sm (SvLoop i LNone) en"
  define e2 where "e2 = svc_step se sm (SvLoop i LNone) e1"
  define e3 where "e3 = svc_step se sm (SvRequest c io disc) e2"
  define e4 where "e4 = svc_step se sm (SvRequest c io con) e3"
  have e1: "e1 = en\<lparr>en_loops := (en_loops en)[i := lgoto LFinish ?l], en_cancel := None\<rparr>"
    using assms(1,4,5) by (simp add: e1_def svc_step_def engine_loop_step_def loop_step_def loop_move_def end_step_def loop_fx_def)
  have crash: "\<not> svc_crashed e" if "en_loops e = (en_loops en)[i := lgoto pc ?l]" "pc \<noteq> LCrash" for e pc
    using assms(1) that set_update_subset_insert[of "en_loops en" i "lgoto pc ?l"]
    by (auto simp: svc_crashed_def list_ex_iff)
  have "e2 = engine_set se VDisconnected (DText ''disconnected'') [] (e1\<lparr>en_loops := (en_loops en)[i := lgoto LDone ?l]\<rparr>)"
    using crash[of e1 LFinish] assms(4,6)
    by (simp add: e1 e2_def svc_step_def engine_loop_step_def loop_step_def loop_move_def end_step_def loop_fx_def lgoto_def)
  then have e2: "sv_State (en_status e2) = VDisconnected" "en_cancel e2 = None" "en_loops e2 = (en_loops en)[i := lgoto LDone ?l]"
      "en_disk e2 = en_disk en" "hb_clients (en_hub e2) = hb_clients (en_hub en)"
    by (simp_all add: e1) (simp add: engine_set_def Let_def)
  have e3: "en_cancel e3 = None" "en_loops e3 = en_loops e2" "en_disk e3 = en_disk en" "hb_clients (en_hub e3) = hb_clients (en_hub en)"
    using svc_request[OF crash[OF e2(3)] _ disconnect_handled[OF assms(10)], where c = c and se = se and io = io and sm = sm] assms(2) e2
    by (simp_all add: e3_def engine_Disconnect_def WriteJSON_def)
  have "snd (engine_Connect se e3) = None" using e3(1,3) assms(3) by (simp add: engine_Connect_def Let_def)
  then have con: "en_loops (fst (engine_Connect se e3)) = en_loops e3 @ [new_loop]"
      "en_cancel (fst (engine_Connect se e3)) = Some (length (en_loops e3))" by (simp_all add: engine_Connect_sel)
  obtain e' resp where h: "svc_handle se io sm con e3 = (e', resp)" by (cases "svc_handle se io sm con e3")
  have "e' = fst (engine_Connect se e3)"
    using connect_handled(1)[OF assms(11) e3(1) _ h] e3(3) assms(3) by simp
  then have "en_loops e4 = en_loops e3 @ [new_loop]" "en_cancel e4 = Some (length (en_loops en))"
    using svc_request[OF crash[of e3 LDone] _ h, where c = c] e2(3) e3 assms(2) con by (simp_all add: e4_def)
  with e2 e3 assms(4,7,8) show ?thesis
    by (simp add: Let_def svc_exec_def nth_append flip: e1_def e2_def e3_def e4_def)
qed

section \<open>A service at work\<close>

abbreviation no_rtt :: "nat \<Rightarrow> resource \<Rightarrow> int" where "no_rtt \<equiv> \<lambda>_ _. 0"

definition demo_req :: "string \<Rightarrow> ipc_request" where
  "demo_req cmd = \<lparr>iq_ID = 1, iq_Cmd = cmd, iq_Text = [], iq_Filename = [], iq_CA = [], iq_Cert = [], iq_Key = [],
     iq_Autoconnect = None, iq_KillSwitch = None\<rparr>"

definition svc_at :: "engine \<Rightarrow> eloop list \<Rightarrow> nat option \<Rightarrow> bool" where
  "svc_at e ls c \<longleftrightarrow> en_loops e = ls \<and> en_cancel e = c \<and> en_disk e = svc_disk \<and> hb_clients (en_hub e) = {0}"

lemma svc_configured: "Configured svc_store svc_disk"
  by (simp add: Configured_def svc_disk_def)

lemma svc_crashed_at: "svc_at e ls c \<Longrightarrow> svc_crashed e \<longleftrightarrow> (\<exists>l \<in> set ls. el_pc l = LCrash)"
  by (auto simp: svc_at_def svc_crashed_def list_ex_iff)

lemma at_connect:
  assumes a: "svc_at e ls None" "\<forall>l \<in> set ls. el_pc l \<noteq> LCrash"
  shows "svc_at (svc_step svc_store no_rtt (SvRequest 0 io (demo_req CmdConnect)) e) (ls @ [new_loop]) (Some (length ls))"
proof -
  have n: "\<not> svc_crashed e" "0 \<in> hb_clients (en_hub e)" "en_cancel e = None" "Configured svc_store (en_disk e)"
    using svc_crashed_at[OF a(1)] a svc_configured by (auto simp: svc_at_def)
  obtain e' r where h: "svc_handle svc_store io no_rtt (demo_req CmdConnect) e = (e', r)"
    by (cases "svc_handle svc_store io no_rtt (demo_req CmdConnect) e")
  have "e' = fst (engine_Connect svc_store e)" by (rule connect_handled(1)[OF _ n(3,4) h]) (simp add: demo_req_def)
  then have "svc_at e' (ls @ [new_loop]) (Some (length ls))"
    using a(1) n by (simp add: svc_at_def engine_Connect_def Let_def)
  with svc_request[OF n(1,2) h] show ?thesis by (simp add: svc_at_def WriteJSON_def)
qed

lemma at_disconnect:
  assumes a: "svc_at e ls (Some i)" "\<forall>l \<in> set ls. el_pc l \<noteq> LCrash"
  shows "svc_at (svc_step svc_store no_rtt (SvRequest 0 io (demo_req CmdDisconnect)) e) (ls[i := cancel_loop (ls ! i)]) None"
proof -
  have n: "\<not> svc_crashed e" "0 \<in> hb_clients (en_hub e)" using svc_crashed_at[OF a(1)] a by (auto simp: svc_at_def)
  have "iq_Cmd (demo_req CmdDisconnect) = CmdDisconnect" by (simp add: demo_req_def)
  from svc_request[OF n disconnect_handled[OF this]] a(1) show ?thesis
    by (simp add: svc_at_def engine_Disconnect_def WriteJSON_def)
qed

lemma loop_exec_ended: "ended l \<or> el_pc l = LCrash \<Longrightarrow> ended (loop_exec se evs l) \<or> el_pc (loop_exec se evs l) = LCrash"
proof (induction evs arbitrary: l)
  case (Cons e evs)
  obtain d ev where e: "e = (d, ev)" by (cases e)
  show ?case
    using Cons.IH[of "fst (loop_step se d ev l)"] Cons.prems crash_step[of l se d ev]
      loop_step_ended(2)[of se d ev l "fst (loop_step se d ev l)" "snd (loop_step se d ev l)"] e by auto
qed simp

text \<open>The first loop runs for a while and does not end.\<close>

lemma at_loop:
  "svc_at e (l # ls) c \<Longrightarrow> \<forall>x \<in> set ls. el_pc x \<noteq> LCrash \<Longrightarrow> l' = loop_exec svc_store (map (Pair svc_disk) evs) l \<Longrightarrow>
   \<not> ended l' \<Longrightarrow> el_pc l' \<noteq> LCrash \<Longrightarrow> svc_at (svc_exec svc_store no_rtt (map (SvLoop 0) evs) e) (l' # ls) c"
proof (induction evs arbitrary: e l)
  case (Cons ev evs)
  let ?s = "loop_step svc_store svc_disk ev l"
  have n: "\<not> ended l \<and> el_pc l \<noteq> LCrash" "\<not> ended (fst ?s) \<and> el_pc (fst ?s) \<noteq> LCrash"
    using Cons.prems(3-5) loop_exec_ended[of l svc_store "map (Pair svc_disk) (ev # evs)"]
      loop_exec_ended[of "fst ?s" svc_store "map (Pair svc_disk) evs"] by auto
  have "FxNoCancel \<notin> set (snd ?s)" using loop_step_ended(1)[of svc_store svc_disk ev l "fst ?s" "snd ?s"] n by simp
  moreover have "\<not> svc_crashed e" using svc_crashed_at[OF Cons.prems(1)] Cons.prems(2) n by auto
  ultimately have "svc_at (svc_step svc_store no_rtt (SvLoop 0 ev) e) (fst ?s # ls) c"
    using Cons.prems(1)
    by (simp add: svc_at_def svc_step_def engine_loop_step_sel) (simp add: engine_loop_step_def split: prod.split)
  from Cons.IH[OF this Cons.prems(2) _ Cons.prems(4,5)] Cons.prems(3) show ?case by (simp add: svc_exec_def)
qed (simp add: svc_exec_def)

definition up_events :: "svc_event list" where
  "up_events = [SvAccept 0, SvRequest 0 good_io (demo_req CmdConnect)] @
     map (SvLoop 0) [LNone, LNone, LOs True True, LOs True True, LOs True True, LOs True True]"

definition up_engine :: engine where
  "up_engine = svc_exec svc_store no_rtt up_events (engine_New svc_store svc_disk NewHub)"

lemma svc_exec_append: "svc_exec se sm (xs @ ys) e = svc_exec se sm ys (svc_exec se sm xs e)"
  by (simp add: svc_exec_def)

lemma new_at: "svc_at (svc_step svc_store no_rtt (SvAccept 0) (engine_New svc_store svc_disk NewHub)) [] None"
  by (simp add: svc_at_def svc_step_def svc_crashed_def engine_New_def NewHub_def hub_Add_def)

lemma up_at: "svc_at up_engine [ks_loop] (Some 0)"
proof -
  have "svc_at (svc_exec svc_store no_rtt [SvAccept 0, SvRequest 0 good_io (demo_req CmdConnect)] (engine_New svc_store svc_disk NewHub))
      [new_loop] (Some 0)"
    using at_connect[OF new_at, of good_io] by (simp add: svc_exec_def)
  then show ?thesis
    unfolding up_engine_def up_events_def svc_exec_append
    by (rule at_loop) (use ks_loop_at in \<open>simp_all add: ks_loop_def ks_setup_def ended_def del: loop_exec_simps\<close>)
qed

lemma reach_svc_exec:
  "svc_reach se sm pat e \<Longrightarrow> \<forall>ev \<in> set evs. good_svc_event ev \<and> \<not> connects ev \<Longrightarrow> svc_reach se sm pat (svc_exec se sm evs e)"
proof (induction evs arbitrary: e)
  case (Cons ev evs)
  have "svc_reach se sm pat (svc_step se sm ev e)" using Cons.prems by (intro svc_reach.step) auto
  from Cons.IH[OF this] Cons.prems(2) show ?case by (simp add: svc_exec_def)
qed (simp add: svc_exec_def)

lemma up_reach: "svc_reach svc_store no_rtt True up_engine"
proof -
  let ?e = "svc_step svc_store no_rtt (SvAccept 0) (engine_New svc_store svc_disk NewHub)"
  have "svc_reach svc_store no_rtt True ?e"
    by (rule svc_reach.step[OF svc_reach.start]) (simp_all add: good_svc_event_def connects_def)
  then have "svc_reach svc_store no_rtt True (svc_step svc_store no_rtt (SvRequest 0 good_io (demo_req CmdConnect)) ?e)"
    by (rule svc_reach.step) (use new_at in \<open>simp_all add: good_svc_event_def svc_at_def\<close>)
  from reach_svc_exec[OF this, of "map (SvLoop 0) [LNone, LNone, LOs True True, LOs True True, LOs True True, LOs True True]"]
  show ?thesis
    by (simp add: up_engine_def up_events_def svc_exec_def good_svc_event_def connects_def good_loop_env_def)
qed

theorem disconnect_stops_all_witness:
  "list_all (\<lambda>l. ended l \<or> ctx_done l)
     (en_loops (svc_step svc_store no_rtt (SvRequest 0 good_io (demo_req CmdDisconnect)) up_engine))"
proof -
  have "\<not> svc_crashed up_engine" "0 \<in> hb_clients (en_hub up_engine)" "iq_Cmd (demo_req CmdDisconnect) = CmdDisconnect"
    using svc_crashed_at[OF up_at] up_at ks_loop_at(1) by (auto simp: svc_at_def demo_req_def)
  from disconnect_stops_all[OF up_reach this] show ?thesis unfolding Let_def list_all_iff by blast
qed

text \<open>A reconnect while the loop that was cancelled is still taking down its device.\<close>

definition race_events :: "svc_event list" where
  "race_events = [SvRequest 0 good_io (demo_req CmdDisconnect), SvLoop 0 LNone, SvLoop 0 LNone, SvLoop 0 LNone,
     SvRequest 0 good_io (demo_req CmdConnect)]"

definition race_loop :: eloop where
  "race_loop = loop_exec svc_store (map (Pair svc_disk) [LNone, LNone, LNone]) (cancel_loop ks_loop)"

lemma race_loop_at: "el_pc race_loop = LCancelNil" "ctx_done race_loop"
proof -
  have "el_pc race_loop = LCancelNil \<and> ctx_done race_loop"
    using ks_loop_at
    by (simp add: race_loop_def loop_step_def loop_move_def retry_step_def end_step_def cancel_loop_def lgoto_def)
  then show "el_pc race_loop = LCancelNil" "ctx_done race_loop" by simp_all
qed

lemma race_at: "svc_at (svc_exec svc_store no_rtt race_events up_engine) [race_loop, new_loop] (Some 1)"
proof -
  let ?d = "svc_step svc_store no_rtt (SvRequest 0 good_io (demo_req CmdDisconnect)) up_engine"
  have "svc_at ?d [cancel_loop ks_loop] None" using at_disconnect[OF up_at, of good_io] ks_loop_at(1) by simp
  then have "svc_at (svc_exec svc_store no_rtt (map (SvLoop 0) [LNone, LNone, LNone]) ?d) [race_loop] None"
    by (rule at_loop) (use race_loop_at in \<open>simp_all add: race_loop_def ended_def del: loop_exec_simps\<close>)
  from at_connect[OF this, of good_io] race_loop_at show ?thesis by (simp add: svc_exec_def race_events_def)
qed

theorem reconnect_race_witness:
  "let e = svc_exec svc_store no_rtt race_events up_engine;
       e2 = svc_exec svc_store no_rtt [SvLoop 0 LNone, SvLoop 0 LNone] e;
       e3 = svc_step svc_store no_rtt (SvRequest 0 good_io (demo_req CmdDisconnect)) e2
   in sv_State (en_status e2) = VDisconnected \<and> en_loops e3 ! 1 = new_loop"
proof -
  let ?e = "svc_exec svc_store no_rtt race_events up_engine"
  have e: "\<not> svc_crashed ?e" "0 \<in> hb_clients (en_hub ?e)" "Configured svc_store (en_disk ?e)" "en_loops ?e = [race_loop, new_loop]"
      "en_cancel ?e = Some 1"
    using svc_crashed_at[OF race_at] race_at race_loop_at svc_configured by (auto simp: svc_at_def new_loop_def)
  have r: "iq_Cmd (demo_req CmdDisconnect) = CmdDisconnect" "iq_Cmd (demo_req CmdConnect) = CmdConnect" by (simp_all add: demo_req_def)
  show ?thesis
    using reconnect_race[OF e(1-3) _ _ _ _ _ e(5) r, of 0] race_loop_at e(4) by (simp add: Let_def)
qed

end
