(* ===== verification/EngineClient.thy ===== *)
theory EngineClient
  imports EngineSpec
begin

text \<open>What a client of the service can rely on: settings that last, replies that are its own.\<close>

section \<open>Settings\<close>

lemma write_frame: "q \<noteq> p \<Longrightarrow> fst (os_WriteFile wr p s d) q = d q"
  by (simp add: os_WriteFile_def split: write_end.split)

lemma write_all_frame: "q \<notin> fst ` set fs \<Longrightarrow> fst (write_all io fs d) q = d q"
proof (induction fs arbitrary: d)
  case (Cons f fs)
  obtain p s where f: "f = (p, s)" by (cases f)
  obtain d1 ok where w: "os_WriteFile (io_write io) p s d = (d1, ok)" by (cases "os_WriteFile (io_write io) p s d")
  have "d1 q = d q" using write_frame[of q p "io_write io" s d] w Cons.prems f by simp
  with Cons.IH[of d1] Cons.prems f w show ?case by (cases ok) simp_all
qed simp

lemma Import_keeps_settings: "fst (store_Import se io text f a b c d) (settingsPath se) = d (settingsPath se)"
proof (cases "parseBundle se text a b c")
  case (Inr q)
  obtain p ca cert key where q: "q = (p, ca, cert, key)" by (cases q)
  let ?fs = "[(certsDir se @ [''ca.crt''], ensureNL ca), (certsDir se @ [''client.crt''], ensureNL cert),
              (certsDir se @ [''client.key''], ensureNL key)]"
  obtain d1 ok where w: "write_all io ?fs d = (d1, ok)" by (cases "write_all io ?fs d")
  have d1: "d1 (settingsPath se) = d (settingsPath se)"
    using write_all_frame[of "settingsPath se" ?fs io d] w paths_distinct(2)[of se] paths_distinct(2)[of se, symmetric] by simp
  have p: "e (settingsPath se) = d1 (settingsPath se)" if "writeProfileTOML se io (profilePath se) r d1 = (e, b)" for r e b
    using write_frame[of "settingsPath se" "profilePath se" "io_write io" "profile_text se r" d1] that paths_distinct(1)[of se]
    by (simp add: writeProfileTOML_def)
  show ?thesis
    using d1 w Inr q
    by (cases ok) (auto simp: store_Import_def p simp del: write_all.simps split: sum.split prod.split)
qed (simp add: store_Import_def)

text \<open>The JSON library reads back what it wrote.\<close>

definition json_reads_back :: "store_env \<Rightarrow> bool" where
  "json_reads_back se \<longleftrightarrow> (\<forall>s. se_unmarshal se (marshal_settings s) = Some (st_Autoconnect s, st_KillSwitch s))"

definition whole_settings :: "store_env \<Rightarrow> io_env \<Rightarrow> bool" where
  "whole_settings se io \<longleftrightarrow> (\<forall>n. io_write io (settingsPath se) \<noteq> WPartial n)"

lemma SaveSettings_whole:
  assumes "json_reads_back se" "whole_settings se io" "SaveSettings se io s d = (d', ok)"
  shows "LoadSettings se d' = (if ok then s else LoadSettings se d)"
  using assms
  by (auto simp: SaveSettings_def os_WriteFile_def LoadSettings_def json_reads_back_def whole_settings_def
      split: if_splits write_end.splits)

text \<open>What a request does to the settings.\<close>

lemma svc_handle_disk:
  assumes h: "svc_handle se io sm req en = (en', resp)"
  shows "en_disk en' =
     (if iq_Cmd req = CmdImport \<and> en_cancel en = None
      then fst (store_Import se io (iq_Text req) (iq_Filename req) (iq_CA req) (iq_Cert req) (iq_Key req) (en_disk en))
      else if iq_Cmd req = CmdSetAutoconnect \<and> iq_Autoconnect req \<noteq> None
      then fst (store_SetAutoconnect se io (the (iq_Autoconnect req)) (en_disk en))
      else if iq_Cmd req = CmdSetKillSwitch \<and> iq_KillSwitch req \<noteq> None
      then fst (store_SetKillSwitch se io (the (iq_KillSwitch req)) (en_disk en))
      else en_disk en)"
    and "iq_Cmd req = CmdSetKillSwitch \<Longrightarrow> iq_KillSwitch req = Some v \<Longrightarrow> ir_OK resp \<longleftrightarrow> snd (store_SetKillSwitch se io v (en_disk en))"
proof -
  note cmds = CmdConnect_def CmdStatus_def CmdImport_def CmdDisconnect_def CmdSetAutoconnect_def CmdSetKillSwitch_def
  have set: "en_disk m = d \<and> (r = None \<longleftrightarrow> ok)" if "after_setting se sm (d, ok) en = (m, r)" for d ok m r
    using after_setting_sel(3,4)[OF that] by blast
  have setting: "en_disk m = fst x \<and> (r = None \<longleftrightarrow> snd x)" if "after_setting se sm x en = (m, r)" for x m r
    using set[of "fst x" "snd x"] that by simp
  show "en_disk en' =
     (if iq_Cmd req = CmdImport \<and> en_cancel en = None
      then fst (store_Import se io (iq_Text req) (iq_Filename req) (iq_CA req) (iq_Cert req) (iq_Key req) (en_disk en))
      else if iq_Cmd req = CmdSetAutoconnect \<and> iq_Autoconnect req \<noteq> None
      then fst (store_SetAutoconnect se io (the (iq_Autoconnect req)) (en_disk en))
      else if iq_Cmd req = CmdSetKillSwitch \<and> iq_KillSwitch req \<noteq> None
      then fst (store_SetKillSwitch se io (the (iq_KillSwitch req)) (en_disk en))
      else en_disk en)"
  proof -
    consider "iq_Cmd req = CmdImport" | "iq_Cmd req = CmdConnect" | "iq_Cmd req = CmdSetAutoconnect"
      | "iq_Cmd req = CmdSetKillSwitch" | "iq_Cmd req \<notin> {CmdImport, CmdConnect, CmdSetAutoconnect, CmdSetKillSwitch}" by blast
    then show ?thesis
    proof cases
      case 1
      obtain m r where m: "engine_Import se io (iq_Text req) (iq_Filename req) (iq_CA req) (iq_Cert req) (iq_Key req) en = (m, r)"
        by (cases "engine_Import se io (iq_Text req) (iq_Filename req) (iq_CA req) (iq_Cert req) (iq_Key req) en")
      from h 1 m engine_Import_sel(3)[OF m] show ?thesis
        by (cases r) (auto simp: svc_handle_def Let_def cmds)
    next
      case 2
      obtain m r where m: "engine_Connect se en = (m, r)" by (cases "engine_Connect se en")
      have "en_disk m = en_disk en" using engine_Connect_sel(3)[of se en] m by simp
      with h 2 m show ?thesis by (cases r) (auto simp: svc_handle_def Let_def cmds)
    next
      case 3
      show ?thesis
      proof (cases "iq_Autoconnect req")
        case (Some v)
        obtain m r where m: "engine_SetAutoconnect se io sm v en = (m, r)" by (cases "engine_SetAutoconnect se io sm v en")
        from h 3 m Some setting[OF m[unfolded engine_SetAutoconnect_def]] show ?thesis
          by (cases r) (auto simp: svc_handle_def Let_def cmds)
      qed (use h 3 in \<open>auto simp: svc_handle_def Let_def cmds\<close>)
    next
      case 4
      show ?thesis
      proof (cases "iq_KillSwitch req")
        case (Some v)
        obtain m r where m: "engine_SetKillSwitch se io sm v en = (m, r)" by (cases "engine_SetKillSwitch se io sm v en")
        from h 4 m Some setting[OF m[unfolded engine_SetKillSwitch_def]] show ?thesis
          by (cases r) (auto simp: svc_handle_def Let_def cmds)
      qed (use h 4 in \<open>auto simp: svc_handle_def Let_def cmds\<close>)
    qed (use h in \<open>auto simp: svc_handle_def Let_def engine_Disconnect_def split: if_splits option.splits\<close>)
  qed
  show "ir_OK resp \<longleftrightarrow> snd (store_SetKillSwitch se io v (en_disk en))"
    if c: "iq_Cmd req = CmdSetKillSwitch" "iq_KillSwitch req = Some v"
  proof -
    obtain m r where m: "engine_SetKillSwitch se io sm v en = (m, r)" by (cases "engine_SetKillSwitch se io sm v en")
    from h c m setting[OF m[unfolded engine_SetKillSwitch_def]] show ?thesis
      by (cases r) (auto simp: svc_handle_def Let_def cmds refuse_def status_response_def)
  qed
qed

text \<open>The events that do not ask for another kill switch, and write settings whole or not at all.\<close>

definition leaves_ks :: "store_env \<Rightarrow> svc_event \<Rightarrow> bool" where
  "leaves_ks se ev =
     (case ev of
        SvRequest _ io req \<Rightarrow> iq_Cmd req \<noteq> CmdSetKillSwitch \<and> (iq_Cmd req = CmdSetAutoconnect \<longrightarrow> whole_settings se io)
      | _ \<Rightarrow> True)"

definition ks_on_disk :: "store_env \<Rightarrow> engine \<Rightarrow> bool" where
  "ks_on_disk se en = st_KillSwitch (LoadSettings se (en_disk en))"

lemma set_setting_ks:
  assumes "json_reads_back se" "whole_settings se io"
  shows "store_SetAutoconnect se io v d = (d', ok) \<Longrightarrow> st_KillSwitch (LoadSettings se d') = st_KillSwitch (LoadSettings se d)"
    "store_SetKillSwitch se io v d = (d', True) \<Longrightarrow> st_KillSwitch (LoadSettings se d') = v"
  using SaveSettings_whole[OF assms] by (auto simp: store_SetAutoconnect_def store_SetKillSwitch_def)

lemma saved_settings:
  assumes "json_reads_back se" "SaveSettings se io s d = (d', True)"
  shows "LoadSettings se d' = s"
  using assms
  by (auto simp: SaveSettings_def os_WriteFile_def LoadSettings_def json_reads_back_def split: if_splits write_end.splits)

lemma leaves_ks_step:
  assumes "json_reads_back se" "leaves_ks se ev"
  shows "ks_on_disk se (svc_step se sm ev en) = ks_on_disk se en"
proof -
  have con: "ks_on_disk se (fst (engine_Connect se en)) = ks_on_disk se en" by (simp add: ks_on_disk_def engine_Connect_sel)
  have req: "ks_on_disk se en' = ks_on_disk se en"
    if h: "svc_handle se io sm rq en = (en', resp)" and ev: "ev = SvRequest c io rq" for c io rq en' resp
  proof -
    have n: "iq_Cmd rq \<noteq> CmdSetKillSwitch" and w: "iq_Cmd rq = CmdSetAutoconnect \<Longrightarrow> whole_settings se io"
      using assms(2) ev by (simp_all add: leaves_ks_def)
    consider (imp) "iq_Cmd rq = CmdImport" "en_cancel en = None" | (auto) "iq_Cmd rq = CmdSetAutoconnect" "iq_Autoconnect rq \<noteq> None"
      | (other) "en_disk en' = en_disk en"
      using svc_handle_disk(1)[OF h] n by (auto split: if_splits)
    then show ?thesis
    proof cases
      case imp
      then show ?thesis
        using svc_handle_disk(1)[OF h] by (simp add: ks_on_disk_def LoadSettings_def Import_keeps_settings)
    next
      case auto
      have "en_disk en' = fst (store_SetAutoconnect se io (the (iq_Autoconnect rq)) (en_disk en))"
        using svc_handle_disk(1)[OF h] auto by (simp add: CmdSetAutoconnect_def CmdImport_def)
      then show ?thesis
        using set_setting_ks(1)[OF assms(1) w[OF auto(1)], of "the (iq_Autoconnect rq)" "en_disk en" "en_disk en'"]
        by (simp add: ks_on_disk_def) (metis prod.collapse)
    qed (simp add: ks_on_disk_def)
  qed
  show ?thesis
  proof (cases ev)
    case (SvRequest c io rq)
    obtain en' resp where h: "svc_handle se io sm rq en = (en', resp)" by (cases "svc_handle se io sm rq en")
    from req[OF h SvRequest] h SvRequest show ?thesis by (simp add: svc_step_def ks_on_disk_def)
  qed (use con in \<open>simp_all add: svc_step_def ks_on_disk_def MaybeAutoconnect_def engine_loop_step_sel\<close>)
qed

lemma leaves_ks_exec:
  "json_reads_back se \<Longrightarrow> \<forall>ev \<in> set evs. leaves_ks se ev \<Longrightarrow> ks_on_disk se (svc_exec se sm evs en) = ks_on_disk se en"
  by (induction evs arbitrary: en) (simp_all add: svc_exec_def leaves_ks_step)


text \<open>
  A settings file that was not written whole drops the kill switch: a failed request to change
  the other setting turns it off.
\<close>

theorem half_written_settings:
  assumes "\<not> svc_crashed en" "c \<in> hb_clients (en_hub en)" "iq_Cmd req = CmdSetAutoconnect" "iq_Autoconnect req = Some v"
    and "io_mkdir io (store_Dir se)" "io_write io (settingsPath se) = WPartial n"
    and "se_unmarshal se (take n (marshal_settings ((LoadSettings se (en_disk en))\<lparr>st_Autoconnect := v\<rparr>))) = None"
  shows "\<not> sv_KillSwitch (Snapshot se sm (svc_step se sm (SvRequest c io req) en))"
proof -
  obtain en' resp where h: "svc_handle se io sm req en = (en', resp)" by (cases "svc_handle se io sm req en")
  have "en_disk en' = fst (store_SetAutoconnect se io v (en_disk en))"
    using svc_handle_disk(1)[OF h] assms(3,4) by (simp add: CmdImport_def CmdSetAutoconnect_def)
  then show ?thesis
    using assms(5-7) svc_request[OF assms(1,2) h]
    by (simp add: Snapshot_def store_SetAutoconnect_def SaveSettings_def os_WriteFile_def LoadSettings_def)
qed

section \<open>Replies\<close>

lemma refused_is_quiet:
  assumes h: "svc_handle se io sm req en = (en', resp)" and r: "\<not> ir_OK resp"
  shows "en_hub en' = en_hub en"
proof -
  note cmds = CmdConnect_def CmdStatus_def CmdImport_def CmdDisconnect_def CmdSetAutoconnect_def CmdSetKillSwitch_def
  have set: "en_hub m = en_hub en" if "after_setting se sm x en = (m, Some y)" for x m y
    using that by (cases x; cases "snd x") (auto simp: after_setting_def Let_def)
  have imp: "en_hub m = en_hub en" if "engine_Import se io a b c d e en = (m, Some y)" for a b c d e m y
    using that by (auto simp: engine_Import_def split: if_splits prod.splits option.splits)
  have con: "en_hub m = en_hub en" if "engine_Connect se en = (m, Some y)" for m y
    using that by (auto simp: engine_Connect_def Let_def split: if_splits)
  show ?thesis
    using h r
    by (auto simp: svc_handle_def Let_def refuse_def status_response_def engine_SetAutoconnect_def engine_SetKillSwitch_def
        dest: set imp con split: if_splits option.splits prod.splits)
qed

text \<open>
  C38. A client of \<open>RoundTrip\<close> reads the first message of its connection, which is not always
  its reply: when a status is broadcast between its connection and its request, a request that
  the service refuses is reported to the caller as a success, with the status for an answer.
\<close>

theorem round_trip_takes_status:
  assumes "\<not> svc_crashed en" "hb_out (en_hub en) c = []" "i < length (en_loops en)"
    and "loop_step se (en_disk en) lev (en_loops en ! i) = (l', [FxStatus st det ip])" "el_pc l' \<noteq> LCrash"
    and "e = svc_exec se sm [SvAccept c, SvLoop i lev] en"
    and "svc_handle se io sm (RoundTrip_send req) e = (e', resp)" "\<not> ir_OK resp"
  shows "\<exists>r. hb_out (en_hub (svc_step se sm (SvRequest c io (RoundTrip_send req)) e)) c = [r, resp] \<and>
    RoundTrip_receive [r, resp] = (Some r, None) \<and> ir_Event r = EventStatus \<and> ir_ID r = 0"
proof -
  let ?a = "svc_step se sm (SvAccept c) en"
  have a: "en_loops ?a = en_loops en" "en_disk ?a = en_disk en" "hb_out (en_hub ?a) c = []" "c \<in> hb_clients (en_hub ?a)"
    using assms(1,2) by (simp_all add: svc_step_def hub_Add_def)
  have na: "\<not> svc_crashed ?a" using assms(1) a(1) by (simp add: svc_crashed_def)
  have e: "e = engine_set se st det ip (?a\<lparr>en_loops := (en_loops en)[i := l']\<rparr>)"
    using assms(3,4,6) a na by (simp add: svc_exec_def svc_step_def engine_loop_step_def loop_fx_def)
  obtain s where s: "hb_out (en_hub e) c = [(status_response 0 s)\<lparr>ir_Event := EventStatus\<rparr>]"
    using a(3,4) by (simp add: e engine_set_def Broadcast_def Let_def)
  have "en_loops e = (en_loops en)[i := l']" by (simp add: e)
  then have n: "\<not> svc_crashed e"
    using assms(1,5) set_update_subset_insert[of "en_loops en" i l'] by (auto simp: svc_crashed_def list_ex_iff)
  have "c \<in> hb_clients (en_hub e)" using a(4) by (simp add: e)
  from svc_request[OF n this assms(7)] refused_is_quiet[OF assms(7,8)] s
  show ?thesis by (simp add: WriteJSON_def RoundTrip_receive_def status_response_def)
qed

section \<open>Examples\<close>

text \<open>A decoder of the four settings files.\<close>

definition bool_store :: store_env where
  "bool_store = svc_store\<lparr>se_unmarshal := (\<lambda>t.
     map_option (\<lambda>s. (st_Autoconnect s, st_KillSwitch s))
       (List.find (\<lambda>s. marshal_settings s = t)
         [\<lparr>st_Autoconnect = a, st_KillSwitch = k\<rparr>. a \<leftarrow> [False, True], k \<leftarrow> [False, True]]))\<rparr>"

lemma bool_store_json: "json_reads_back bool_store"
proof -
  have "marshal_settings s = marshal_settings t \<Longrightarrow> s = t" for s t
    by (cases s; cases t) (auto simp: marshal_settings_def json_bool_def split: if_splits)
  then have "List.find (\<lambda>t. marshal_settings t = marshal_settings s) xs = (if s \<in> set xs then Some s else None)" for s xs
    by (induction xs) auto
  moreover have "s \<in> set [\<lparr>st_Autoconnect = a, st_KillSwitch = k\<rparr>. a \<leftarrow> [False, True], k \<leftarrow> [False, True]]" for s :: settings
    by (cases s) auto
  ultimately show ?thesis unfolding json_reads_back_def by (simp add: bool_store_def del: set_simps list.map)
qed

definition fresh_engine :: engine where
  "fresh_engine = (engine_New bool_store Map.empty NewHub)\<lparr>en_hub := hub_Add 0 NewHub\<rparr>"

definition ks_req :: ipc_request where
  "ks_req = (demo_req CmdSetKillSwitch)\<lparr>iq_KillSwitch := Some True\<rparr>"

definition auto_req :: ipc_request where
  "auto_req = (demo_req CmdSetAutoconnect)\<lparr>iq_Autoconnect := Some True\<rparr>"


definition busy_engine :: engine where
  "busy_engine = (engine_New svc_store svc_disk NewHub)\<lparr>en_loops := [ks_loop], en_cancel := Some 0\<rparr>"

theorem round_trip_takes_status_witness:
  "\<exists>r resp. hb_out (en_hub (svc_exec svc_store no_rtt
      [SvAccept 1, SvLoop 0 LNone, SvRequest 1 good_io (RoundTrip_send (demo_req CmdConnect))] busy_engine)) 1 = [r, resp] \<and>
    \<not> ir_OK resp \<and> RoundTrip_receive [r, resp] = (Some r, None)"
proof -
  let ?e = "svc_exec svc_store no_rtt [SvAccept 1, SvLoop 0 LNone] busy_engine"
  let ?req = "RoundTrip_send (demo_req CmdConnect)"
  have b: "\<not> svc_crashed busy_engine" "hb_out (en_hub busy_engine) 1 = []" "0 < length (en_loops busy_engine)"
    using ks_loop_at by (simp_all add: busy_engine_def svc_crashed_def engine_New_def NewHub_def)
  have st: "loop_step svc_store (en_disk busy_engine) LNone (en_loops busy_engine ! 0) =
      (lgoto LDial ks_loop, [FxStatus VConnecting (DText ''kill switch on; dialing server'') []])"
    using ks_loop_at by (simp add: busy_engine_def loop_step_def loop_move_def retry_step_def)
  have "svc_step svc_store no_rtt (SvLoop 0 LNone) (svc_step svc_store no_rtt (SvAccept 1) busy_engine) = ?e"
    by (simp add: svc_exec_def)
  moreover have "en_cancel ?e = Some 0"
    using ks_loop_at st b
    by (simp add: svc_exec_def svc_step_def svc_crashed_def engine_loop_step_sel) (simp add: busy_engine_def)
  then have "\<exists>e' resp. svc_handle svc_store good_io no_rtt ?req ?e = (e', resp) \<and> \<not> ir_OK resp"
    by (simp add: svc_handle_def engine_Connect_def RoundTrip_send_def demo_req_def CmdConnect_def CmdImport_def CmdStatus_def
        Let_def refuse_def)
  then obtain e' resp where h: "svc_handle svc_store good_io no_rtt ?req ?e = (e', resp)" "\<not> ir_OK resp" by blast
  from round_trip_takes_status[OF b st _ refl h] h(2) show ?thesis by (auto simp: svc_exec_def)
qed

end
