(* ===== verification/Winnet.thy ===== *)
theory Winnet
  imports NetParse GoText
begin

text \<open>
  Addresses and routes of the tunnel on Windows (\<open>windows/internal/winnet/iface.go\<close>): commands of
  the system, run in order. What a command prints and whether it succeeds is a parameter, which
  may depend on everything that was run before; the log of the commands is the state.
\<close>

section \<open>Commands\<close>

type_synonym cmd_log = "(string list \<times> bool) list"

record sys_env =
  we_cmd :: "cmd_log \<Rightarrow> string list \<Rightarrow> string \<times> bool"
  we_lookup :: "string \<Rightarrow> addr list option"

definition cmd_output :: "sys_env \<Rightarrow> string list \<Rightarrow> cmd_log \<Rightarrow> cmd_log \<times> string option" where
  "cmd_output env args log =
     (case we_cmd env log args of (out, ok) \<Rightarrow> (log @ [(args, ok)], if ok then Some out else None))"

definition runCmd :: "sys_env \<Rightarrow> string list \<Rightarrow> cmd_log \<Rightarrow> cmd_log \<times> bool" where
  "runCmd env args log = (case cmd_output env args log of (log, out) \<Rightarrow> (log, out \<noteq> None))"

section \<open>Addresses\<close>

definition tunnelSubnetBits :: int where "tunnelSubnetBits = 24"

definition tunnelGateway :: "addr \<Rightarrow> addr" where
  "tunnelGateway client =
     (if \<not> addr_is4 client then client
      else let bs = addr_as4 (px_addr (prefix_masked (prefix_from client tunnelSubnetBits)))
           in addr_from4 (bs[3 := bs ! 3 + 1]))"

definition tunnelGateway6 :: "addr \<Rightarrow> addr" where
  "tunnelGateway6 client = addr_next (px_addr (prefix_masked (prefix_from client 64)))"

definition prefixToMask :: "int \<Rightarrow> string" where
  "prefixToMask bits =
     (let bits = (if bits < 0 \<or> 32 < bits then 32 else bits);
          m = (if bits = 0 then 0 else push_bit (nat (32 - bits)) 0xffffffff) :: 32 word
      in dotted m)"

definition IfUpIPv6 :: "sys_env \<Rightarrow> string \<Rightarrow> prefix \<Rightarrow> cmd_log \<Rightarrow> cmd_log \<times> bool" where
  "IfUpIPv6 env iface p log =
     (case runCmd env [''netsh'', ''interface'', ''ipv6'', ''add'', ''address'', iface,
                       prefix_string (prefix_from (px_addr p) 64)] log of
        (log, False) \<Rightarrow> (log, False)
      | (log, True) \<Rightarrow>
          (fst (runCmd env [''netsh'', ''interface'', ''ipv6'', ''set'', ''subinterface'', iface, ''mtu=1369'',
                            ''store=active''] log), True))"

definition IfUp :: "sys_env \<Rightarrow> string \<Rightarrow> prefix \<Rightarrow> cmd_log \<Rightarrow> cmd_log \<times> bool" where
  "IfUp env iface p log =
     (case runCmd env [''netsh'', ''interface'', ''ip'', ''set'', ''address'', ''name='' @ iface, ''static'',
                       addr_string (px_addr p), prefixToMask tunnelSubnetBits] log of
        (log, False) \<Rightarrow> (log, False)
      | (log, True) \<Rightarrow>
          (fst (runCmd env [''netsh'', ''interface'', ''ipv4'', ''set'', ''subinterface'', iface, ''mtu=1369'',
                            ''store=active''] log), True))"

text \<open>The returned function is the command it runs.\<close>

definition SetupIPv6Default :: "sys_env \<Rightarrow> string \<Rightarrow> addr \<Rightarrow> cmd_log \<Rightarrow> cmd_log \<times> string list option" where
  "SetupIPv6Default env iface client log =
     (let gw = addr_string (tunnelGateway6 client)
      in case runCmd env [''netsh'', ''interface'', ''ipv6'', ''add'', ''route'', ''::/0'', iface, gw] log of
           (log, False) \<Rightarrow> (log, None)
         | (log, True) \<Rightarrow> (log, Some [''netsh'', ''interface'', ''ipv6'', ''delete'', ''route'', ''::/0'', iface, gw]))"

section \<open>Reading the system's tables\<close>

definition table_lines :: "string \<Rightarrow> string list list" where
  "table_lines out = map str_fields (split_on (CHR 0x0A) out)"

fun if_index_rows :: "string \<Rightarrow> string list list \<Rightarrow> int option" where
  "if_index_rows name [] = None"
| "if_index_rows name (f # rows) =
     (if 5 \<le> length f \<and> trim_space (join_with '' '' (drop 4 f)) = name
      then (case atoi (f ! 0) of Some i \<Rightarrow> Some i | None \<Rightarrow> if_index_rows name rows)
      else if_index_rows name rows)"

definition ifIndex :: "sys_env \<Rightarrow> string \<Rightarrow> cmd_log \<Rightarrow> cmd_log \<times> int option" where
  "ifIndex env name log =
     (case cmd_output env [''netsh'', ''interface'', ''ipv4'', ''show'', ''interfaces''] log of
        (log, out) \<Rightarrow> (log, Option.bind out (\<lambda>out. if_index_rows name (table_lines out))))"

text \<open>The value of \<open>Atoi\<close> when its error is ignored: zero, or the bound that was passed.\<close>

definition atoi_value :: "string \<Rightarrow> int" where
  "atoi_value s =
     (case atoi s of
        Some v \<Rightarrow> v
      | None \<Rightarrow>
          (let ds = (case s of [] \<Rightarrow> [] | c # t \<Rightarrow> if c = CHR ''-'' \<or> c = CHR ''+'' then t else s)
           in if ds = [] \<or> \<not> list_all is_digit ds then 0
              else if hd s = CHR ''-'' then - (2 ^ 63) else 2 ^ 63 - 1))"

definition gateway_row :: "string list \<Rightarrow> (addr \<times> int) option" where
  "gateway_row f =
     (if 5 \<le> length f \<and> f ! 0 = ''0.0.0.0'' \<and> f ! 1 = ''0.0.0.0''
      then map_option (\<lambda>gw. (gw, atoi_value (last f))) (parse_addr (f ! 2)) else None)"

fun best_gateway :: "string list list \<Rightarrow> addr \<times> int \<Rightarrow> addr \<times> int" where
  "best_gateway [] b = b"
| "best_gateway (f # rows) b =
     (case gateway_row f of
        None \<Rightarrow> best_gateway rows b
      | Some (gw, m) \<Rightarrow> best_gateway rows (if m < snd b then (gw, m) else b))"

definition defaultGatewayWin :: "sys_env \<Rightarrow> cmd_log \<Rightarrow> cmd_log \<times> (addr \<times> int) option" where
  "defaultGatewayWin env log =
     (case cmd_output env [''route'', ''print'', ''-4''] log of
        (log, None) \<Rightarrow> (log, None)
      | (log, Some out) \<Rightarrow>
          (let gw = fst (best_gateway (table_lines out) (NoAddr, 2 ^ 63 - 1))
           in (log, if addr_is_valid gw then Some (gw, 0) else None)))"

section \<open>The full route\<close>

datatype win_error = WResolve | WNoIPv4 | WGateway | WIndex | WBypass | WHalf string

text \<open>What the returned cleanup undoes.\<close>

record win_cleanup =
  wc_iface :: string
  wc_dns :: bool
  wc_added :: "(string \<times> string) list"
  wc_server :: string

definition server_host :: "string \<Rightarrow> string" where
  "server_host server =
     (case last_index (CHR '':'') server of Some i \<Rightarrow> if 0 < i then take i server else server | None \<Rightarrow> server)"

text \<open>\<open>To4\<close> and \<open>AddrFromSlice\<close>.\<close>

fun ip_v4 :: "addr \<Rightarrow> addr option" where
  "ip_v4 (Addr4 w) = Some (Addr4 w)"
| "ip_v4 (Addr6 w z) = (if addr_is4in6 (Addr6 w z) then Some (Addr4 (ucast w)) else None)"
| "ip_v4 NoAddr = None"

definition server_ip :: "sys_env \<Rightarrow> string \<Rightarrow> win_error + addr" where
  "server_ip env server =
     (case parse_addr (server_host server) of
        Some a \<Rightarrow> Inr a
      | None \<Rightarrow>
          (case we_lookup env (server_host server) of
             None \<Rightarrow> Inl WResolve
           | Some ips \<Rightarrow> (case List.map_filter ip_v4 ips of [] \<Rightarrow> Inl WNoIPv4 | a # _ \<Rightarrow> Inr a)))"

fun delete_routes :: "sys_env \<Rightarrow> (string \<times> string) list \<Rightarrow> cmd_log \<Rightarrow> cmd_log" where
  "delete_routes env [] log = log"
| "delete_routes env ((d, m) # rs) log = delete_routes env rs (fst (runCmd env [''route'', ''delete'', d, ''mask'', m] log))"

text \<open>The two halves of the default route; a failure takes down what was added, and the bypass.\<close>

fun add_halves ::
  "sys_env \<Rightarrow> string \<Rightarrow> string \<Rightarrow> string \<Rightarrow> (string \<times> string) list \<Rightarrow> (string \<times> string) list \<Rightarrow> cmd_log \<Rightarrow> cmd_log \<times> (win_error + (string \<times> string) list)" where
  "add_halves env srv gw idx added [] log = (log, Inr added)"
| "add_halves env srv gw idx added ((d, m) # hs) log =
     (case runCmd env [''route'', ''add'', d, ''mask'', m, gw, ''metric'', ''1'', ''if'', idx] log of
        (log, True) \<Rightarrow> add_halves env srv gw idx (added @ [(d, m)]) hs log
      | (log, False) \<Rightarrow> (fst (runCmd env [''route'', ''delete'', srv] (delete_routes env added log)), Inl (WHalf d)))"

definition route_halves :: "(string \<times> string) list" where
  "route_halves = [(''0.0.0.0'', ''128.0.0.0''), (''128.0.0.0'', ''128.0.0.0'')]"

fun set_dns :: "sys_env \<Rightarrow> string \<Rightarrow> nat \<Rightarrow> string list \<Rightarrow> bool \<Rightarrow> cmd_log \<Rightarrow> cmd_log \<times> bool" where
  "set_dns env iface i [] ok log = (log, ok)"
| "set_dns env iface i (d # ds) ok log =
     (if i = 0 then
        (case runCmd env [''netsh'', ''interface'', ''ip'', ''set'', ''dns'', ''name='' @ iface, ''static'', d, ''primary''] log of
           (log, ok) \<Rightarrow> set_dns env iface 1 ds ok log)
      else set_dns env iface (i + 1) ds ok
             (fst (runCmd env [''netsh'', ''interface'', ''ip'', ''add'', ''dns'', ''name='' @ iface, d,
                               ''index='' @ itoa (int i + 1)] log)))"

definition bypass_cmd :: "string \<Rightarrow> addr \<Rightarrow> int \<Rightarrow> string list" where
  "bypass_cmd srv gw idx =
     [''route'', ''add'', srv, ''mask'', ''255.255.255.255'', addr_string gw, ''metric'', ''1'']
     @ (if 0 < idx then [''if'', itoa idx] else [])"

definition SetupFullRoute ::
  "sys_env \<Rightarrow> string \<Rightarrow> string \<Rightarrow> addr \<Rightarrow> string list \<Rightarrow> cmd_log \<Rightarrow> cmd_log \<times> (win_error + win_cleanup)" where
  "SetupFullRoute env iface server client dns log =
     (case server_ip env server of
        Inl e \<Rightarrow> (log, Inl e)
      | Inr ip \<Rightarrow>
          (case defaultGatewayWin env log of
             (log, None) \<Rightarrow> (log, Inl WGateway)
           | (log, Some (gw, gwIdx)) \<Rightarrow>
               (case ifIndex env iface log of
                  (log, None) \<Rightarrow> (log, Inl WIndex)
                | (log, Some idx) \<Rightarrow>
                    (let srv = addr_string ip
                     in case runCmd env (bypass_cmd srv gw gwIdx) log of
                          (log, False) \<Rightarrow> (log, Inl WBypass)
                        | (log, True) \<Rightarrow>
                            (case add_halves env srv (addr_string (tunnelGateway client)) (itoa idx) [] route_halves log of
                               (log, Inl e) \<Rightarrow> (log, Inl e)
                             | (log, Inr added) \<Rightarrow>
                                 (case set_dns env iface 0 dns False log of
                                    (log, ok) \<Rightarrow>
                                      (log, Inr \<lparr>wc_iface = iface, wc_dns = ok, wc_added = added, wc_server = srv\<rparr>)))))))"

definition route_cleanup :: "sys_env \<Rightarrow> win_cleanup \<Rightarrow> cmd_log \<Rightarrow> cmd_log" where
  "route_cleanup env c log =
     (let log = (if wc_dns c then fst (runCmd env [''netsh'', ''interface'', ''ip'', ''set'', ''dns'', ''name='' @ wc_iface c, ''dhcp''] log)
                 else log)
      in fst (runCmd env [''route'', ''delete'', wc_server c] (delete_routes env (wc_added c) log)))"

definition RunPingTest :: "sys_env \<Rightarrow> string \<Rightarrow> int \<Rightarrow> cmd_log \<Rightarrow> cmd_log \<times> bool" where
  "RunPingTest env dst count log =
     (case cmd_output env [''ping'', ''-n'', itoa count, ''-w'', ''5000'', dst] log of
        (log, None) \<Rightarrow> (log, False)
      | (log, Some out) \<Rightarrow> (log, str_contains out ''TTL='' \<or> str_contains out ''ttl=''))"

end
