(* ===== verification/Console.thy ===== *)
theory Console
  imports Winnet PumpSpec
begin

text \<open>
  The console client (\<open>cmd/vpn-client\<close>): its run on one profile and what it asks of the
  platform, for Linux (\<open>iface_linux.go\<close>) and Windows (\<open>iface_windows.go\<close>, whose functions are
  those of \<open>winnet\<close> but for the test route and the ping).
\<close>

section \<open>Linux\<close>

definition lin_ifUp :: "sys_env \<Rightarrow> string \<Rightarrow> prefix \<Rightarrow> cmd_log \<Rightarrow> cmd_log \<times> bool" where
  "lin_ifUp env iface p log =
     (case runCmd env [''ip'', ''addr'', ''add'', prefix_string p, ''dev'', iface] log of
        (log, False) \<Rightarrow> (log, False)
      | (log, True) \<Rightarrow> runCmd env [''ip'', ''link'', ''set'', ''dev'', iface, ''up''] log)"

definition lin_ifUpIPv6 :: "sys_env \<Rightarrow> string \<Rightarrow> prefix \<Rightarrow> cmd_log \<Rightarrow> cmd_log \<times> bool" where
  "lin_ifUpIPv6 env iface p log =
     runCmd env [''ip'', ''addr'', ''add'', prefix_string (prefix_from (px_addr p) 64), ''dev'', iface] log"

type_synonym cleanup = "cmd_log \<Rightarrow> cmd_log"

text \<open>A command, and the cleanup that runs another when it succeeds.\<close>

definition undone_by :: "sys_env \<Rightarrow> string list \<Rightarrow> string list \<Rightarrow> cmd_log \<Rightarrow> cmd_log \<times> cleanup option" where
  "undone_by env args undo log =
     (case runCmd env args log of
        (log, False) \<Rightarrow> (log, None)
      | (log, True) \<Rightarrow> (log, Some (\<lambda>l. fst (runCmd env undo l))))"

definition lin_setupIPv6Default :: "sys_env \<Rightarrow> string \<Rightarrow> addr \<Rightarrow> cmd_log \<Rightarrow> cmd_log \<times> cleanup option" where
  "lin_setupIPv6Default env iface client log =
     undone_by env
       ([''ip'', ''-6'', ''route'', ''add'', ''::/0'', ''dev'', iface]
        @ (if addr_is6 client then [''src'', addr_string client] else []))
       [''ip'', ''-6'', ''route'', ''del'', ''::/0'', ''dev'', iface] log"

definition lin_setupTestRoute :: "sys_env \<Rightarrow> string \<Rightarrow> addr \<Rightarrow> addr \<Rightarrow> cmd_log \<Rightarrow> cmd_log \<times> cleanup option" where
  "lin_setupTestRoute env iface dst src log =
     (let fam = (if addr_is6 dst then [''-6''] else []);
          route = addr_string dst @ (if addr_is6 dst then ''/128'' else ''/32'')
      in undone_by env (''ip'' # fam @ [''route'', ''add'', route, ''dev'', iface, ''src'', addr_string src])
           (''ip'' # fam @ [''route'', ''del'', route, ''dev'', iface]) log)"

text \<open>The words after the last \<open>via\<close> and the last \<open>dev\<close>.\<close>

fun route_words :: "string list \<Rightarrow> string \<times> string \<Rightarrow> string \<times> string" where
  "route_words (a # b # ws) (gw, dev) =
     route_words (b # ws) (if a = ''via'' then (b, dev) else if a = ''dev'' then (gw, b) else (gw, dev))"
| "route_words _ r = r"

definition lin_defaultGateway :: "sys_env \<Rightarrow> cmd_log \<Rightarrow> cmd_log \<times> (addr \<times> string) option" where
  "lin_defaultGateway env log =
     (case cmd_output env [''ip'', ''route'', ''show'', ''default''] log of
        (log, None) \<Rightarrow> (log, None)
      | (log, Some out) \<Rightarrow>
          (case route_words (str_fields out) ([], []) of
             (gw, dev) \<Rightarrow>
               (log, if gw = [] \<or> dev = [] then None else map_option (\<lambda>a. (a, dev)) (parse_addr gw))))"

fun lin_delete_halves :: "sys_env \<Rightarrow> string \<Rightarrow> string list \<Rightarrow> cmd_log \<Rightarrow> cmd_log" where
  "lin_delete_halves env iface [] log = log"
| "lin_delete_halves env iface (h # hs) log =
     lin_delete_halves env iface hs (fst (runCmd env [''ip'', ''route'', ''del'', h, ''dev'', iface] log))"

fun lin_add_halves ::
  "sys_env \<Rightarrow> string \<Rightarrow> string list \<Rightarrow> string list \<Rightarrow> string list \<Rightarrow> cmd_log \<Rightarrow> cmd_log \<times> string list option" where
  "lin_add_halves env iface undo added [] log = (log, Some added)"
| "lin_add_halves env iface undo added (h # hs) log =
     (case runCmd env [''ip'', ''route'', ''add'', h, ''dev'', iface] log of
        (log, True) \<Rightarrow> lin_add_halves env iface undo (added @ [h]) hs log
      | (log, False) \<Rightarrow> (fst (runCmd env undo (lin_delete_halves env iface added log)), None))"

definition lin_halves :: "string list" where
  "lin_halves = [''0.0.0.0/1'', ''128.0.0.0/1'']"

definition lin_setupFullRoute ::
  "sys_env \<Rightarrow> string \<Rightarrow> string \<Rightarrow> addr \<Rightarrow> string list \<Rightarrow> cmd_log \<Rightarrow> cmd_log \<times> cleanup option" where
  "lin_setupFullRoute env iface server client dns log =
     (case parse_addr (server_host server) of
        None \<Rightarrow> (log, None)
      | Some ip \<Rightarrow>
          (case lin_defaultGateway env log of
             (log, None) \<Rightarrow> (log, None)
           | (log, Some (gw, dev)) \<Rightarrow>
               (let srv = addr_string ip @ ''/32'';
                    undo = [''ip'', ''route'', ''del'', srv, ''via'', addr_string gw, ''dev'', dev]
                in case runCmd env [''ip'', ''route'', ''add'', srv, ''via'', addr_string gw, ''dev'', dev] log of
                     (log, False) \<Rightarrow> (log, None)
                   | (log, True) \<Rightarrow>
                       (case lin_add_halves env iface undo [] lin_halves log of
                          (log, None) \<Rightarrow> (log, None)
                        | (log, Some added) \<Rightarrow>
                            (log, Some (\<lambda>l. fst (runCmd env undo (lin_delete_halves env iface added l))))))))"

definition lin_runPingTest :: "sys_env \<Rightarrow> string \<Rightarrow> string \<Rightarrow> int \<Rightarrow> cmd_log \<Rightarrow> cmd_log \<times> bool" where
  "lin_runPingTest env dst iface count log =
     runCmd env (''ping'' # (if str_contains dst '':'' then [''-6''] else [])
       @ [''-c'', itoa count, ''-W'', ''5'', ''-I'', iface, dst]) log"

section \<open>Windows\<close>

definition win_setupTestRoute :: "sys_env \<Rightarrow> string \<Rightarrow> addr \<Rightarrow> addr \<Rightarrow> cmd_log \<Rightarrow> cmd_log \<times> cleanup option" where
  "win_setupTestRoute env iface dst src log =
     (if addr_is6 dst then
        (let gw = addr_string (tunnelGateway6 src); pfx = addr_string dst @ ''/128''
         in undone_by env [''netsh'', ''interface'', ''ipv6'', ''add'', ''route'', pfx, iface, gw]
              [''netsh'', ''interface'', ''ipv6'', ''delete'', ''route'', pfx, iface, gw] log)
      else
        (case ifIndex env iface log of
           (log, None) \<Rightarrow> (log, None)
         | (log, Some idx) \<Rightarrow>
             undone_by env [''route'', ''add'', addr_string dst, ''mask'', ''255.255.255.255'', addr_string (tunnelGateway src),
                            ''metric'', ''1'', ''if'', itoa idx]
               [''route'', ''delete'', addr_string dst] log))"

definition win_runPingTest :: "sys_env \<Rightarrow> string \<Rightarrow> string \<Rightarrow> int \<Rightarrow> cmd_log \<Rightarrow> cmd_log \<times> bool" where
  "win_runPingTest env dst iface count log =
     (case cmd_output env (''ping'' # (if str_contains dst '':'' then [''-6''] else [])
                           @ [''-n'', itoa count, ''-w'', ''5000'', dst]) log of
        (log, None) \<Rightarrow> (log, False)
      | (log, Some out) \<Rightarrow>
          (log, str_contains out ''TTL='' \<or> str_contains out ''ttl='' \<or> str_contains out ''time='' \<or> str_contains out ''Reply from''))"

section \<open>The platform\<close>

record platform =
  pl_ifUp :: "string \<Rightarrow> prefix \<Rightarrow> cmd_log \<Rightarrow> cmd_log \<times> bool"
  pl_ifUpIPv6 :: "string \<Rightarrow> prefix \<Rightarrow> cmd_log \<Rightarrow> cmd_log \<times> bool"
  pl_full :: "string \<Rightarrow> string \<Rightarrow> addr \<Rightarrow> string list \<Rightarrow> cmd_log \<Rightarrow> cmd_log \<times> cleanup option"
  pl_default6 :: "string \<Rightarrow> addr \<Rightarrow> cmd_log \<Rightarrow> cmd_log \<times> cleanup option"
  pl_test :: "string \<Rightarrow> addr \<Rightarrow> addr \<Rightarrow> cmd_log \<Rightarrow> cmd_log \<times> cleanup option"
  pl_ping :: "string \<Rightarrow> string \<Rightarrow> int \<Rightarrow> cmd_log \<Rightarrow> cmd_log \<times> bool"

datatype os = Linux | Windows

definition platform_of :: "sys_env \<Rightarrow> os \<Rightarrow> platform" where
  "platform_of env os =
     (case os of
        Linux \<Rightarrow> \<lparr>pl_ifUp = lin_ifUp env, pl_ifUpIPv6 = lin_ifUpIPv6 env, pl_full = lin_setupFullRoute env,
                   pl_default6 = lin_setupIPv6Default env, pl_test = lin_setupTestRoute env, pl_ping = lin_runPingTest env\<rparr>
      | Windows \<Rightarrow>
          \<lparr>pl_ifUp = IfUp env, pl_ifUpIPv6 = IfUpIPv6 env,
           pl_full = (\<lambda>iface server client dns log. case SetupFullRoute env iface server client dns log of
              (log, Inl _) \<Rightarrow> (log, None) | (log, Inr c) \<Rightarrow> (log, Some (route_cleanup env c))),
           pl_default6 = (\<lambda>iface client log. case SetupIPv6Default env iface client log of
              (log, None) \<Rightarrow> (log, None) | (log, Some undo) \<Rightarrow> (log, Some (\<lambda>l. fst (runCmd env undo l)))),
           pl_test = win_setupTestRoute env, pl_ping = win_runPingTest env\<rparr>)"

section \<open>The run\<close>

record console = world +
  co_log :: cmd_log
  co_tun :: bool

datatype console_error =
  NoTun | ConnectFailed connect_error | NoAddress | NoIPv4Address | UpFailed | Up6Failed | FullFailed | Default6Failed
| BadDst | DstNeedsIPv6 | TestFailed | RunFailed

text \<open>How the wait of the full mode ends: a signal, the end of the forwarding, the timeout.\<close>

datatype console_wait = WaitSignal | WaitRun bool | WaitTimeout

definition on_log :: "(cmd_log \<Rightarrow> cmd_log \<times> 'a) \<Rightarrow> console \<Rightarrow> console \<times> 'a" where
  "on_log f s = (case f (co_log s) of (log, r) \<Rightarrow> (s\<lparr>co_log := log\<rparr>, r))"

definition console_fail :: "session \<Rightarrow> console_error \<Rightarrow> console \<Rightarrow> console \<times> (console_error + 'a)" where
  "console_fail sess e s = (fst (Session_Close sess s), Inl e)"

definition console_up :: "platform \<Rightarrow> string \<Rightarrow> session \<Rightarrow> console \<Rightarrow> console \<times> (console_error + prefix \<times> prefix)" where
  "console_up pl name sess s =
     (if ss_AssignedPrefixes sess = [] then console_fail sess NoAddress s
      else case SplitAssigned (ss_AssignedPrefixes sess) of
             (v4, v6) \<Rightarrow>
               if \<not> prefix_is_valid v4 then console_fail sess NoIPv4Address s
               else case on_log (pl_ifUp pl name v4) s of
                      (s, False) \<Rightarrow> console_fail sess UpFailed s
                    | (s, True) \<Rightarrow>
                        if \<not> prefix_is_valid v6 then (s, Inr (v4, v6))
                        else (case on_log (pl_ifUpIPv6 pl name v6) s of
                                (s, False) \<Rightarrow> console_fail sess Up6Failed s
                              | (s, True) \<Rightarrow> (s, Inr (v4, v6))))"

definition console_full ::
  "platform \<Rightarrow> profile \<Rightarrow> string \<Rightarrow> session \<Rightarrow> prefix \<Rightarrow> prefix \<Rightarrow> console \<Rightarrow> console \<times> (console_error + cleanup)" where
  "console_full pl prof name sess v4 v6 s =
     (case on_log (pl_full pl name (pf_Server prof) (px_addr v4) (pf_DNS prof)) s of
        (s, None) \<Rightarrow> console_fail sess FullFailed s
      | (s, Some c) \<Rightarrow>
          if \<not> prefix_is_valid v6 then (s, Inr c)
          else (case on_log (pl_default6 pl name (px_addr v6)) s of
                  (s, None) \<Rightarrow> console_fail sess Default6Failed (s\<lparr>co_log := c (co_log s)\<rparr>)
                | (s, Some c6) \<Rightarrow> (s, Inr (\<lambda>l. c (c6 l)))))"

definition console_test ::
  "platform \<Rightarrow> string \<Rightarrow> string \<Rightarrow> session \<Rightarrow> prefix \<Rightarrow> prefix \<Rightarrow> console \<Rightarrow> console \<times> (console_error + cleanup)" where
  "console_test pl testDst name sess v4 v6 s =
     (case parse_addr testDst of
        None \<Rightarrow> console_fail sess BadDst s
      | Some dst \<Rightarrow>
          if addr_is6 dst \<and> \<not> prefix_is_valid v6 then console_fail sess DstNeedsIPv6 s
          else (case on_log (pl_test pl name dst (if addr_is6 dst then px_addr v6 else px_addr v4)) s of
                  (s, None) \<Rightarrow> console_fail sess TestFailed s
                | (s, Some c) \<Rightarrow> (s, Inr c)))"

text \<open>Forwarding; a \<open>Run\<close> that ends has closed the session before it is closed again.\<close>

definition console_forward ::
  "platform \<Rightarrow> bool \<Rightarrow> bool \<Rightarrow> string \<Rightarrow> int \<Rightarrow> console_wait \<Rightarrow> string \<Rightarrow> session \<Rightarrow> console \<Rightarrow> console \<times> console_error option" where
  "console_forward pl testMode fullRoute testDst pingCount wait name sess s =
     (if testMode \<and> \<not> fullRoute then
        (case on_log (pl_ping pl testDst name pingCount) s of (s, _) \<Rightarrow> (fst (Session_Close sess s), None))
      else case wait of
        WaitRun failed \<Rightarrow>
          (case Session_Close sess s of
             (s, sess) \<Rightarrow> (fst (Session_Close sess s), if failed then Some RunFailed else None))
      | _ \<Rightarrow> (fst (Session_Close sess s), None))"

definition console_session ::
  "platform \<Rightarrow> profile \<Rightarrow> bool \<Rightarrow> bool \<Rightarrow> string \<Rightarrow> int \<Rightarrow> console_wait \<Rightarrow> string \<Rightarrow> session \<Rightarrow> console \<Rightarrow> console \<times> console_error option" where
  "console_session pl prof testMode fullRoute testDst pingCount wait name sess s =
     (case console_up pl name sess s of
        (s, Inl e) \<Rightarrow> (s, Some e)
      | (s, Inr (v4, v6)) \<Rightarrow>
          (case (if fullRoute then console_full pl prof name sess v4 v6 s else console_test pl testDst name sess v4 v6 s) of
             (s, Inl e) \<Rightarrow> (s, Some e)
           | (s, Inr c) \<Rightarrow>
               (case console_forward pl testMode fullRoute testDst pingCount wait name sess s of
                  (s, r) \<Rightarrow> (s\<lparr>co_log := c (co_log s)\<rparr>, r))))"

definition console_run ::
  "platform \<Rightarrow> string option \<Rightarrow> connect_env \<Rightarrow> profile \<Rightarrow> bool \<Rightarrow> bool \<Rightarrow> string \<Rightarrow> int \<Rightarrow> console_wait \<Rightarrow> console \<Rightarrow> console \<times> console_error option" where
  "console_run pl dev env prof testMode fullRoute testDst pingCount wait s =
     (case dev of
        None \<Rightarrow> (s, Some NoTun)
      | Some name \<Rightarrow>
          (case Connect env prof True (s\<lparr>co_tun := True\<rparr>) of
             (s, Inl e) \<Rightarrow> (s\<lparr>co_tun := False\<rparr>, Some (ConnectFailed e))
           | (s, Inr sess) \<Rightarrow>
               (case console_session pl prof testMode fullRoute testDst pingCount wait name sess s of
                  (s, r) \<Rightarrow> (s\<lparr>co_tun := False\<rparr>, r))))"

end
