(* ===== verification/WinnetProps.thy ===== *)
theory WinnetProps
  imports Winnet
begin

text \<open>The routes that were added and not deleted, at every moment of the commands' log.\<close>

section \<open>Routes owed\<close>

definition route_effect :: "string list \<times> bool \<Rightarrow> string set \<Rightarrow> string set" where
  "route_effect c s =
     (case c of
        (a # b # d # _, ok) \<Rightarrow>
          if a = ''route'' \<and> b = ''add'' \<and> ok then insert d s
          else if a = ''route'' \<and> b = ''delete'' then s - {d} else s
      | _ \<Rightarrow> s)"

definition owed :: "cmd_log \<Rightarrow> string set" where
  "owed log = fold route_effect log {}"

text \<open>While a half of the default route goes through the tunnel, the server's own route is there.\<close>

definition covered :: "string \<Rightarrow> cmd_log \<Rightarrow> bool" where
  "covered srv log \<longleftrightarrow> (''0.0.0.0'' \<in> owed log \<or> ''128.0.0.0'' \<in> owed log \<longrightarrow> srv \<in> owed log)"

text \<open>A log grew, and a property held at every moment.\<close>

definition through :: "(cmd_log \<Rightarrow> bool) \<Rightarrow> cmd_log \<Rightarrow> cmd_log \<Rightarrow> bool" where
  "through P log log' \<longleftrightarrow> (\<exists>xs. log' = log @ xs \<and> (\<forall>k \<le> length xs. P (log @ take k xs)))"

lemma through_refl: "P log \<Longrightarrow> through P log log"
  unfolding through_def by (intro exI[of _ "[]"]) simp

lemma through_last: "through P log log' \<Longrightarrow> P log'"
  unfolding through_def by force

lemma through_snoc: "through P log log' \<Longrightarrow> P (log' @ [c]) \<Longrightarrow> through P log (log' @ [c])"
proof -
  assume t: "through P log log'" and p: "P (log' @ [c])"
  obtain xs where xs: "log' = log @ xs" "\<And>k. k \<le> length xs \<Longrightarrow> P (log @ take k xs)" using t unfolding through_def by blast
  have "P (log @ take k (xs @ [c]))" if "k \<le> length (xs @ [c])" for k
    using that xs(2)[of k] p xs(1) by (cases "k \<le> length xs") (auto simp: le_Suc_eq)
  then show "through P log (log' @ [c])" unfolding through_def xs(1) by (intro exI[of _ "xs @ [c]"]) simp
qed

lemma owed_snoc [simp]: "owed (log @ [c]) = route_effect c (owed log)"
  by (simp add: owed_def)

lemma runCmd_log: "runCmd env args log = (log', ok) \<Longrightarrow> log' = log @ [(args, ok)]"
  by (auto simp: runCmd_def cmd_output_def split: prod.splits if_splits)

lemma runCmd_fst: "fst (runCmd env args log) = log @ [(args, snd (runCmd env args log))]"
  using runCmd_log[of env args log] by (metis prod.collapse)

lemma cmd_output_log: "cmd_output env args log = (log', out) \<Longrightarrow> log' = log @ [(args, out \<noteq> None)]"
  by (auto simp: cmd_output_def split: prod.splits if_splits)

lemma effect_simps [simp]:
  "route_effect (''route'' # ''add'' # d # xs, ok) s = (if ok then insert d s else s)"
  "route_effect (''route'' # ''delete'' # d # xs, ok) s = s - {d}"
  "route_effect (''route'' # ''print'' # xs, ok) s = s"
  "route_effect (''netsh'' # xs, ok) s = s"
  by (simp_all add: route_effect_def split: list.split)

text \<open>Commands that leave the routes alone.\<close>

lemma through_quiet:
  assumes "through (covered srv) log log'" "\<And>ok s. route_effect (args, ok) s = s"
  shows "through (covered srv) log (log' @ [(args, ok)])" "owed (log' @ [(args, ok)]) = owed log'"
  using assms(2) through_last[OF assms(1)] by (auto intro!: through_snoc[OF assms(1)] simp: covered_def)

lemma through_dns:
  "through (covered srv) log log' \<Longrightarrow> set_dns env iface i ds b log' = (log'', b') \<Longrightarrow>
   through (covered srv) log log'' \<and> owed log'' = owed log'"
proof (induction env iface i ds b log' rule: set_dns.induct)
  case (2 env iface i d ds ok log1)
  show ?case
  proof (cases "i = 0")
    case True
    obtain l k where r: "runCmd env [''netsh'', ''interface'', ''ip'', ''set'', ''dns'', ''name='' @ iface, ''static'', d, ''primary''] log1 = (l, k)"
      by (cases "runCmd env [''netsh'', ''interface'', ''ip'', ''set'', ''dns'', ''name='' @ iface, ''static'', d, ''primary''] log1")
    have t: "through (covered srv) log l" "owed l = owed log1"
      using through_quiet[OF 2(3)] runCmd_log[OF r] by simp_all
    from 2(1)[OF True r[symmetric] t(1)] 2(4) True r t(2) show ?thesis by simp
  next
    case False
    let ?l = "fst (runCmd env [''netsh'', ''interface'', ''ip'', ''add'', ''dns'', ''name='' @ iface, d, ''index='' @ itoa (int i + 1)] log1)"
    have t: "through (covered srv) log ?l" "owed ?l = owed log1"
      using through_quiet[OF 2(3)] by (simp_all add: runCmd_fst)
    from 2(2)[OF False t(1)] 2(4) False t(2) show ?thesis by simp
  qed
qed simp

text \<open>Deleting some halves, then the server's route.\<close>

lemma through_delete:
  "through (covered srv) log log' \<Longrightarrow> srv \<in> owed log' \<Longrightarrow> srv \<notin> fst ` set rs \<Longrightarrow>
   through (covered srv) log (delete_routes env rs log') \<and> owed (delete_routes env rs log') = owed log' - fst ` set rs"
proof (induction env rs log' rule: delete_routes.induct)
  case (2 env d m rs log1)
  let ?l = "fst (runCmd env [''route'', ''delete'', d, ''mask'', m] log1)"
  have o: "owed ?l = owed log1 - {d}" by (simp add: runCmd_fst)
  have "through (covered srv) log ?l"
    unfolding runCmd_fst using 2(3,4) by (intro through_snoc[OF 2(2)]) (simp add: covered_def)
  from 2(1)[OF this] o 2(3,4) show ?case by auto
qed simp

lemma through_take_down:
  assumes "through (covered srv) log log'" "srv \<in> owed log'" "srv \<notin> fst ` set rs"
    and "owed log' \<inter> {''0.0.0.0'', ''128.0.0.0''} \<subseteq> fst ` set rs"
  shows "through (covered srv) log (fst (runCmd env [''route'', ''delete'', srv] (delete_routes env rs log')))"
    "owed (fst (runCmd env [''route'', ''delete'', srv] (delete_routes env rs log'))) = owed log' - insert srv (fst ` set rs)"
proof -
  let ?d = "delete_routes env rs log'"
  have d: "through (covered srv) log ?d" "owed ?d = owed log' - fst ` set rs"
    using through_delete[OF assms(1-3), of env] by blast+
  show o: "owed (fst (runCmd env [''route'', ''delete'', srv] ?d)) = owed log' - insert srv (fst ` set rs)"
    by (auto simp: runCmd_fst d(2))
  have "covered srv (fst (runCmd env [''route'', ''delete'', srv] ?d))"
    using assms(4) unfolding covered_def o by blast
  then show "through (covered srv) log (fst (runCmd env [''route'', ''delete'', srv] ?d))"
    unfolding runCmd_fst by (rule through_snoc[OF d(1)])
qed

lemma through_add:
  assumes "through (covered srv) log log'" "srv \<in> owed log'"
  shows "through (covered srv) log (log' @ [(''route'' # ''add'' # d # xs, ok)])"
  using assms by (intro through_snoc) (auto simp: covered_def)

section \<open>The full route\<close>

lemma halves_undone:
  assumes t: "through (covered srv) log log1" and s: "srv \<in> owed log1" "srv \<notin> {''0.0.0.0'', ''128.0.0.0''}"
    and clean: "owed log1 \<inter> {''0.0.0.0'', ''128.0.0.0''} = {}"
    and h: "add_halves env srv gw idx [] route_halves log1 = (log', r)"
  shows "through (covered srv) log log' \<and>
    (case r of Inl _ \<Rightarrow> owed log' = owed log1 - {srv, ''0.0.0.0'', ''128.0.0.0''}
     | Inr added \<Rightarrow> added = route_halves \<and> owed log' = owed log1 \<union> {''0.0.0.0'', ''128.0.0.0''})"
proof -
  define a1 where "a1 = [''route'', ''add'', ''0.0.0.0'', ''mask'', ''128.0.0.0'', gw, ''metric'', ''1'', ''if'', idx]"
  define a2 where "a2 = [''route'', ''add'', ''128.0.0.0'', ''mask'', ''128.0.0.0'', gw, ''metric'', ''1'', ''if'', idx]"
  obtain l1 k1 where r1: "runCmd env a1 log1 = (l1, k1)" by (cases "runCmd env a1 log1")
  have l1: "l1 = log1 @ [(a1, k1)]" by (rule runCmd_log[OF r1])
  have t1: "through (covered srv) log l1" unfolding l1 a1_def by (rule through_add[OF t s(1)])
  have o1: "owed l1 = (if k1 then insert ''0.0.0.0'' (owed log1) else owed log1)" by (simp add: l1 a1_def)
  have s1: "srv \<in> owed l1" using s(1) o1 by auto
  show ?thesis
  proof (cases k1)
    case False
    have "log' = fst (runCmd env [''route'', ''delete'', srv] (delete_routes env [] l1)) \<and> r = Inl (WHalf ''0.0.0.0'')"
      using h r1 False by (simp add: route_halves_def a1_def)
    moreover note through_take_down[OF t1 s1, of "[]" env]
    ultimately show ?thesis using o1 False clean by auto
  next
    case True
    obtain l2 k2 where r2: "runCmd env a2 l1 = (l2, k2)" by (cases "runCmd env a2 l1")
    have l2: "l2 = l1 @ [(a2, k2)]" by (rule runCmd_log[OF r2])
    have t2: "through (covered srv) log l2" unfolding l2 a2_def by (rule through_add[OF t1 s1])
    have o2: "owed l2 = (if k2 then insert ''128.0.0.0'' (owed l1) else owed l1)" by (simp add: l2 a2_def)
    have s2: "srv \<in> owed l2" using s1 o2 by auto
    show ?thesis
    proof (cases k2)
      case False
      have "log' = fst (runCmd env [''route'', ''delete'', srv] (delete_routes env [(''0.0.0.0'', ''128.0.0.0'')] l2)) \<and>
          r = Inl (WHalf ''128.0.0.0'')"
        using h r1 r2 True False by (simp add: route_halves_def a1_def a2_def)
      moreover have "srv \<notin> fst ` set [(''0.0.0.0'', ''128.0.0.0'')]" using s(2) by simp
      moreover have "owed l2 \<inter> {''0.0.0.0'', ''128.0.0.0''} \<subseteq> fst ` set [(''0.0.0.0'', ''128.0.0.0'')]"
        using o1 o2 True False clean by auto
      moreover note through_take_down[OF t2 s2, of "[(''0.0.0.0'', ''128.0.0.0'')]" env]
      ultimately show ?thesis using o1 o2 True False clean by auto
    next
      case k2: True
      have "log' = l2 \<and> r = Inr route_halves" using h r1 r2 True k2 by (simp add: route_halves_def a1_def a2_def)
      with t2 o1 o2 True k2 show ?thesis by auto
    qed
  qed
qed

lemma cleanup_undone:
  assumes c: "c = \<lparr>wc_iface = iface, wc_dns = ok, wc_added = route_halves, wc_server = srv\<rparr>"
    and p: "covered srv log" "srv \<in> owed log" "srv \<notin> {''0.0.0.0'', ''128.0.0.0''}"
  shows "through (covered srv) log (route_cleanup env c log)"
    "owed (route_cleanup env c log) = owed log - {''0.0.0.0'', ''128.0.0.0'', srv}"
proof -
  define l where "l = (if ok then fst (runCmd env [''netsh'', ''interface'', ''ip'', ''set'', ''dns'', ''name='' @ iface, ''dhcp''] log) else log)"
  have "through (covered srv) log log" using p(1) by (rule through_refl)
  then have t: "through (covered srv) log l" "owed l = owed log"
    using through_quiet[of srv log log] by (simp_all add: l_def runCmd_fst)
  have e: "route_cleanup env c log = fst (runCmd env [''route'', ''delete'', srv] (delete_routes env route_halves l))"
    by (simp add: c route_cleanup_def l_def Let_def)
  have "srv \<in> owed l" "srv \<notin> fst ` set route_halves" "owed l \<inter> {''0.0.0.0'', ''128.0.0.0''} \<subseteq> fst ` set route_halves"
    using p t(2) by (auto simp: route_halves_def)
  note w = through_take_down[OF t(1) this, of env, folded e]
  show "through (covered srv) log (route_cleanup env c log)" by (rule w(1))
  show "owed (route_cleanup env c log) = owed log - {''0.0.0.0'', ''128.0.0.0'', srv}"
    using w(2) t(2) by (auto simp: route_halves_def)
qed

text \<open>Up to the bypass route nothing is owed; after it the halves and the name servers follow.\<close>

lemma SetupFullRoute_cases:
  assumes s: "SetupFullRoute env iface server client dns log = (log', r)" and ip: "server_ip env server = Inr ip"
    and srv: "srv = addr_string ip" "srv \<notin> {''0.0.0.0'', ''128.0.0.0''}"
    and clean: "owed log \<inter> {''0.0.0.0'', ''128.0.0.0'', srv} = {}"
  obtains (early) e where "r = Inl e" "through (covered srv) log log'" "owed log' = owed log"
  | (bypass) l h gw idx where "through (covered srv) log l" "owed l = insert srv (owed log)"
      "add_halves env srv gw idx [] route_halves l = h"
      "case h of (l', Inl e) \<Rightarrow> log' = l' \<and> r = Inl e
       | (l', Inr added) \<Rightarrow> (\<exists>ok. set_dns env iface 0 dns False l' = (log', ok) \<and>
            r = Inr \<lparr>wc_iface = iface, wc_dns = ok, wc_added = added, wc_server = srv\<rparr>)"
proof -
  have t0: "through (covered srv) log log" using clean by (intro through_refl) (auto simp: covered_def)
  obtain l1 g where g: "defaultGatewayWin env log = (l1, g)" by (cases "defaultGatewayWin env log")
  have l1: "\<exists>ok. l1 = log @ [([''route'', ''print'', ''-4''], ok)]"
    using g cmd_output_log[of env "[''route'', ''print'', ''-4'']" log]
    by (auto simp: defaultGatewayWin_def Let_def split: prod.splits option.splits)
  then have t1: "through (covered srv) log l1" "owed l1 = owed log" using through_quiet[OF t0] by auto
  obtain l2 x where x: "ifIndex env iface l1 = (l2, x)" by (cases "ifIndex env iface l1")
  have l2: "\<exists>ok. l2 = l1 @ [([''netsh'', ''interface'', ''ipv4'', ''show'', ''interfaces''], ok)]"
    using x cmd_output_log[of env "[''netsh'', ''interface'', ''ipv4'', ''show'', ''interfaces'']" l1]
    by (auto simp: ifIndex_def split: prod.splits)
  then have t2: "through (covered srv) log l2" "owed l2 = owed log" using through_quiet[OF t1(1)] t1(2) by auto
  show ?thesis
  proof (cases "g = None \<or> x = None")
    case True
    with s ip g t1 t2 x early show ?thesis by (cases g) (auto simp: SetupFullRoute_def)
  next
    case False
    then obtain gw gwi idx where v: "g = Some (gw, gwi)" "x = Some idx" by auto
    obtain l3 k where b: "runCmd env (bypass_cmd srv gw gwi) l2 = (l3, k)" by (cases "runCmd env (bypass_cmd srv gw gwi) l2")
    have l3: "l3 = l2 @ [(bypass_cmd srv gw gwi, k)]" by (rule runCmd_log[OF b])
    have o3: "owed l3 = (if k then insert srv (owed log) else owed log)" by (simp add: l3 t2(2) bypass_cmd_def)
    have c3: "covered srv l3" using o3 clean srv(2) by (auto simp: covered_def)
    then have t3: "through (covered srv) log l3" unfolding l3 by (rule through_snoc[OF t2(1)])
    show ?thesis
    proof (cases k)
      case False
      then have "log' = l3 \<and> r = Inl WBypass" using s ip g x v b srv(1) by (simp add: SetupFullRoute_def Let_def)
      with early t3 o3 False show ?thesis by simp
    next
      case True
      show ?thesis
        by (rule bypass[OF t3 _ refl, of "addr_string (tunnelGateway client)" "itoa idx"])
          (use s ip g x v b srv(1) True o3 in \<open>auto simp: SetupFullRoute_def Let_def split: prod.splits sum.splits\<close>)
    qed
  qed
qed


definition demo_win :: sys_env where
  "demo_win = \<lparr>we_cmd = (\<lambda>log args.
       (if args = [''route'', ''print'', ''-4''] then ''0.0.0.0 0.0.0.0 192.168.0.1 192.168.0.7 25''
        else if args ! 0 = ''netsh'' then ''7 25 1369 connected masque0'' else [],
        length log \<noteq> 4)),
     we_lookup = (\<lambda>_. None)\<rparr>"


section \<open>The default gateway\<close>

definition better :: "addr \<times> int \<Rightarrow> addr \<times> int \<Rightarrow> addr \<times> int" where
  "better b r = (if snd r < snd b then r else b)"

lemma best_gateway_rows: "best_gateway rows b = foldl better b (List.map_filter gateway_row rows)"
  by (induction rows arbitrary: b) (auto simp: List.map_filter_simps better_def split: option.split)

lemma foldl_better:
  "(foldl better b rs = b \<and> (\<forall>r \<in> set rs. snd b \<le> snd r)) \<or>
   (\<exists>pre post. rs = pre @ foldl better b rs # post \<and> snd (foldl better b rs) < snd b \<and>
      (\<forall>r \<in> set pre. snd (foldl better b rs) < snd r) \<and> (\<forall>r \<in> set post. snd (foldl better b rs) \<le> snd r))"
proof (induction rs arbitrary: b)
  case (Cons r rs)
  let ?g = "foldl better (better b r) rs"
  have b: "snd (better b r) \<le> snd b" "snd (better b r) \<le> snd r" by (simp_all add: better_def)
  from Cons.IH[of "better b r"] show ?case
  proof (elim disjE exE conjE)
    assume g: "?g = better b r" "\<forall>x \<in> set rs. snd (better b r) \<le> snd x"
    show ?case
    proof (cases "snd r < snd b")
      case True
      then have "better b r = r" by (simp add: better_def)
      with g True show ?thesis by (intro disjI2 exI[of _ "[]"] exI[of _ rs]) simp
    next
      case False
      then have "better b r = b" by (simp add: better_def)
      with g False show ?thesis by (intro disjI1) simp
    qed
  next
    fix pre post
    assume "rs = pre @ ?g # post" "snd ?g < snd (better b r)" "\<forall>x \<in> set pre. snd ?g < snd x" "\<forall>x \<in> set post. snd ?g \<le> snd x"
    with b show ?case by (intro disjI2 exI[of _ "r # pre"] exI[of _ post]) auto
  qed
qed simp

text \<open>
  The gateway found is that of the first row of the routing table with the smallest metric of
  the default routes.
\<close>

theorem default_gateway_best:
  assumes "defaultGatewayWin env log = (log', Some (gw, i))" "we_cmd env log [''route'', ''print'', ''-4''] = (out, True)"
  shows "\<exists>pre m post. List.map_filter gateway_row (table_lines out) = pre @ (gw, m) # post \<and>
    (\<forall>(g, n) \<in> set pre. m < n) \<and> (\<forall>(g, n) \<in> set post. m \<le> n)"
proof -
  let ?rs = "List.map_filter gateway_row (table_lines out)"
  have g: "fst (foldl better (NoAddr, 2 ^ 63 - 1) ?rs) = gw" "addr_is_valid gw"
    using assms by (auto simp: defaultGatewayWin_def cmd_output_def best_gateway_rows Let_def split: if_splits)
  then have n: "foldl better (NoAddr, 2 ^ 63 - 1) ?rs \<noteq> (NoAddr, 2 ^ 63 - 1)" by auto
  obtain m where m: "foldl better (NoAddr, 2 ^ 63 - 1) ?rs = (gw, m)" using g(1) by (metis prod.collapse)
  from foldl_better[of "(NoAddr, 2 ^ 63 - 1)" ?rs] n m obtain pre post where
    "?rs = pre @ (gw, m) # post" "\<forall>r \<in> set pre. m < snd r" "\<forall>r \<in> set post. m \<le> snd r" by auto
  then show ?thesis by (intro exI[of _ pre] exI[of _ m] exI[of _ post]) auto
qed

end
