(* ===== verification/ConsoleProps.thy ===== *)
theory ConsoleProps
  imports Console WinnetProps
begin

text \<open>
  The console client leaves nothing behind: its contract with the platform as a locale, the
  client's lemma proved on the contract, and both platforms as its interpretations.
\<close>

section \<open>Routes owed\<close>

text \<open>What a command does to the routes: which one it adds or asks to delete.\<close>

definition lin_route :: "string list \<Rightarrow> (bool \<times> string) option" where
  "lin_route args =
     (case args of
        a # b # c # d # xs \<Rightarrow>
          if a = ''ip'' \<and> b = ''route'' \<and> c = ''add'' then Some (True, d)
          else if a = ''ip'' \<and> b = ''route'' \<and> c = ''del'' then Some (False, d)
          else (case xs of
             e # _ \<Rightarrow> if a = ''ip'' \<and> b = ''-6'' \<and> c = ''route'' \<and> d = ''add'' then Some (True, e)
                      else if a = ''ip'' \<and> b = ''-6'' \<and> c = ''route'' \<and> d = ''del'' then Some (False, e) else None
           | [] \<Rightarrow> None)
      | _ \<Rightarrow> None)"

definition win_route :: "string list \<Rightarrow> (bool \<times> string) option" where
  "win_route args =
     (case args of
        a # b # c # xs \<Rightarrow>
          if a = ''route'' \<and> b = ''add'' then Some (True, c)
          else if a = ''route'' \<and> b = ''delete'' then Some (False, c)
          else (case xs of
             d # e # f # _ \<Rightarrow>
               if a = ''netsh'' \<and> b = ''interface'' \<and> c = ''ipv6'' \<and> d = ''add'' \<and> e = ''route'' then Some (True, f)
               else if a = ''netsh'' \<and> b = ''interface'' \<and> c = ''ipv6'' \<and> d = ''delete'' \<and> e = ''route'' then Some (False, f)
               else None
           | _ \<Rightarrow> None)
      | _ \<Rightarrow> None)"

definition route_of_os :: "os \<Rightarrow> string list \<Rightarrow> (bool \<times> string) option" where
  "route_of_os os = (case os of Linux \<Rightarrow> lin_route | Windows \<Rightarrow> win_route)"

definition owed_by :: "(string list \<Rightarrow> (bool \<times> string) option) \<Rightarrow> cmd_log \<Rightarrow> string set" where
  "owed_by cls log =
     fold (\<lambda>(args, ok) s. case cls args of
        Some (True, d) \<Rightarrow> if ok then insert d s else s | Some (False, d) \<Rightarrow> s - {d} | None \<Rightarrow> s) log {}"

lemma owed_by_snoc:
  "owed_by cls (log @ [(args, ok)]) =
     (case cls args of
        Some (True, d) \<Rightarrow> if ok then insert d (owed_by cls log) else owed_by cls log
      | Some (False, d) \<Rightarrow> owed_by cls log - {d} | None \<Rightarrow> owed_by cls log)"
  unfolding owed_by_def by simp

lemma owed_by_cmd:
  "owed_by cls (fst (runCmd env args log)) = owed_by cls (log @ [(args, snd (runCmd env args log))])"
  using runCmd_fst[of env args log] by simp

text \<open>A set-up that fails owes nothing, and one that succeeds comes with the cleanup of what it owes.\<close>

definition undoable :: "(cmd_log \<Rightarrow> string set) \<Rightarrow> cmd_log \<Rightarrow> cmd_log \<times> cleanup option \<Rightarrow> bool" where
  "undoable ow log r =
     (case r of
        (log', None) \<Rightarrow> ow log' \<subseteq> ow log
      | (log', Some c) \<Rightarrow> \<exists>R. ow log' \<subseteq> ow log \<union> R \<and> (\<forall>l. ow (c l) \<subseteq> ow l - R))"

section \<open>The contract\<close>

locale tunnel_platform =
  fixes pl :: platform and ow :: "cmd_log \<Rightarrow> string set"
  assumes up_quiet: "ow (fst (pl_ifUp pl iface p log)) = ow log"
    and up6_quiet: "ow (fst (pl_ifUpIPv6 pl iface p log)) = ow log"
    and ping_quiet: "ow (fst (pl_ping pl dst iface n log)) = ow log"
    and full_undoable: "undoable ow log (pl_full pl iface server a dns log)"
    and default6_undoable: "undoable ow log (pl_default6 pl iface a log)"
    and test_undoable: "undoable ow log (pl_test pl iface d src log)"
begin

text \<open>A step of the client that keeps its session and its debts, or ends without either.\<close>

definition step_ok :: "session \<Rightarrow> console \<Rightarrow> console \<times> (console_error + 'a) \<Rightarrow> bool" where
  "step_ok sess s r =
     (case r of
        (s', Inl e) \<Rightarrow> w_open s' = w_open s - sess_res sess \<and> ow (co_log s') \<subseteq> ow (co_log s)
      | (s', Inr _) \<Rightarrow> w_open s' = w_open s \<and> ow (co_log s') \<subseteq> ow (co_log s))"

lemma more_close:
  fixes s :: console
  shows "co_log (fst (Session_Close sess s)) = co_log s" "co_tun (fst (Session_Close sess s)) = co_tun s"
proof -
  have c: "world.more (close_res r w) = world.more w" for r and w :: console by (simp add: close_res_def split: option.split)
  have "world.more (fst (Session_Close sess s)) = world.more s" by (simp add: Session_Close_def Let_def c)
  then show "co_log (fst (Session_Close sess s)) = co_log s" "co_tun (fst (Session_Close sess s)) = co_tun s"
    by (cases s; cases "fst (Session_Close sess s)"; simp)+
qed

lemma step_fail: "ow (co_log s') \<subseteq> ow (co_log s) \<Longrightarrow> w_open s' = w_open s \<Longrightarrow> step_ok sess s (console_fail sess e s')"
  by (simp add: step_ok_def console_fail_def more_close)

lemma up_ok: "step_ok sess s (console_up pl name sess s)"
proof -
  obtain v4 v6 where v: "SplitAssigned (ss_AssignedPrefixes sess) = (v4, v6)" by (cases "SplitAssigned (ss_AssignedPrefixes sess)")
  obtain l1 k1 where u: "pl_ifUp pl name v4 (co_log s) = (l1, k1)" by (cases "pl_ifUp pl name v4 (co_log s)")
  obtain l2 k2 where u6: "pl_ifUpIPv6 pl name v6 l1 = (l2, k2)" by (cases "pl_ifUpIPv6 pl name v6 l1")
  have "ow l1 = ow (co_log s)" "ow l2 = ow l1" using up_quiet[of name v4 "co_log s"] up6_quiet[of name v6 l1] u u6 by simp_all
  then show ?thesis
    using v u u6
    by (cases k1; cases k2)
      (auto simp: console_up_def on_log_def step_ok_def console_fail_def more_close)
qed

text \<open>The routes are set up, with their cleanup, or not.\<close>

definition routes_ok :: "session \<Rightarrow> console \<Rightarrow> console \<times> (console_error + cleanup) \<Rightarrow> bool" where
  "routes_ok sess s r =
     (case r of
        (s', Inl e) \<Rightarrow> w_open s' = w_open s - sess_res sess \<and> ow (co_log s') \<subseteq> ow (co_log s)
      | (s', Inr c) \<Rightarrow> w_open s' = w_open s \<and>
          (\<exists>R. ow (co_log s') \<subseteq> ow (co_log s) \<union> R \<and> (\<forall>l. ow (c l) \<subseteq> ow l - R)))"

lemma routes_fail: "ow (co_log s') \<subseteq> ow (co_log s) \<Longrightarrow> w_open s' = w_open s \<Longrightarrow> routes_ok sess s (console_fail sess e s')"
  by (simp add: routes_ok_def console_fail_def more_close)

lemma full_ok: "routes_ok sess s (console_full pl prof name sess v4 v6 s)"
proof -
  obtain l1 r1 where f: "pl_full pl name (pf_Server prof) (px_addr v4) (pf_DNS prof) (co_log s) = (l1, r1)"
    by (cases "pl_full pl name (pf_Server prof) (px_addr v4) (pf_DNS prof) (co_log s)")
  note u = full_undoable[of "co_log s" name "pf_Server prof" "px_addr v4" "pf_DNS prof", unfolded f]
  show ?thesis
  proof (cases r1)
    case None
    with u f show ?thesis by (auto simp: console_full_def on_log_def undoable_def intro!: routes_fail)
  next
    case (Some c)
    with u obtain R where R: "ow l1 \<subseteq> ow (co_log s) \<union> R" "\<And>l. ow (c l) \<subseteq> ow l - R" by (auto simp: undoable_def)
    obtain l2 r2 where d: "pl_default6 pl name (px_addr v6) l1 = (l2, r2)" by (cases "pl_default6 pl name (px_addr v6) l1")
    note u6 = default6_undoable[of l1 name "px_addr v6", unfolded d]
    show ?thesis
    proof (cases r2)
      case None
      have "ow (c l2) \<subseteq> ow (co_log s)" using u6 None R(1) R(2)[of l2] by (auto simp: undoable_def)
      with f d Some None R show ?thesis
        by (auto simp: console_full_def on_log_def routes_ok_def console_fail_def more_close)
    next
      case c6: (Some c6)
      with u6 obtain Q where Q: "ow l2 \<subseteq> ow l1 \<union> Q" "\<And>l. ow (c6 l) \<subseteq> ow l - Q" by (auto simp: undoable_def)
      have "ow l2 \<subseteq> ow (co_log s) \<union> (R \<union> Q)" "\<And>l. ow (c (c6 l)) \<subseteq> ow l - (R \<union> Q)"
        using R(1) Q(1) R(2) Q(2) by blast+
      with f d Some c6 R show ?thesis by (auto simp: console_full_def on_log_def routes_ok_def)
    qed
  qed
qed

lemma test_ok: "routes_ok sess s (console_test pl dst name sess v4 v6 s)"
proof (cases "parse_addr dst")
  case (Some a)
  let ?src = "if addr_is6 a then px_addr v6 else px_addr v4"
  obtain l r where t: "pl_test pl name a ?src (co_log s) = (l, r)" by (cases "pl_test pl name a ?src (co_log s)")
  note u = test_undoable[of "co_log s" name a ?src, unfolded t]
  from u t Some show ?thesis
    by (cases r) (auto simp: console_test_def on_log_def undoable_def routes_ok_def Let_def console_fail_def more_close)
qed (auto simp: console_test_def intro!: routes_fail)

lemma forward_ok:
  assumes "console_forward pl t f dst n wait name sess s = (s', r)"
  shows "w_open s' = w_open s - sess_res sess" "ow (co_log s') = ow (co_log s)"
proof -
  obtain l b where p: "pl_ping pl dst name n (co_log s) = (l, b)" by (cases "pl_ping pl dst name n (co_log s)")
  have "ow l = ow (co_log s)" using ping_quiet[of dst name n "co_log s"] p by simp
  moreover obtain q sess' where c: "Session_Close sess s = (q, sess')" by (cases "Session_Close sess s")
  have "w_open q = w_open s - sess_res sess" "co_log q = co_log s" "sess_res sess' = {}"
    using Session_Close_open[of sess s] more_close(1)[of sess s] Session_Close_done[of sess s] c by (simp_all add: sess_res_def)
  ultimately show "w_open s' = w_open s - sess_res sess" "ow (co_log s') = ow (co_log s)"
    using assms p c by (auto simp: console_forward_def on_log_def more_close split: if_splits console_wait.splits)
qed

lemma session_cleans:
  assumes "console_session pl prof t f dst n wait name sess s = (s', r)"
  shows "w_open s' = w_open s - sess_res sess \<and> ow (co_log s') \<subseteq> ow (co_log s)"
proof -
  obtain s1 r1 where u: "console_up pl name sess s = (s1, r1)" by (cases "console_up pl name sess s")
  note uo = up_ok[of sess s name, unfolded u]
  show ?thesis
  proof (cases r1)
    case (Inl e)
    with assms u uo show ?thesis by (auto simp: console_session_def step_ok_def)
  next
    case (Inr v)
    obtain v4 v6 where v: "v = (v4, v6)" by (cases v)
    define x where "x = (if f then console_full pl prof name sess v4 v6 s1 else console_test pl dst name sess v4 v6 s1)"
    obtain s2 r2 where x2: "x = (s2, r2)" by (cases x)
    have ro: "routes_ok sess s1 (s2, r2)" using full_ok test_ok unfolding x2[symmetric] x_def by simp
    have s1: "w_open s1 = w_open s" "ow (co_log s1) \<subseteq> ow (co_log s)" using uo Inr by (simp_all add: step_ok_def)
    show ?thesis
    proof (cases r2)
      case (Inl e)
      with assms u Inr v x2 ro s1 show ?thesis by (auto simp: console_session_def x_def[symmetric] routes_ok_def)
    next
      case c: (Inr c)
      obtain s3 r3 where w: "console_forward pl t f dst n wait name sess s2 = (s3, r3)"
        by (cases "console_forward pl t f dst n wait name sess s2")
      from ro c obtain R where R: "w_open s2 = w_open s1" "ow (co_log s2) \<subseteq> ow (co_log s1) \<union> R" "\<And>l. ow (c l) \<subseteq> ow l - R"
        by (auto simp: routes_ok_def)
      have "s' = s3\<lparr>co_log := c (co_log s3)\<rparr>" using assms u Inr v x2 c w by (simp add: console_session_def x_def[symmetric])
      moreover have "ow (c (co_log s3)) \<subseteq> ow (co_log s)"
        using R(2) R(3)[of "co_log s3"] forward_ok(2)[OF w] s1(2) by blast
      ultimately show ?thesis using forward_ok(1)[OF w] R(1) s1(1) by simp
    qed
  qed
qed

lemma net_only_console:
  fixes s s1 :: console
  shows "net_only (s\<lparr>co_tun := True\<rparr>) s1 \<Longrightarrow> co_log s1 = co_log s"
  by (auto simp: net_only_def)

lemma run_cleans:
  assumes w: "world_ok s" and t: "fe_template (ce_finish env)"
    and r: "console_run pl dev env prof tm fr dst n wait s = (s', res)"
  shows "w_open s' = w_open s \<and> ow (co_log s') \<subseteq> ow (co_log s) \<and> (co_tun s' \<longrightarrow> co_tun s)"
proof (cases dev)
  case None
  with r show ?thesis by (simp add: console_run_def)
next
  case (Some name)
  obtain s1 x where c: "Connect env prof True (s\<lparr>co_tun := True\<rparr>) = (s1, x)" by (cases "Connect env prof True (s\<lparr>co_tun := True\<rparr>)")
  have w1: "world_ok (s\<lparr>co_tun := True\<rparr>)" using w by (simp add: world_ok_def)
  note f = Connect_from[OF w1 c[unfolded Connect_def] t]
  have "net_only (s\<lparr>co_tun := True\<rparr>) s1" by (rule net_only_Connect[OF c[unfolded Connect_def]])
  then have l: "co_log s1 = co_log s" by (rule net_only_console)
  show ?thesis
  proof (cases x)
    case (Inl e)
    have "s' = s1\<lparr>co_tun := False\<rparr>" using r Some c Inl by (simp add: console_run_def)
    moreover have "w_open s1 = w_open s" using f Inl by simp
    ultimately show ?thesis using l by simp
  next
    case (Inr sess)
    obtain s2 r2 where q: "console_session pl prof tm fr dst n wait name sess s1 = (s2, r2)"
      by (cases "console_session pl prof tm fr dst n wait name sess s1")
    have "s' = s2\<lparr>co_tun := False\<rparr>" using r Some c Inr q by (simp add: console_run_def)
    moreover have "w_open s1 - sess_res sess = w_open s" using f Inr by (auto simp: sess_from_def)
    ultimately show ?thesis using session_cleans[OF q] l by simp
  qed
qed

end

section \<open>Linux\<close>

lemma lin_route_simps [simp]:
  "lin_route (''ip'' # ''route'' # ''add'' # d # xs) = Some (True, d)"
  "lin_route (''ip'' # ''route'' # ''del'' # d # xs) = Some (False, d)"
  "lin_route (''ip'' # ''-6'' # ''route'' # ''add'' # d # xs) = Some (True, d)"
  "lin_route (''ip'' # ''-6'' # ''route'' # ''del'' # d # xs) = Some (False, d)"
  "lin_route (''ip'' # ''addr'' # xs) = None" "lin_route (''ip'' # ''link'' # xs) = None"
  "lin_route (''ip'' # ''route'' # ''show'' # xs) = None" "lin_route (''ping'' # xs) = None"
  by (simp_all add: lin_route_def split: list.split)

lemma quiet_cmd: "cls args = None \<Longrightarrow> owed_by cls (log @ [(args, ok)]) = owed_by cls log"
  by (simp add: owed_by_snoc)

lemma add_cmd: "cls args = Some (True, d) \<Longrightarrow> owed_by cls (log @ [(args, ok)]) = (if ok then insert d (owed_by cls log) else owed_by cls log)"
  by (simp add: owed_by_snoc)

lemma del_cmd: "cls args = Some (False, d) \<Longrightarrow> owed_by cls (log @ [(args, ok)]) = owed_by cls log - {d}"
  by (simp add: owed_by_snoc)

lemmas cmds = quiet_cmd add_cmd del_cmd runCmd_fst

lemma undone_by_undoable:
  assumes "cls args = Some (True, d)" "cls undo = Some (False, d)"
  shows "undoable (owed_by cls) log (undone_by env args undo log)"
proof -
  obtain l k where r: "runCmd env args log = (l, k)" by (cases "runCmd env args log")
  have l: "l = log @ [(args, k)]" by (rule runCmd_log[OF r])
  have "owed_by cls (fst (runCmd env undo m)) \<subseteq> owed_by cls m - {d}" for m
    using assms(2) by (simp add: runCmd_fst owed_by_snoc)
  moreover have "owed_by cls l = (if k then insert d (owed_by cls log) else owed_by cls log)"
    using assms(1) by (simp add: l owed_by_snoc)
  ultimately show ?thesis
    using r by (cases k) (auto simp: undone_by_def undoable_def intro!: exI[of _ "{d}"])
qed

lemma lin_delete_owed: "owed_by lin_route (lin_delete_halves env iface hs log) = owed_by lin_route log - set hs"
  by (induction env iface hs log rule: lin_delete_halves.induct) (auto simp: runCmd_fst del_cmd)

lemma lin_add_owed:
  "lin_add_halves env iface undo added hs log = (log', r) \<Longrightarrow> lin_route undo = Some (False, srv) \<Longrightarrow>
    owed_by lin_route log \<subseteq> B \<union> insert srv (set added) \<Longrightarrow>
    (case r of None \<Rightarrow> owed_by lin_route log' \<subseteq> B
     | Some added' \<Rightarrow> owed_by lin_route log' \<subseteq> B \<union> insert srv (set added'))"
proof (induction env iface undo added hs log rule: lin_add_halves.induct)
  case (2 env iface undo added h hs log1)
  obtain l k where r: "runCmd env [''ip'', ''route'', ''add'', h, ''dev'', iface] log1 = (l, k)"
    by (cases "runCmd env [''ip'', ''route'', ''add'', h, ''dev'', iface] log1")
  have l: "l = log1 @ [([''ip'', ''route'', ''add'', h, ''dev'', iface], k)]" by (rule runCmd_log[OF r])
  have o: "owed_by lin_route l = (if k then insert h (owed_by lin_route log1) else owed_by lin_route log1)"
    by (simp add: l add_cmd)
  show ?case
  proof (cases k)
    case True
    have k: "k = True" using True by simp
    have "owed_by lin_route l \<subseteq> B \<union> insert srv (set (added @ [h]))" using 2(4) o True by auto
    moreover have "lin_add_halves env iface undo (added @ [h]) hs l = (log', r)" using 2(2) r True by simp
    ultimately show ?thesis using 2(1)[OF r[symmetric] k] 2(3) by blast
  next
    case False
    have "owed_by lin_route (fst (runCmd env undo m)) = owed_by lin_route m - {srv}" for m
      using 2(3) by (simp add: runCmd_fst owed_by_snoc)
    with 2(2,4) r o False show ?thesis by (auto simp: lin_delete_owed)
  qed
qed auto

lemma lin_gateway_owed: "lin_defaultGateway env log = (log', g) \<Longrightarrow> owed_by lin_route log' = owed_by lin_route log"
  using cmd_output_log[of env "[''ip'', ''route'', ''show'', ''default'']" log]
  by (auto simp: lin_defaultGateway_def quiet_cmd split: prod.splits option.splits)

lemma lin_full_undoable: "undoable (owed_by lin_route) log (lin_setupFullRoute env iface server client dns log)"
proof (cases "parse_addr (server_host server)")
  case (Some ip)
  obtain l1 g where g: "lin_defaultGateway env log = (l1, g)" by (cases "lin_defaultGateway env log")
  note o1 = lin_gateway_owed[OF g]
  show ?thesis
  proof (cases g)
    case None
    with Some g o1 show ?thesis by (simp add: lin_setupFullRoute_def undoable_def)
  next
    case gd: (Some a)
    obtain gw dev where a: "a = (gw, dev)" by (cases a)
    define srv where "srv = addr_string ip @ ''/32''"
    define undo where "undo = [''ip'', ''route'', ''del'', srv, ''via'', addr_string gw, ''dev'', dev]"
    define args where "args = [''ip'', ''route'', ''add'', srv, ''via'', addr_string gw, ''dev'', dev]"
    have u: "lin_route undo = Some (False, srv)" by (simp add: undo_def)
    have un: "owed_by lin_route (fst (runCmd env undo m)) = owed_by lin_route m - {srv}" for m
      using u by (simp add: runCmd_fst owed_by_snoc)
    obtain l2 k where r: "runCmd env args l1 = (l2, k)" by (cases "runCmd env args l1")
    have o2: "owed_by lin_route l2 = (if k then insert srv (owed_by lin_route log) else owed_by lin_route log)"
      using runCmd_log[OF r] o1 by (simp add: args_def add_cmd)
    obtain l3 h where h: "lin_add_halves env iface undo [] lin_halves l2 = (l3, h)"
      by (cases "lin_add_halves env iface undo [] lin_halves l2")
    have "owed_by lin_route l2 \<subseteq> owed_by lin_route log \<union> insert srv (set [])" using o2 by auto
    note o3 = lin_add_owed[OF h u this]
    have e: "lin_setupFullRoute env iface server client dns log =
        (if k then (case h of None \<Rightarrow> (l3, None)
           | Some added \<Rightarrow> (l3, Some (\<lambda>l. fst (runCmd env undo (lin_delete_halves env iface added l))))) else (l2, None))"
      using Some g gd a r h by (auto simp: lin_setupFullRoute_def Let_def srv_def undo_def args_def split: option.split)
    show ?thesis
    proof (cases "k \<and> h \<noteq> None")
      case True
      then obtain added where "h = Some added" by blast
      with e o3 True show ?thesis
        by (auto simp: undoable_def un lin_delete_owed intro!: exI[of _ "insert srv (set added)"])
    next
      case False
      with e o2 o3 show ?thesis by (auto simp: undoable_def split: if_splits)
    qed
  qed
qed (simp add: lin_setupFullRoute_def undoable_def)

interpretation linux: tunnel_platform "platform_of env Linux" "owed_by lin_route" for env
proof unfold_locales
  show "owed_by lin_route (fst (pl_ifUp (platform_of env Linux) iface p log)) = owed_by lin_route log" for iface p log
    by (auto simp: platform_of_def lin_ifUp_def quiet_cmd runCmd_fst split: prod.split bool.split dest: runCmd_log)
  show "owed_by lin_route (fst (pl_ifUpIPv6 (platform_of env Linux) iface p log)) = owed_by lin_route log" for iface p log
    by (simp add: platform_of_def lin_ifUpIPv6_def runCmd_fst quiet_cmd)
  show "owed_by lin_route (fst (pl_ping (platform_of env Linux) dst iface n log)) = owed_by lin_route log" for dst iface n log
    by (simp add: platform_of_def lin_runPingTest_def runCmd_fst quiet_cmd)
  show "undoable (owed_by lin_route) log (pl_full (platform_of env Linux) iface server a dns log)" for log iface server a dns
    by (simp add: platform_of_def lin_full_undoable)
  show "undoable (owed_by lin_route) log (pl_default6 (platform_of env Linux) iface a log)" for log iface a
    unfolding platform_of_def lin_setupIPv6Default_def os.case platform.simps
    by (rule undone_by_undoable[where d = "''::/0''"]) simp_all
  show "undoable (owed_by lin_route) log (pl_test (platform_of env Linux) iface d src log)" for log iface d src
    unfolding platform_of_def lin_setupTestRoute_def os.case platform.simps Let_def
    by (rule undone_by_undoable[where d = "addr_string d @ (if addr_is6 d then ''/128'' else ''/32'')"]) simp_all
qed

section \<open>Windows\<close>

lemma win_route_simps [simp]:
  "win_route (''route'' # ''add'' # d # xs) = Some (True, d)"
  "win_route (''route'' # ''delete'' # d # xs) = Some (False, d)"
  "win_route (''route'' # ''print'' # xs) = None"
  "win_route (''netsh'' # ''interface'' # ''ipv6'' # ''add'' # ''route'' # d # xs) = Some (True, d)"
  "win_route (''netsh'' # ''interface'' # ''ipv6'' # ''delete'' # ''route'' # d # xs) = Some (False, d)"
  "win_route (''netsh'' # ''interface'' # ''ipv6'' # ''add'' # ''address'' # xs) = None"
  "win_route (''netsh'' # ''interface'' # ''ipv6'' # ''set'' # xs) = None"
  "win_route (''netsh'' # ''interface'' # ''ipv4'' # xs) = None"
  "win_route (''netsh'' # ''interface'' # ''ip'' # xs) = None"
  "win_route (''ping'' # xs) = None"
  by (simp_all add: win_route_def split: list.split)

lemma win_delete_owed: "owed_by win_route (delete_routes env rs log) = owed_by win_route log - fst ` set rs"
  by (induction env rs log rule: delete_routes.induct) (auto simp: runCmd_fst del_cmd)

lemma win_add_owed:
  "add_halves env srv gw idx added hs log = (log', r) \<Longrightarrow>
   owed_by win_route log \<subseteq> B \<union> insert srv (fst ` set added) \<Longrightarrow>
   (case r of Inl _ \<Rightarrow> owed_by win_route log' \<subseteq> B
    | Inr added' \<Rightarrow> owed_by win_route log' \<subseteq> B \<union> insert srv (fst ` set added'))"
proof (induction env srv gw idx added hs log rule: add_halves.induct)
  case (2 env srv gw idx added d m hs log1)
  define args where "args = [''route'', ''add'', d, ''mask'', m, gw, ''metric'', ''1'', ''if'', idx]"
  obtain l k where r: "runCmd env args log1 = (l, k)" by (cases "runCmd env args log1")
  have o: "owed_by win_route l = (if k then insert d (owed_by win_route log1) else owed_by win_route log1)"
    using runCmd_log[OF r] by (simp add: args_def add_cmd)
  show ?case
  proof (cases k)
    case True
    have k: "k = True" using True by simp
    have "owed_by win_route l \<subseteq> B \<union> insert srv (fst ` set (added @ [(d, m)]))" using 2(3) o True by auto
    moreover have "add_halves env srv gw idx (added @ [(d, m)]) hs l = (log', r)" using 2(2) r True by (simp add: args_def)
    ultimately show ?thesis using 2(1)[OF r[unfolded args_def, symmetric] k] by blast
  next
    case False
    with 2(2,3) r o show ?thesis by (auto simp: win_delete_owed args_def runCmd_fst del_cmd)
  qed
qed auto

lemma win_dns_owed: "set_dns env iface i ds b log = (log', b') \<Longrightarrow> owed_by win_route log' = owed_by win_route log"
proof (induction env iface i ds b log rule: set_dns.induct)
  case (2 env iface i d ds ok log1)
  define args where "args = [''netsh'', ''interface'', ''ip'', ''set'', ''dns'', ''name='' @ iface, ''static'', d, ''primary'']"
  obtain l k where r: "runCmd env args log1 = (l, k)" by (cases "runCmd env args log1")
  have o: "owed_by win_route l = owed_by win_route log1" using runCmd_log[OF r] by (simp add: args_def quiet_cmd)
  show ?case
  proof (cases "i = 0")
    case True
    with 2(3) r have "set_dns env iface 1 ds k l = (log', b')" by (simp add: args_def)
    with 2(1)[OF True r[unfolded args_def, symmetric]] o show ?thesis by simp
  next
    case False
    with 2(2)[OF False] 2(3) show ?thesis by (simp add: runCmd_fst quiet_cmd)
  qed
qed simp

lemma win_gateway_owed: "defaultGatewayWin env log = (log', g) \<Longrightarrow> owed_by win_route log' = owed_by win_route log"
  using cmd_output_log[of env "[''route'', ''print'', ''-4'']" log]
  by (auto simp: defaultGatewayWin_def Let_def quiet_cmd split: prod.splits option.splits)

lemma win_index_owed: "ifIndex env iface log = (log', g) \<Longrightarrow> owed_by win_route log' = owed_by win_route log"
  using cmd_output_log[of env "[''netsh'', ''interface'', ''ipv4'', ''show'', ''interfaces'']" log]
  by (auto simp: ifIndex_def quiet_cmd split: prod.splits)

lemma win_cleanup_owed:
  "owed_by win_route (route_cleanup env c log) = owed_by win_route log - insert (wc_server c) (fst ` set (wc_added c))"
  by (auto simp: route_cleanup_def Let_def runCmd_fst del_cmd quiet_cmd win_delete_owed)

lemma win_full_undoable:
  "undoable (owed_by win_route) log (case SetupFullRoute env iface server client dns log of
     (log, Inl _) \<Rightarrow> (log, None) | (log, Inr c) \<Rightarrow> (log, Some (route_cleanup env c)))"
proof (cases "server_ip env server")
  case (Inr ip)
  obtain l1 g where g: "defaultGatewayWin env log = (l1, g)" by (cases "defaultGatewayWin env log")
  note o1 = win_gateway_owed[OF g]
  obtain l2 x where x: "ifIndex env iface l1 = (l2, x)" by (cases "ifIndex env iface l1")
  note o2 = win_index_owed[OF x]
  show ?thesis
  proof (cases "g = None \<or> x = None")
    case True
    with Inr g x o1 o2 show ?thesis by (cases g) (auto simp: SetupFullRoute_def undoable_def)
  next
    case False
    then obtain gw gwi idx where v: "g = Some (gw, gwi)" "x = Some idx" by auto
    define srv where "srv = addr_string ip"
    obtain l3 k where b: "runCmd env (bypass_cmd srv gw gwi) l2 = (l3, k)" by (cases "runCmd env (bypass_cmd srv gw gwi) l2")
    have o3: "owed_by win_route l3 = (if k then insert srv (owed_by win_route log) else owed_by win_route log)"
      using runCmd_log[OF b] o1 o2 by (simp add: add_cmd bypass_cmd_def)
    obtain l4 h where h: "add_halves env srv (addr_string (tunnelGateway client)) (itoa idx) [] route_halves l3 = (l4, h)"
      by (cases "add_halves env srv (addr_string (tunnelGateway client)) (itoa idx) [] route_halves l3")
    have "owed_by win_route l3 \<subseteq> owed_by win_route log \<union> insert srv (fst ` set [])" using o3 by auto
    note o4 = win_add_owed[OF h this]
    show ?thesis
    proof (cases "k \<and> isl h \<or> \<not> k")
      case True
      with Inr g x v b h o3 o4 show ?thesis
        by (cases k; cases h) (auto simp: SetupFullRoute_def Let_def srv_def undoable_def)
    next
      case False
      then obtain added where a: "h = Inr added" "k" by (cases h) auto
      obtain l5 ok where d: "set_dns env iface 0 dns False l4 = (l5, ok)" by (cases "set_dns env iface 0 dns False l4")
      with Inr g x v b h a o4 win_dns_owed[OF d] show ?thesis
        by (auto simp: SetupFullRoute_def Let_def srv_def undoable_def win_cleanup_owed
            intro!: exI[of _ "insert srv (fst ` set added)"])
    qed
  qed
qed (simp add: SetupFullRoute_def undoable_def)

lemma win_default6_undone:
  "(case SetupIPv6Default env iface client log of
      (log, None) \<Rightarrow> (log, None) | (log, Some undo) \<Rightarrow> (log, Some (\<lambda>l. fst (runCmd env undo l)))) =
   undone_by env [''netsh'', ''interface'', ''ipv6'', ''add'', ''route'', ''::/0'', iface, addr_string (tunnelGateway6 client)]
     [''netsh'', ''interface'', ''ipv6'', ''delete'', ''route'', ''::/0'', iface, addr_string (tunnelGateway6 client)] log"
  by (simp add: SetupIPv6Default_def Let_def undone_by_def split: prod.split bool.split)

lemma undoable_quiet: "ow log = ow log' \<Longrightarrow> undoable ow log' r \<Longrightarrow> undoable ow log r"
  by (simp add: undoable_def split: prod.splits option.splits)

lemma win_test_undoable: "undoable (owed_by win_route) log (win_setupTestRoute env iface d src log)"
proof (cases "addr_is6 d")
  case True
  then show ?thesis
    by (auto simp: win_setupTestRoute_def Let_def intro!: undone_by_undoable[where d = "addr_string d @ ''/128''"])
next
  case False
  obtain l x where x: "ifIndex env iface log = (l, x)" by (cases "ifIndex env iface log")
  note o = win_index_owed[OF x]
  show ?thesis
  proof (cases x)
    case None
    with False x o show ?thesis by (simp add: win_setupTestRoute_def undoable_def)
  next
    case (Some idx)
    show ?thesis
      by (rule undoable_quiet[OF o[symmetric]])
        (use False x Some in \<open>auto simp: win_setupTestRoute_def intro!: undone_by_undoable[where d = "addr_string d"]\<close>)
  qed
qed

lemma win_ping_quiet: "owed_by win_route (fst (win_runPingTest env dst iface n log)) = owed_by win_route log"
  by (auto simp: win_runPingTest_def quiet_cmd split: prod.split option.split dest!: cmd_output_log)

interpretation windows: tunnel_platform "platform_of env Windows" "owed_by win_route" for env
proof unfold_locales
  show "owed_by win_route (fst (pl_ifUp (platform_of env Windows) iface p log)) = owed_by win_route log" for iface p log
    by (auto simp: platform_of_def IfUp_def quiet_cmd runCmd_fst split: prod.split bool.split dest: runCmd_log)
  show "owed_by win_route (fst (pl_ifUpIPv6 (platform_of env Windows) iface p log)) = owed_by win_route log" for iface p log
    by (auto simp: platform_of_def IfUpIPv6_def quiet_cmd runCmd_fst split: prod.split bool.split dest: runCmd_log)
  show "owed_by win_route (fst (pl_ping (platform_of env Windows) dst iface n log)) = owed_by win_route log" for dst iface n log
    by (simp add: platform_of_def win_ping_quiet)
  show "undoable (owed_by win_route) log (pl_full (platform_of env Windows) iface server a dns log)" for log iface server a dns
    unfolding platform_of_def os.case platform.simps by (rule win_full_undoable)
  show "undoable (owed_by win_route) log (pl_default6 (platform_of env Windows) iface a log)" for log iface a
    unfolding platform_of_def os.case platform.simps win_default6_undone
    by (rule undone_by_undoable[where d = "''::/0''"]) simp_all
  show "undoable (owed_by win_route) log (pl_test (platform_of env Windows) iface d src log)" for log iface d src
    by (simp add: platform_of_def win_test_undoable)
qed

section \<open>The client\<close>


text \<open>A full route on Linux whose second half is refused.\<close>

definition refused_half :: sys_env where
  "refused_half = \<lparr>we_cmd = (\<lambda>log args.
     if args = [''ip'', ''route'', ''show'', ''default''] then (''default via 203.0.113.1 dev ens3 proto static'', True)
     else ([], args \<noteq> [''ip'', ''route'', ''add'', ''128.0.0.0/1'', ''dev'', ''tun0''])), we_lookup = (\<lambda>_. None)\<rparr>"

definition console0 :: console where
  "console0 = \<lparr>w_next = 0, w_open = {}, co_log = [], co_tun = False\<rparr>"


end
