(* ===== verification/WinCore.thy ===== *)
theory WinCore
  imports PumpSpec
begin

text \<open>
  The Windows copy of the client core (\<open>windows/internal/clientcore\<close>): a profile without a
  network interface to bind to, sessions that always own their socket, and a \<open>Connect\<close> that
  recovers no panic. What is the same text in both trees (\<open>iphdr.go\<close>, \<open>assigned.go\<close>, the
  packet loops) is used from the shared core. The last part shows that the two cores agree.
\<close>

section \<open>The profile\<close>

record win_profile =
  wp_Server :: string
  wp_ServerName :: string
  wp_AltPort :: int
  wp_CA :: string
  wp_Cert :: string
  wp_Key :: string
  wp_Insecure :: bool
  wp_TUNName :: string
  wp_MTU :: int
  wp_DNS :: "string list"

fun win_hasPort_loop :: "string \<Rightarrow> nat \<Rightarrow> bool" where
  "win_hasPort_loop s 0 = False"
| "win_hasPort_loop s (Suc i) = (if s ! i = CHR '':'' then i < length s - 1 else win_hasPort_loop s i)"

definition win_hasPort :: "string \<Rightarrow> bool" where
  "win_hasPort s = win_hasPort_loop s (length s)"

definition win_validateAltPort :: "string \<Rightarrow> int \<Rightarrow> profile_error option" where
  "win_validateAltPort server alt =
     (if alt = 0 then None
      else if alt < 1 \<or> alt > 65535 then Some ProfAltRange
      else if (case split_host_port server of None \<Rightarrow> False | Some (_, p) \<Rightarrow> atoi p = Some alt) then Some ProfAltSame
      else None)"

fun win_check_dns :: "string list \<Rightarrow> bool" where
  "win_check_dns [] = True"
| "win_check_dns (d # ds) = (parse_addr d \<noteq> None \<and> win_check_dns ds)"

definition win_Validate :: "win_profile \<Rightarrow> profile_error + win_profile" where
  "win_Validate p =
     (if wp_Server p = [] then Inl ProfServerRequired
      else if parse_addr_port (wp_Server p) = None \<and> \<not> win_hasPort (wp_Server p) then Inl ProfServerPort
      else if wp_ServerName p = [] then Inl ProfNameRequired
      else case win_validateAltPort (wp_Server p) (wp_AltPort p) of
             Some e \<Rightarrow> Inl e
           | None \<Rightarrow>
               let p = (if wp_MTU p = 0 then p\<lparr>wp_MTU := 1369\<rparr> else p)
               in if wp_MTU p < 576 \<or> wp_MTU p > 9000 then Inl ProfMTU
                  else
                    let p = (if wp_TUNName p = [] then p\<lparr>wp_TUNName := ''masque0''\<rparr> else p);
                        p = (if length (wp_DNS p) = 0 then p\<lparr>wp_DNS := [''1.1.1.1'']\<rparr> else p)
                    in if win_check_dns (wp_DNS p) then Inr p else Inl ProfDNS)"

definition win_LoadProfile :: "(string \<Rightarrow> (string list \<times> toml_profile) option) \<Rightarrow> string \<Rightarrow> profile_error + win_profile" where
  "win_LoadProfile decode path =
     (case decode path of
        None \<Rightarrow> Inl ProfDecode
      | Some (undec, tp) \<Rightarrow>
          if undec \<noteq> [] then Inl ProfUnknownKeys
          else win_Validate
            \<lparr>wp_Server = tp_server tp, wp_ServerName = tp_server_name tp, wp_AltPort = tp_alt_port tp,
             wp_CA = tp_ca tp, wp_Cert = tp_cert tp, wp_Key = tp_key tp, wp_Insecure = tp_insecure tp,
             wp_TUNName = tp_tun_name tp, wp_MTU = tp_mtu tp, wp_DNS = tp_dns tp\<rparr>)"

section \<open>Dialling\<close>

definition win_buildTLSConfig ::
  "(string \<Rightarrow> string option) \<Rightarrow> (string \<Rightarrow> bool) \<Rightarrow> (string \<Rightarrow> string \<Rightarrow> bool) \<Rightarrow> win_profile \<Rightarrow> connect_error + tls_config" where
  "win_buildTLSConfig read_file append_certs load_pair p =
     (let c = \<lparr>tc_ServerName = wp_ServerName p, tc_NextProtos = [''h3''], tc_RootCAs = None,
               tc_InsecureSkipVerify = False, tc_Certificates = []\<rparr>
      in case (if wp_CA p \<noteq> [] then
                 (case read_file (wp_CA p) of
                    None \<Rightarrow> Inl CReadCA
                  | Some pem \<Rightarrow> if \<not> append_certs pem then Inl CParseCA else Inr (c\<lparr>tc_RootCAs := Some pem\<rparr>))
               else if \<not> wp_Insecure p then Inl CNeedCA
               else Inr c) of
           Inl e \<Rightarrow> Inl e
         | Inr c \<Rightarrow>
             (let c = (if wp_Insecure p then c\<lparr>tc_InsecureSkipVerify := True\<rparr> else c)
              in if wp_Cert p \<noteq> [] \<and> wp_Key p \<noteq> [] then
                   (if \<not> load_pair (wp_Cert p) (wp_Key p) then Inl CKeyPair
                    else Inr (c\<lparr>tc_Certificates := [(wp_Cert p, wp_Key p)]\<rparr>))
                 else Inr c))"

record win_leg =
  wl_udpConn :: "resource option"
  wl_qconn :: "resource option"
  wl_addr :: string

definition win_leg_close :: "win_leg \<Rightarrow> 'x world_scheme \<Rightarrow> 'x world_scheme" where
  "win_leg_close l w = close_res (wl_udpConn l) (close_res (wl_qconn l) w)"

definition win_listenAndDialQUIC ::
  "tls_config \<Rightarrow> dial_env \<Rightarrow> udp_addr \<Rightarrow> 'x world_scheme \<Rightarrow> 'x world_scheme \<times> (connect_error + win_leg)" where
  "win_listenAndDialQUIC tls env a w =
     (if \<not> de_listen env then (w, Inl CListen)
      else case open_res UDPSock w of
             (w, u) \<Rightarrow>
               if \<not> de_dial env tls then (close_res (Some u) w, Inl CDial)
               else case open_res QConn w of
                      (w, q) \<Rightarrow> (w, Inr \<lparr>wl_udpConn = Some u, wl_qconn = Some q, wl_addr = udp_string a\<rparr>))"

fun win_race_loop ::
  "tls_config \<Rightarrow> (udp_addr \<times> dial_env) list \<Rightarrow> win_leg option \<Rightarrow> (string \<times> connect_error) list \<Rightarrow> 'x world_scheme \<Rightarrow>
   'x world_scheme \<times> win_leg option \<times> (string \<times> connect_error) list" where
  "win_race_loop tls [] winner errs w = (w, winner, errs)"
| "win_race_loop tls ((a, env) # rest) winner errs w =
     (case win_listenAndDialQUIC tls env a w of
        (w, Inl e) \<Rightarrow> win_race_loop tls rest winner (errs @ [(udp_string a, e)]) w
      | (w, Inr leg) \<Rightarrow>
          (if winner = None then win_race_loop tls rest (Some leg) errs w
           else win_race_loop tls rest winner errs (win_leg_close leg w)))"

definition win_raceQUIC ::
  "tls_config \<Rightarrow> (udp_addr \<times> dial_env) list \<Rightarrow> 'x world_scheme \<Rightarrow> 'x world_scheme \<times> (connect_error + win_leg)" where
  "win_raceQUIC tls arrivals w =
     (case win_race_loop tls arrivals None [] w of
        (w, winner, errs) \<Rightarrow> (w, case winner of Some leg \<Rightarrow> Inr leg | None \<Rightarrow> Inl (CAllPorts errs)))"

section \<open>The session\<close>

record win_session =
  wn_udpConn :: "resource option"
  wn_qconn :: "resource option"
  wn_ipconn :: "resource option"
  wn_dev :: bool
  wn_AssignedPrefixes :: "prefix list"
  wn_Routes :: "client_route list"
  wn_DialAddr :: string
  wn_done :: bool

text \<open>The result of a call that may panic: \<open>None\<close> is the panic, which nothing here recovers.\<close>

definition win_finishCONNECTIP ::
  "finish_env \<Rightarrow> win_leg \<Rightarrow> bool \<Rightarrow> 'x world_scheme \<Rightarrow> 'x world_scheme \<times> (connect_error + win_session) option" where
  "win_finishCONNECTIP env leg dev w =
     (let fail = (\<lambda>e w. (win_leg_close leg w, Some (Inl e)))
      in if \<not> fe_template env then (w, None)
         else if \<not> fe_request env then fail CRequest w
         else if \<not> fe_client env then fail CClientConn w
         else case fe_status env of
                None \<Rightarrow> fail CIPDial w
              | Some st \<Rightarrow>
                  (case open_res IPConn w of
                     (w, ipc) \<Rightarrow>
                       (let hangup = (\<lambda>e. fail e (close_res (Some ipc) w))
                        in if st \<noteq> 200 then hangup (CStatus st)
                           else case fe_prefixes env of
                                  None \<Rightarrow> hangup CPrefixes
                                | Some ps \<Rightarrow>
                                    if length ps = 0 then hangup CNoPrefixes
                                    else case fe_routes env of
                                           None \<Rightarrow> hangup CRoutes
                                         | Some routes \<Rightarrow>
                                             (w, Some (Inr \<lparr>wn_udpConn = wl_udpConn leg, wn_qconn = wl_qconn leg,
                                                wn_ipconn = Some ipc, wn_dev = dev, wn_AssignedPrefixes = ps,
                                                wn_Routes = routes, wn_DialAddr = wl_addr leg, wn_done = False\<rparr>)))))"

definition win_Connect ::
  "connect_env \<Rightarrow> win_profile \<Rightarrow> bool \<Rightarrow> 'x world_scheme \<Rightarrow> 'x world_scheme \<times> (connect_error + win_session) option" where
  "win_Connect env p dev w =
     (case win_Validate p of
        Inl e \<Rightarrow> (w, Some (Inl (CProfile e)))
      | Inr p \<Rightarrow>
          (case ce_resolve env (wp_Server p) of
             None \<Rightarrow> (w, Some (Inl CResolve))
           | Some udpAddr \<Rightarrow>
               (case win_buildTLSConfig (ce_readFile env) (ce_appendCerts env) (ce_loadPair env) p of
                  Inl e \<Rightarrow> (w, Some (Inl e))
                | Inr tls \<Rightarrow>
                    (let addrs = dualDialAddrs (Some udpAddr) (wp_AltPort p)
                     in case (if length addrs = 1 then win_listenAndDialQUIC tls (ce_single env) (addrs ! 0) w
                              else win_raceQUIC tls (ce_arrivals env addrs) w) of
                          (w, Inl e) \<Rightarrow> (w, Some (Inl e))
                        | (w, Inr leg) \<Rightarrow> win_finishCONNECTIP (ce_finish env) leg dev w))))"

definition win_AttachTUN :: "bool \<Rightarrow> win_session \<Rightarrow> win_session" where
  "win_AttachTUN dev s = s\<lparr>wn_dev := dev\<rparr>"

definition win_RTT :: "(resource \<Rightarrow> int) \<Rightarrow> win_session option \<Rightarrow> int" where
  "win_RTT smoothed s = (case Option.bind s wn_qconn of None \<Rightarrow> 0 | Some q \<Rightarrow> smoothed q)"

definition win_Close :: "win_session \<Rightarrow> 'x world_scheme \<Rightarrow> 'x world_scheme \<times> win_session" where
  "win_Close s w =
     (if wn_done s then (w, s)
      else (close_res (wn_udpConn s) (close_res (wn_qconn s) (close_res (wn_ipconn s) w)), s\<lparr>wn_done := True\<rparr>))"

text \<open>\<open>Run\<close> asks the device for its MTU at once: without a device it panics.\<close>

definition win_Run ::
  "win_session \<Rightarrow> run_event list \<Rightarrow> 'x world_scheme \<Rightarrow> ('x world_scheme \<times> win_session \<times> bytes list \<times> bytes list \<times> run_result) option" where
  "win_Run s evs w =
     (if \<not> wn_dev s then None
      else case run_loop (wn_AssignedPrefixes s) evs [] [] of
             (tun, conn, r) \<Rightarrow>
               (if r = StillRunning then Some (w, s, tun, conn, r)
                else case win_Close s w of (w, s) \<Rightarrow> Some (w, s, tun, conn, r)))"

section \<open>The two cores agree\<close>

definition shared_profile :: "win_profile \<Rightarrow> profile" where
  "shared_profile p =
     \<lparr>pf_Server = wp_Server p, pf_ServerName = wp_ServerName p, pf_AltPort = wp_AltPort p, pf_CA = wp_CA p,
      pf_Cert = wp_Cert p, pf_Key = wp_Key p, pf_Insecure = wp_Insecure p, pf_TUNName = wp_TUNName p,
      pf_MTU = wp_MTU p, pf_DNS = wp_DNS p, pf_BindInterface = []\<rparr>"

definition shared_leg :: "win_leg \<Rightarrow> quic_leg" where
  "shared_leg l = \<lparr>lg_udpConn = wl_udpConn l, lg_ownUDP = True, lg_qconn = wl_qconn l, lg_addr = wl_addr l\<rparr>"

definition shared_session :: "win_session \<Rightarrow> session" where
  "shared_session s =
     \<lparr>ss_udpConn = wn_udpConn s, ss_ownUDP = True, ss_qconn = wn_qconn s, ss_ipconn = wn_ipconn s, ss_dev = wn_dev s,
      ss_AssignedPrefixes = wn_AssignedPrefixes s, ss_Routes = wn_Routes s, ss_DialAddr = wn_DialAddr s, ss_done = wn_done s\<rparr>"

lemma hasPort_loop_last:
  "n \<le> length s \<Longrightarrow>
   win_hasPort_loop s n = (case last_index (CHR '':'') (take n s) of Some i \<Rightarrow> i < length s - 1 | None \<Rightarrow> False)"
  by (induction n) (auto simp: take_Suc_conv_app_nth last_index_append)

lemma win_hasPort_eq: "win_hasPort s = hasPort s"
  by (simp add: win_hasPort_def hasPort_loop_last hasPort_def)

lemma win_validateAltPort_eq: "win_validateAltPort server alt = validateAltPort server alt"
  by (auto simp: win_validateAltPort_def validateAltPort_def split: option.splits)

lemma win_check_dns_eq: "win_check_dns ds \<longleftrightarrow> \<not> list_ex (\<lambda>d. parse_addr d = None) ds"
  by (induction ds) auto

lemma win_Validate_eq: "Validate (shared_profile p) = map_sum id shared_profile (win_Validate p)"
  by (cases p)
    (auto simp: Validate_def win_Validate_def shared_profile_def Let_def win_hasPort_eq win_validateAltPort_eq win_check_dns_eq
      default_mtu_def split: option.split)

lemma win_LoadProfile_eq: "LoadProfile decode path = map_sum id shared_profile (win_LoadProfile decode path)"
proof (cases "decode path")
  case (Some r)
  obtain undec tp where r: "r = (undec, tp)" by (cases r)
  have "shared_profile
      \<lparr>wp_Server = tp_server tp, wp_ServerName = tp_server_name tp, wp_AltPort = tp_alt_port tp,
       wp_CA = tp_ca tp, wp_Cert = tp_cert tp, wp_Key = tp_key tp, wp_Insecure = tp_insecure tp,
       wp_TUNName = tp_tun_name tp, wp_MTU = tp_mtu tp, wp_DNS = tp_dns tp\<rparr> = profile_of_toml tp"
    by (simp add: shared_profile_def profile_of_toml_def)
  with Some r show ?thesis by (simp add: LoadProfile_def win_LoadProfile_def win_Validate_eq[symmetric])
qed (simp add: LoadProfile_def win_LoadProfile_def)

lemma win_buildTLSConfig_eq: "buildTLSConfig rf ac lp (shared_profile p) = win_buildTLSConfig rf ac lp p"
  by (simp add: buildTLSConfig_def win_buildTLSConfig_def shared_profile_def Let_def res_bind_def split: option.split sum.split)

lemma win_leg_close_eq: "leg_close (shared_leg l) w = win_leg_close l w"
  by (simp add: leg_close_def win_leg_close_def shared_leg_def Let_def)

definition share :: "('a \<Rightarrow> 'b) \<Rightarrow> 'w \<times> ('e + 'a) \<Rightarrow> 'w \<times> ('e + 'b)" where
  "share f r = (fst r, map_sum id f (snd r))"

lemma win_listen_eq: "listenAndDialQUIC tls env a w = share shared_leg (win_listenAndDialQUIC tls env a w)"
  by (simp add: listenAndDialQUIC_def win_listenAndDialQUIC_def share_def leg_dial_def leg_close_def close_res_def
      shared_leg_def Let_def split: prod.split)

lemma win_race_loop_eq:
  "race_loop tls arr (map_option shared_leg winner) errs w =
     (case win_race_loop tls arr winner errs w of (w, winner, errs) \<Rightarrow> (w, map_option shared_leg winner, errs))"
proof (induction tls arr winner errs w rule: win_race_loop.induct)
  case (2 tls a env rest winner errs w)
  obtain w1 r where d: "win_listenAndDialQUIC tls env a w = (w1, r)" by (cases "win_listenAndDialQUIC tls env a w")
  then have d': "listenAndDialQUIC tls env a w = (w1, map_sum id shared_leg r)" by (simp add: win_listen_eq share_def)
  show ?case
  proof (cases r)
    case (Inl e)
    with 2(1)[OF d[symmetric] Inl] d d' show ?thesis by simp
  next
    case (Inr leg)
    show ?thesis
    proof (cases winner)
      case None
      with 2(2)[OF d[symmetric] Inr None] d d' Inr show ?thesis by simp
    next
      case (Some l)
      then have "winner \<noteq> None" by simp
      from 2(3)[OF d[symmetric] Inr this] d d' Inr Some show ?thesis by (simp add: win_leg_close_eq)
    qed
  qed
qed simp

lemma win_raceQUIC_eq: "raceQUIC tls arr w = share shared_leg (win_raceQUIC tls arr w)"
  using win_race_loop_eq[of tls arr None "[]" w]
  by (auto simp: raceQUIC_def win_raceQUIC_def share_def split: prod.splits option.splits)

text \<open>How a caller that recovers panics sees the result.\<close>

definition recovered :: "'w \<times> (connect_error + win_session) option \<Rightarrow> 'w \<times> (connect_error + session)" where
  "recovered r =
     (case r of (w, None) \<Rightarrow> (w, Inl CPanic) | (w, Some x) \<Rightarrow> (w, map_sum id shared_session x))"

lemma win_finish_eq: "finishCONNECTIP env (shared_leg leg) dev w = recovered (win_finishCONNECTIP env leg dev w)"
  by (simp add: finishCONNECTIP_def win_finishCONNECTIP_def recovered_def win_leg_close_eq Let_def shared_session_def
      split: prod.split option.split) (simp add: shared_leg_def)

lemma win_Close_eq: "Session_Close (shared_session s) w = (case win_Close s w of (w, s) \<Rightarrow> (w, shared_session s))"
  by (simp add: Session_Close_def win_Close_def shared_session_def Let_def)

lemma win_dial_eq:
  "(if length addrs = 1 then listenAndDialQUIC tls single (hd addrs) w else raceQUIC tls arr w) =
   share shared_leg (if length addrs = 1 then win_listenAndDialQUIC tls single (addrs ! 0) w else win_raceQUIC tls arr w)"
  by (cases addrs) (simp_all add: win_listen_eq win_raceQUIC_eq)

lemma win_Connect_eq: "Connect env (shared_profile p) dev w = recovered (win_Connect env p dev w)"
proof (cases "win_Validate p")
  case (Inl e)
  then show ?thesis
    by (simp add: Connect_def ConnectWithPacketConn_def win_Connect_def recovered_def win_Validate_eq)
next
  case (Inr q)
  have f: "pf_Server (shared_profile q) = wp_Server q" "pf_AltPort (shared_profile q) = wp_AltPort q"
    by (simp_all add: shared_profile_def)
  show ?thesis
  proof (cases "ce_resolve env (wp_Server q)")
    case None
    with Inr f show ?thesis by (simp add: Connect_def ConnectWithPacketConn_def win_Connect_def recovered_def win_Validate_eq)
  next
    case (Some a)
    show ?thesis
    proof (cases "win_buildTLSConfig (ce_readFile env) (ce_appendCerts env) (ce_loadPair env) q")
      case (Inl e)
      with Inr Some f show ?thesis
        by (simp add: Connect_def ConnectWithPacketConn_def win_Connect_def recovered_def win_Validate_eq win_buildTLSConfig_eq)
    next
      case tls: (Inr tls)
      define as where "as = dualDialAddrs (Some a) (wp_AltPort q)"
      define x where "x = (if length as = 1 then win_listenAndDialQUIC tls (ce_single env) (as ! 0) w
        else win_raceQUIC tls (ce_arrivals env as) w)"
      obtain w1 r where r: "x = (w1, r)" by (cases x)
      have d: "(if length as = 1 then listenAndDialQUIC tls (ce_single env) (hd as) w
        else raceQUIC tls (ce_arrivals env as) w) = (w1, map_sum id shared_leg r)"
        using r unfolding win_dial_eq x_def by (simp add: share_def)
      have l: "Connect env (shared_profile p) dev w =
          (case map_sum id shared_leg r of Inl e \<Rightarrow> (w1, Inl e) | Inr leg \<Rightarrow> finishCONNECTIP (ce_finish env) leg dev w1)"
        using Inr Some tls f d
        by (simp add: Connect_def ConnectWithPacketConn_def win_Validate_eq win_buildTLSConfig_eq as_def[symmetric] Let_def)
      have "win_Connect env p dev w =
          (case r of Inl e \<Rightarrow> (w1, Some (Inl e)) | Inr leg \<Rightarrow> win_finishCONNECTIP (ce_finish env) leg dev w1)"
        using Inr Some tls r by (simp del: One_nat_def add: win_Connect_def Let_def as_def[symmetric] x_def[symmetric])
      with l show ?thesis by (cases r) (simp_all add: recovered_def win_finish_eq)
    qed
  qed
qed

lemma win_Run_eq:
  "Session_Run (shared_session s) evs w =
     (case win_Run s evs w of
        None \<Rightarrow> (w, shared_session s, [], [], NoDevice)
      | Some (w', s', tun, conn, r) \<Rightarrow> (w', shared_session s', tun, conn, r))"
proof (cases "wn_dev s")
  case True
  obtain t c r where l: "run_loop (wn_AssignedPrefixes s) evs [] [] = (t, c, r)"
    by (cases "run_loop (wn_AssignedPrefixes s) evs [] []")
  obtain w' s' where c: "win_Close s w = (w', s')" by (cases "win_Close s w")
  have "ss_dev (shared_session s) = wn_dev s" "ss_AssignedPrefixes (shared_session s) = wn_AssignedPrefixes s"
    by (simp_all add: shared_session_def)
  with True l c win_Close_eq[of s w] show ?thesis by (cases r) (simp_all add: Session_Run_def win_Run_def)
qed (simp add: Session_Run_def win_Run_def shared_session_def)


end
