(* ===== verification/Poc.thy ===== *)
theory Poc
  imports WinCore
begin

text \<open>
  The protocol test client (\<open>cmd/poc-client/main.go\<close>): one connection without a TUN device,
  three hand-made echo requests and the wait for a reply.
\<close>

section \<open>The echo request\<close>

definition putChecksum :: "bytes \<Rightarrow> nat \<Rightarrow> bytes" where
  "putChecksum b offset =
     (let b = b[offset := 0, offset + 1 := 0];
          cs = NOT (ucast (fold16 (sum16 0 b))) :: 16 word
      in b[offset := ucast (drop_bit 8 cs), offset + 1 := ucast cs])"

text \<open>\<open>As4\<close> panics on an address that is neither IPv4 nor IPv4 in IPv6.\<close>

definition go_as4 :: "addr \<Rightarrow> bytes option" where
  "go_as4 a = (if addr_is4 a \<or> addr_is4in6 a then Some (addr_as4 a) else None)"

definition buildICMPEchoRequest :: "addr \<Rightarrow> addr \<Rightarrow> 16 word \<Rightarrow> bytes option" where
  "buildICMPEchoRequest src dst seq =
     (case (go_as4 src, go_as4 dst) of
        (Some s4, Some d4) \<Rightarrow>
          (let b = (replicate 28 0)[0 := 0x45, 1 := 0, 2 := ucast (drop_bit 8 (28 :: 16 word)), 3 := 28,
                     4 := 0, 5 := 0, 6 := 0x40, 7 := 0, 8 := 64, 9 := 1];
               b = put_bytes 16 d4 (put_bytes 12 s4 b);
               hdr = putChecksum (take 20 b) 10;
               icmp = (drop 20 b)[0 := 8, 1 := 0, 4 := 0x12, 5 := 0x34, 6 := ucast (drop_bit 8 seq), 7 := ucast seq]
           in Some (hdr @ putChecksum icmp 2))
      | _ \<Rightarrow> None)"

text \<open>The wait for a reply: what each read gives until the deadline, \<open>None\<close> for an error.\<close>

fun wait_reply :: "bytes option list \<Rightarrow> bool" where
  "wait_reply [] = False"
| "wait_reply (None # rs) = False"
| "wait_reply (Some b # rs) =
     (if 20 \<le> length b \<and> b ! 9 = 1 \<and> 21 \<le> length b \<and> b ! 20 = 0 then True else wait_reply rs)"

section \<open>The run\<close>

datatype poc_error =
  PResolve | PListen | PNoCA | PReadCA | PParseCA | PKeyPair | PDial | PRequest | PClientConn | PIPDial
| PStatus int | PPrefixes | PRoutes | PNoPrefixes | PWrite nat

record poc_env =
  pe_resolve :: "string \<Rightarrow> udp_addr option"
  pe_listen :: bool
  pe_readFile :: "string \<Rightarrow> string option"
  pe_appendCerts :: "string \<Rightarrow> bool"
  pe_loadPair :: "string \<Rightarrow> string \<Rightarrow> bool"
  pe_dial :: "tls_config \<Rightarrow> bool"
  pe_finish :: finish_env
  pe_write :: "nat \<Rightarrow> bool"
  pe_reads :: "bytes option list"

definition poc_tls :: "poc_env \<Rightarrow> string \<Rightarrow> string \<Rightarrow> string \<Rightarrow> string \<Rightarrow> poc_error + tls_config" where
  "poc_tls env server ca cert key =
     (let c = \<lparr>tc_ServerName = server, tc_NextProtos = [''h3''], tc_RootCAs = None,
               tc_InsecureSkipVerify = False, tc_Certificates = []\<rparr>
      in if ca = [] then Inl PNoCA
         else case pe_readFile env ca of
                None \<Rightarrow> Inl PReadCA
              | Some pem \<Rightarrow>
                  if \<not> pe_appendCerts env pem then Inl PParseCA
                  else let c = c\<lparr>tc_RootCAs := Some pem\<rparr>
                       in if cert \<noteq> [] \<and> key \<noteq> [] then
                            (if \<not> pe_loadPair env cert key then Inl PKeyPair
                             else Inr (c\<lparr>tc_Certificates := [(cert, key)]\<rparr>))
                          else Inr c)"

text \<open>The packets in their order; \<open>None\<close> is the panic of \<open>As4\<close>.\<close>

fun poc_write :: "poc_env \<Rightarrow> addr \<Rightarrow> nat list \<Rightarrow> bytes list \<Rightarrow> (poc_error + bytes list) option" where
  "poc_write env src [] sent = Some (Inr sent)"
| "poc_write env src (i # is) sent =
     (case buildICMPEchoRequest src (Addr4 0x01010101) (of_nat i) of
        None \<Rightarrow> None
      | Some pkt \<Rightarrow> if \<not> pe_write env i then Some (Inl (PWrite i)) else poc_write env src is (sent @ [pkt]))"

definition poc_probe :: "poc_env \<Rightarrow> (poc_error + bytes list \<times> bool) option" where
  "poc_probe env =
     (case fe_prefixes (pe_finish env) of
        None \<Rightarrow> Some (Inl PPrefixes)
      | Some ps \<Rightarrow>
          if fe_routes (pe_finish env) = None then Some (Inl PRoutes)
          else (case ps of
                  [] \<Rightarrow> Some (Inl PNoPrefixes)
                | p # _ \<Rightarrow>
                    (case poc_write env (px_addr p) [0, 1, 2] [] of
                       None \<Rightarrow> None
                     | Some (Inl e) \<Rightarrow> Some (Inl e)
                     | Some (Inr sent) \<Rightarrow> Some (Inr (sent, wait_reply (pe_reads env))))))"

definition poc_session :: "poc_env \<Rightarrow> 'x world_scheme \<Rightarrow> 'x world_scheme \<times> (poc_error + bytes list \<times> bool) option" where
  "poc_session env w =
     (let fe = pe_finish env
      in if \<not> fe_template fe then (w, None)
         else if \<not> fe_request fe then (w, Some (Inl PRequest))
         else if \<not> fe_client fe then (w, Some (Inl PClientConn))
         else case fe_status fe of
                None \<Rightarrow> (w, Some (Inl PIPDial))
              | Some st \<Rightarrow>
                  (case open_res IPConn w of
                     (w, ipc) \<Rightarrow>
                       if st \<noteq> 200 then (w, Some (Inl (PStatus st)))
                       else (close_res (Some ipc) w, poc_probe env)))"

definition poc_run ::
  "poc_env \<Rightarrow> string \<Rightarrow> string \<Rightarrow> string \<Rightarrow> string \<Rightarrow> string \<Rightarrow> 'x world_scheme \<Rightarrow>
   'x world_scheme \<times> (poc_error + bytes list \<times> bool) option" where
  "poc_run env proxy server ca cert key w =
     (if pe_resolve env proxy = None then (w, Some (Inl PResolve))
      else if \<not> pe_listen env then (w, Some (Inl PListen))
      else case open_res UDPSock w of
             (w, u) \<Rightarrow>
               (case (case poc_tls env server ca cert key of
                        Inl e \<Rightarrow> (w, Some (Inl e))
                      | Inr tls \<Rightarrow>
                          if \<not> pe_dial env tls then (w, Some (Inl PDial))
                          else case open_res QConn w of (w, _) \<Rightarrow> poc_session env w) of
                  (w, r) \<Rightarrow> (close_res (Some u) w, r)))"

section \<open>The packets\<close>

lemma putChecksum_eq:
  "putChecksum b i = (let h = b[i := 0, i + 1 := 0]
     in h[i := ucast (drop_bit 8 (ipv4Checksum h)), i + 1 := ucast (ipv4Checksum h AND 0xff)])"
proof -
  have "(ucast (c AND 0xff) :: byte) = ucast c" for c :: "16 word"
  proof -
    have "c AND 0xff = take_bit 8 c" by (simp add: take_bit_eq_mask mask_eq_exp_minus_1)
    then show ?thesis by (simp only:) (rule bit_word_eqI, simp add: bit_unsigned_iff bit_take_bit_iff)
  qed
  then show ?thesis by (simp add: putChecksum_def ipv4Checksum_def Let_def)
qed

lemma putChecksum_verifies:
  assumes "even i" "i + 1 < length b" "length b \<le> 65536" "0 < wsum (b[i := 0, i + 1 := 0])"
  shows "ipv4Checksum (putChecksum b i) = 0"
  unfolding putChecksum_eq Let_def
  by (rule checksum_fill_verifies) (use assms in simp_all)

text \<open>A well-formed echo request from an IPv4 address to another.\<close>

definition echo_request :: "32 word \<Rightarrow> 32 word \<Rightarrow> 16 word \<Rightarrow> bytes \<Rightarrow> bool" where
  "echo_request src dst seq q \<longleftrightarrow>
     length q = 28 \<and> ip_version q = 4 \<and> be_word (slice 2 4 q) = (28 :: 16 word) \<and> q ! 8 = 64 \<and> q ! 9 = 1 \<and>
     slice 12 16 q = be_bytes 4 src \<and> slice 16 20 q = be_bytes 4 dst \<and> header_ok q \<and>
     q ! 20 = 8 \<and> q ! 21 = 0 \<and> be_word (slice 26 28 q) = seq \<and> ipv4Checksum (drop 20 q) = 0"

lemma be_bytes_4: "be_bytes 4 w = [ucast (drop_bit 24 w), ucast (drop_bit 16 w), ucast (drop_bit 8 w), ucast w]"
  for w :: "32 word"
  by (simp add: be_bytes_def upt_rec)

lemma build_shape:
  "buildICMPEchoRequest (Addr4 v) (Addr4 d) seq = Some
     (putChecksum ([0x45, 0, 0, 28, 0, 0, 0x40, 0, 64, 1, 0, 0] @ be_bytes 4 v @ be_bytes 4 d) 10 @
      putChecksum [8, 0, 0, 0, 0x12, 0x34, ucast (drop_bit 8 seq), ucast seq] 2)"
proof -
  have n: "replicate 28 (0 :: byte) = [0,0,0,0,0,0,0,0,0,0,0,0,0,0,0,0,0,0,0,0,0,0,0,0,0,0,0,0]" by code_simp
  have "(ucast (drop_bit 8 (28 :: 16 word)) :: byte) = 0" by code_simp
  then show ?thesis
    by (simp add: buildICMPEchoRequest_def go_as4_def put_bytes_def be_bytes_4 n Let_def)
qed

lemma put_shape:
  assumes "even i" "i + 1 < length b" "length b \<le> 65536" "b ! i = 0" "b ! (i + 1) = 0" "0 < wsum b"
  obtains x y where "putChecksum b i = b[i := x, i + 1 := y]" "ipv4Checksum (b[i := x, i + 1 := y]) = 0"
proof -
  have b: "b[i := 0, i + 1 := 0] = b" using assms(4,5) by (metis list_update_id)
  have "ipv4Checksum (putChecksum b i) = 0" by (rule putChecksum_verifies) (use assms b in simp_all)
  with that show thesis unfolding putChecksum_eq Let_def b by blast
qed

lemma build_echo: "\<exists>q. buildICMPEchoRequest (Addr4 v) (Addr4 d) seq = Some q \<and> echo_request v d seq q"
proof -
  define h :: bytes where "h = [0x45, 0, 0, 28, 0, 0, 0x40, 0, 64, 1, 0, 0] @ be_bytes 4 v @ be_bytes 4 d"
  define m :: bytes where "m = [8, 0, 0, 0, 0x12, 0x34, ucast (drop_bit 8 seq), ucast seq]"
  have lh: "length h = 20" "length m = 8" by (simp_all add: h_def m_def)
  have zh: "h ! 10 = 0" "h ! (10 + 1) = 0" "m ! 2 = 0" "m ! (2 + 1) = 0" by (simp_all add: h_def m_def)
  have wh: "0 < wsum h" "0 < wsum m" by (simp_all add: h_def m_def)
  obtain x y where h: "putChecksum h 10 = h[10 := x, 10 + 1 := y]" "ipv4Checksum (h[10 := x, 10 + 1 := y]) = 0"
    by (rule put_shape[of 10 h]) (use lh zh wh in simp_all)
  obtain s t where m: "putChecksum m 2 = m[2 := s, 2 + 1 := t]" "ipv4Checksum (m[2 := s, 2 + 1 := t]) = 0"
    by (rule put_shape[of 2 m]) (use lh zh wh in simp_all)
  define q where "q = h[10 := x, 10 + 1 := y] @ m[2 := s, 2 + 1 := t]"
  have b: "buildICMPEchoRequest (Addr4 v) (Addr4 d) seq = Some q"
    unfolding build_shape q_def by (simp only: h_def[symmetric] m_def[symmetric] h(1) m(1))
  have n: "hdr_len q = 20" by (simp add: hdr_len_def q_def h_def m_def Let_def)
  have hok: "header_ok q" unfolding header_ok_def n using h(2) lh by (simp add: q_def)
  have mok: "ipv4Checksum (drop 20 q) = 0" using m(2) lh by (simp add: q_def)
  have w2: "be_word [ucast (drop_bit 8 seq), ucast seq] = seq"
    using be_word_bytes[of 2 seq] by (simp add: be_bytes_def upt_rec)
  have w28: "be_word [0, 28 :: byte] = (28 :: 16 word)" by code_simp
  have "echo_request v d seq q"
    unfolding echo_request_def using hok mok
    by (simp add: q_def h_def m_def be_bytes_4 slice_def w2 w28 ip_version_def)
  with b show ?thesis by blast
qed

lemma split_v4: "fst (splitAssigned_from (Addr4 v) v6 ps) = Addr4 v"
  by (induction ps arbitrary: v6) (simp_all add: Let_def)

lemma echo_outgoing:
  assumes e: "echo_request v d seq q" and p: "px_addr p = Addr4 v"
  shows "outgoing (p # ps) q = Some q"
proof -
  have v4: "drop_bit 4 (q ! 0) = 4" using e by (cases q) (auto simp: echo_request_def ip_version_def)
  have s: "src4 q = Addr4 v"
  proof -
    have "take 4 (drop 12 q) = be_bytes 4 v" "length q = 28" using e by (simp_all add: echo_request_def slice_def)
    then have n: "q ! (12 + k) = be_bytes 4 v ! k" if "k < 4" for k
      using that nth_take[of k 4 "drop 12 q"] nth_drop[of 12 q k] by simp
    have "[q ! 12, q ! 13, q ! 14, q ! 15] = be_bytes 4 v"
      using n[of 0] n[of 1] n[of 2] n[of 3] by (simp add: be_bytes_4)
    then show ?thesis by (simp add: src4_def addr_from4_def be_word_bytes)
  qed
  have n: "normalizeTTL q = (q, 64, False)"
    using e v4 by (simp add: normalizeTTL_def echo_request_def minTTL_def Let_def)
  obtain x y where a: "splitAssigned (p # ps) = (x, y)" by (cases "splitAssigned (p # ps)")
  have "x = Addr4 v" using a p split_v4[of v NoAddr ps] by (simp add: splitAssigned_def Let_def)
  with a e v4 s n show ?thesis by (simp add: outgoing_def prepareOutgoing_def echo_request_def)
qed

lemma poc_write_Inr:
  "poc_write env (Addr4 v) is sent = Some (Inr r) \<Longrightarrow>
   \<exists>qs. r = sent @ qs \<and> list_all2 (\<lambda>i q. echo_request v 0x01010101 (of_nat i) q) is qs"
proof (induction env "Addr4 v" "is" sent rule: poc_write.induct)
  case (2 env i js sent)
  obtain q where q: "buildICMPEchoRequest (Addr4 v) (Addr4 0x01010101) (of_nat i) = Some q" "echo_request v 0x01010101 (of_nat i) q"
    using build_echo by blast
  with 2(2) have "pe_write env i" "poc_write env (Addr4 v) js (sent @ [q]) = Some (Inr r)" by (auto split: if_splits)
  with 2(1)[OF q(1)] obtain qs where "r = (sent @ [q]) @ qs" "list_all2 (\<lambda>i q. echo_request v 0x01010101 (of_nat i) q) js qs"
    by blast
  with q(2) show ?case by (intro exI[of _ "q # qs"]) simp
qed simp

section \<open>The tool's verdict\<close>

text \<open>The wait ends well at the first reply, if no read failed before it.\<close>

definition echo_reply :: "bytes \<Rightarrow> bool" where
  "echo_reply b \<longleftrightarrow> 21 \<le> length b \<and> b ! 9 = 1 \<and> b ! 20 = 0"

lemma wait_reply_Some: "wait_reply (Some b # rs) \<longleftrightarrow> echo_reply b \<or> wait_reply rs"
  by (auto simp: echo_reply_def)

lemma wait_reply_iff: "wait_reply rs \<longleftrightarrow> (\<exists>bs b rest. rs = map Some bs @ Some b # rest \<and> echo_reply b)"
proof (induction rs)
  case (Cons x rs)
  show ?case
  proof (cases x)
    case None
    then show ?thesis by (auto simp: Cons_eq_append_conv)
  next
    case (Some c)
    have "(\<exists>bs b rest. Some c # rs = map Some bs @ Some b # rest \<and> echo_reply b) \<longleftrightarrow>
        echo_reply c \<or> (\<exists>bs b rest. rs = map Some bs @ Some b # rest \<and> echo_reply b)" (is "?l \<longleftrightarrow> ?r")
    proof
      assume ?l
      then obtain bs b rest where h: "Some c # rs = map Some bs @ Some b # rest" "echo_reply b" by blast
      then show ?r by (cases bs) auto
    next
      assume ?r
      then show ?l
      proof
        assume "echo_reply c"
        moreover have "Some c # rs = map Some [] @ Some c # rs" by simp
        ultimately show ?l by blast
      next
        assume "\<exists>bs b rest. rs = map Some bs @ Some b # rest \<and> echo_reply b"
        then obtain bs b rest where "rs = map Some bs @ Some b # rest" "echo_reply b" by blast
        moreover from this have "Some c # rs = map Some (c # bs) @ Some b # rest" by simp
        ultimately show ?l by blast
      qed
    qed
    with Cons Some wait_reply_Some show ?thesis by simp
  qed
qed simp

lemma poc_run_probe:
  assumes "poc_run env proxy server ca cert key w = (w', Some (Inr x))"
  shows "poc_probe env = Some (Inr x) \<and> w_open w' = (insert (QConn (w_next w + 1)) (w_open w \<union> {UDPSock (w_next w), IPConn (w_next w + 2)}))
      - {IPConn (w_next w + 2)} - {UDPSock (w_next w)}"
  using assms
  by (auto simp: poc_run_def poc_session_def open_res_def close_res_def Let_def split: if_splits sum.splits option.splits)

text \<open>
  C40. What the test client claims. It succeeds only after three echo requests from the
  first assigned address: well-formed IPv4 packets to 1.1.1.1 with their sequence numbers, whose
  header and ICMP checksums the receiver accepts and which the client core would send
  unchanged. It reports a reply exactly when, before the first failed read, an ICMP echo reply
  was read; and it leaves behind nothing but the QUIC connection, which it never closes.
\<close>

theorem poc_packets_valid:
  assumes r: "poc_run env proxy server ca cert key w = (w', Some (Inr (sent, got)))"
    and p: "fe_prefixes (pe_finish env) = Some (p # ps)" "px_addr p = Addr4 v"
    and fresh: "world_ok w"
  shows "length sent = 3 \<and>
    (\<forall>i < 3. echo_request v 0x01010101 (of_nat i) (sent ! i) \<and> outgoing (p # ps) (sent ! i) = Some (sent ! i)) \<and>
    (got \<longleftrightarrow> (\<exists>bs b rest. pe_reads env = map Some bs @ Some b # rest \<and> echo_reply b)) \<and>
    w_open w' = insert (QConn (w_next w + 1)) (w_open w)"
proof -
  note q = poc_run_probe[OF r]
  have "UDPSock (w_next w) \<notin> w_open w" "IPConn (w_next w + 2) \<notin> w_open w" using fresh by (force simp: world_ok_def)+
  with q have o: "w_open w' = insert (QConn (w_next w + 1)) (w_open w)" by auto
  from q p have s: "poc_write env (Addr4 v) [0, 1, 2] [] = Some (Inr sent)" and g: "got = wait_reply (pe_reads env)"
    by (auto simp: poc_probe_def split: if_splits option.splits sum.splits)
  from poc_write_Inr[OF s] have l: "list_all2 (\<lambda>i q. echo_request v 0x01010101 (of_nat i) q) [0, 1, 2] sent" by auto
  then have n: "length sent = 3" using list_all2_lengthD by fastforce
  have e: "echo_request v 0x01010101 (of_nat i) (sent ! i)" if "i < 3" for i
  proof -
    have "echo_request v 0x01010101 (of_nat ([0, 1, 2] ! i)) (sent ! i)" using list_all2_nthD[OF l, of i] that by simp
    moreover have "[0, 1, 2] ! i = i" using that by (auto simp: less_Suc_eq numeral_eq_Suc)
    ultimately show ?thesis by simp
  qed
  show ?thesis using n e echo_outgoing[OF e p(2)] o wait_reply_iff[of "pe_reads env"] unfolding g by auto
qed

definition poc_demo :: poc_env where
  "poc_demo = \<lparr>pe_resolve = (\<lambda>_. Some \<lparr>ua_IP = Addr4 0x0a000001, ua_Port = 4433\<rparr>), pe_listen = True,
     pe_readFile = (\<lambda>_. Some ''pem''), pe_appendCerts = (\<lambda>_. True), pe_loadPair = (\<lambda>_ _. True), pe_dial = (\<lambda>_. True),
     pe_finish = \<lparr>fe_template = True, fe_request = True, fe_client = True, fe_status = Some 200,
       fe_prefixes = Some [prefix_from (Addr4 0x0a080006) 32], fe_routes = Some []\<rparr>,
     pe_write = (\<lambda>_. True), pe_reads = [Some (replicate 28 1), Some ((replicate 28 1)[20 := 0])]\<rparr>"

theorem poc_packets_valid_witness:
  "\<exists>w' sent. poc_run poc_demo ''vpn:4433'' ''vpn'' ''ca.pem'' [] [] world0 = (w', Some (Inr (sent, True))) \<and>
     w_open w' = {QConn 1} \<and> length sent = 3 \<and> echo_request 0x0a080006 0x01010101 2 (sent ! 2)"
proof -
  let ?r = "poc_run poc_demo ''vpn:4433'' ''vpn'' ''ca.pem'' [] [] world0"
  have "\<exists>sent. snd ?r = Some (Inr (sent, True))"
  proof -
    obtain q0 where q0: "buildICMPEchoRequest (Addr4 0x0a080006) (Addr4 0x01010101) 0 = Some q0" using build_echo by blast
    obtain q1 where q1: "buildICMPEchoRequest (Addr4 0x0a080006) (Addr4 0x01010101) 1 = Some q1" using build_echo by blast
    obtain q2 where q2: "buildICMPEchoRequest (Addr4 0x0a080006) (Addr4 0x01010101) 2 = Some q2" using build_echo by blast
    show ?thesis
      by (simp add: poc_demo_def poc_run_def poc_tls_def poc_session_def poc_probe_def open_res_def close_res_def Let_def
          prefix_from_def q0 q1 q2)
  qed
  then obtain w' sent where r: "?r = (w', Some (Inr (sent, True)))" by (cases ?r) auto
  have p: "fe_prefixes (pe_finish poc_demo) = Some [prefix_from (Addr4 0x0a080006) 32]" "px_addr (prefix_from (Addr4 0x0a080006) 32) = Addr4 0x0a080006"
    by (simp_all add: poc_demo_def prefix_from_def)
  note v = poc_packets_valid[OF r p world0_ok]
  have "echo_request 0x0a080006 0x01010101 (of_nat 2) (sent ! 2)"
    by (rule v[THEN conjunct2, THEN conjunct1, rule_format, THEN conjunct1]) simp
  moreover have "w_open w' = {QConn 1}"
    using v[THEN conjunct2, THEN conjunct2, THEN conjunct2] by (simp only: world0_def world.simps) simp
  moreover note r v[THEN conjunct1]
  ultimately show ?thesis by (simp only: of_nat_numeral) blast
qed

end
