(* ===== verification/VpsSsh.thy ===== *)
theory VpsSsh
  imports VpsText
begin

text \<open>
  The installer's way to a server (\<open>windows/internal/vpssetup/ssh.go\<close>, \<open>probe.go\<close> and the
  dialogue of \<open>cmd/vpn-setup\<close> about an unknown host): authentication methods, the dial with its
  check of the host key against the \<open>known_hosts\<close> file, the answer to an unknown key, the UDP
  probe. Keys are their wire bytes; the SSH library is an environment.
\<close>

section \<open>Authentication\<close>

record auth =
  au_User :: string
  au_Password :: string
  au_KeyPEM :: string
  au_KeyPassword :: string

datatype auth_method = PublicKeys string | PasswordAuth string

text \<open>\<open>parse\<close> is the library's parser of a private key, with a passphrase or without.\<close>

definition authMethods :: "(string \<Rightarrow> string option \<Rightarrow> bool) \<Rightarrow> auth \<Rightarrow> setup_error + auth_method list" where
  "authMethods parse a =
     (if au_KeyPEM a \<noteq> [] \<and> \<not> parse (au_KeyPEM a) (if au_KeyPassword a \<noteq> [] then Some (au_KeyPassword a) else None)
      then Inl SKey
      else
        let out = (if au_KeyPEM a \<noteq> [] then [PublicKeys (au_KeyPEM a)] else []);
            out = (if au_Password a \<noteq> [] then out @ [PasswordAuth (au_Password a)] else out)
        in if out = [] then Inl SNoAuth else Inr out)"

section \<open>Host keys\<close>

text \<open>The library's verdict on a host's key: fine, a \<open>KeyError\<close> with the keys it wants, another error.\<close>

datatype host_verdict = KeyFine | KeyError "string list" | KeyFailure string

definition wrapKnownHosts ::
  "(string \<Rightarrow> string) \<Rightarrow> (string \<Rightarrow> string \<Rightarrow> host_verdict) \<Rightarrow> string \<Rightarrow> string \<Rightarrow> string \<Rightarrow> setup_error option" where
  "wrapKnownHosts fingerprint inner dialAddr hostname key =
     (case inner hostname key of
        KeyFine \<Rightarrow> None
      | KeyFailure e \<Rightarrow> Some (SDial e)
      | KeyError want \<Rightarrow>
          if length want = 0 then Some (SUnknownHost dialAddr (fingerprint key) key)
          else Some (SMismatchedHost dialAddr))"

text \<open>
  The environment of a dial: directories and files that can be made, the library's reader of a
  \<open>known_hosts\<close> text, the key the peer presents (or the error before that), whether it accepts a
  user's methods, the library's form of a host name and of a line of the file.
\<close>

record ssh_env =
  se_mkdir :: bool
  se_write :: bool
  se_parseKey :: "string \<Rightarrow> string option \<Rightarrow> bool"
  se_knownhosts :: "string \<Rightarrow> (string \<Rightarrow> string \<Rightarrow> host_verdict) option"
  se_fingerprint :: "string \<Rightarrow> string"
  se_peer :: "string \<Rightarrow> string + string"
  se_login :: "string \<Rightarrow> string \<Rightarrow> auth_method list \<Rightarrow> bool"
  se_normalize :: "string \<Rightarrow> string"
  se_line :: "string list \<Rightarrow> string \<Rightarrow> string"

definition join_host_port :: "string \<Rightarrow> string \<Rightarrow> string" where
  "join_host_port host port =
     (if CHR '':'' \<in> set host then ''['' @ host @ '']:'' @ port else host @ '':'' @ port)"

text \<open>\<open>ssh.Dial\<close>: the callback sees the address that was dialled and the peer's key.\<close>

definition ssh_dial ::
  "ssh_env \<Rightarrow> string \<Rightarrow> string \<Rightarrow> auth_method list \<Rightarrow> (string \<Rightarrow> string \<Rightarrow> setup_error option) \<Rightarrow> setup_error + string" where
  "ssh_dial env addr user methods callback =
     (case se_peer env addr of
        Inl e \<Rightarrow> Inl (SDial e)
      | Inr key \<Rightarrow>
          (case callback addr key of
             Some e \<Rightarrow> Inl e
           | None \<Rightarrow> if \<not> se_login env addr user methods then Inl (SDial ''unable to authenticate'') else Inr key))"

text \<open>
  The file as it is left, and the error or the client, named by its address and the peer's key.
\<close>

definition ssh_Dial ::
  "ssh_env \<Rightarrow> string \<Rightarrow> int \<Rightarrow> auth \<Rightarrow> string option \<Rightarrow> string option \<times> (setup_error + string \<times> string)" where
  "ssh_Dial env host sshPort auth known =
     (case ValidateHost host of
        Some e \<Rightarrow> (known, Inl e)
      | None \<Rightarrow>
          if sshPort < 1 \<or> 65535 < sshPort then (known, Inl SSSHPort)
          else
            let user = trim_space (au_User auth);
                user = (if user = [] then ''root'' else user)
            in case authMethods (se_parseKey env) auth of
                 Inl e \<Rightarrow> (known, Inl e)
               | Inr methods \<Rightarrow>
                   if \<not> se_mkdir env then (known, Inl SLocalFile)
                   else if known = None \<and> \<not> se_write env then (known, Inl SLocalFile)
                   else
                     let t = (case known of None \<Rightarrow> [] | Some t \<Rightarrow> t)
                     in case se_knownhosts env t of
                          None \<Rightarrow> (Some t, Inl SKnownHosts)
                        | Some hostCB \<Rightarrow>
                            let addr = join_host_port host (itoa sshPort)
                            in case ssh_dial env addr user methods (wrapKnownHosts (se_fingerprint env) hostCB addr) of
                                 Inl e \<Rightarrow> (Some t, Inl e)
                               | Inr key \<Rightarrow> (Some t, Inr (addr, key)))"

definition host_line :: "ssh_env \<Rightarrow> string \<Rightarrow> string \<Rightarrow> string" where
  "host_line env hostPort key =
     (let n = se_normalize env hostPort
      in se_line env (if n \<noteq> hostPort then [n, hostPort] else [n]) key @ [CHR 0x0A])"

definition AppendKnownHost :: "ssh_env \<Rightarrow> string \<Rightarrow> string \<Rightarrow> string option \<Rightarrow> string option \<times> setup_error option" where
  "AppendKnownHost env hostPort key known =
     (if \<not> se_mkdir env \<or> \<not> se_write env then (known, Some SLocalFile)
      else (Some ((case known of None \<Rightarrow> [] | Some t \<Rightarrow> t) @ host_line env hostPort key), None))"

text \<open>
  The first button of the installer: a dial; for an unknown host the user is shown its
  fingerprint, and after a confirmation the key is remembered and the dial repeated, perhaps
  in another environment.
\<close>

definition connect_trusting ::
  "ssh_env \<Rightarrow> ssh_env \<Rightarrow> (string \<Rightarrow> string \<Rightarrow> bool) \<Rightarrow> string \<Rightarrow> int \<Rightarrow> auth \<Rightarrow> string option \<Rightarrow>
   string option \<times> (setup_error + string \<times> string)" where
  "connect_trusting env env' confirm host sshPort auth known =
     (case ssh_Dial env host sshPort auth known of
        (known, Inl (SUnknownHost addr fp key)) \<Rightarrow>
          (if \<not> confirm addr fp then (known, Inl (SUnknownHost addr fp key))
           else case AppendKnownHost env addr key known of
                  (known, Some e) \<Rightarrow> (known, Inl e)
                | (known, None) \<Rightarrow> ssh_Dial env' host sshPort auth known)
      | r \<Rightarrow> r)"

section \<open>The probe\<close>

text \<open>What the standard library says of an error.\<close>

record net_error =
  ne_deadline :: bool
  ne_timeout :: bool
  ne_text :: string

definition isTimeout :: "(string \<Rightarrow> string) \<Rightarrow> net_error option \<Rightarrow> bool" where
  "isTimeout uni err =
     (case err of
        None \<Rightarrow> False
      | Some e \<Rightarrow>
          if ne_deadline e then True
          else if ne_timeout e then True
          else
            let s = str_lower uni (ne_text e)
            in str_contains s ''timeout'' \<or> str_contains s ''deadline exceeded'' \<or> str_contains s ''i/o timeout'')"

datatype probe_error = ProbeHost setup_error | ProbeDial | ProbeWrite | ProbeNoReply | ProbeRead string

text \<open>The outcomes of the dial, the write and the read, and whether the context has ended.\<close>

definition ProbeUDPListener ::
  "(string \<Rightarrow> string) \<Rightarrow> bool \<Rightarrow> bool \<Rightarrow> nat \<times> net_error option \<Rightarrow> bool \<Rightarrow> string \<Rightarrow> int \<Rightarrow> probe_error option" where
  "ProbeUDPListener uni dialled written reply ctxDone host udpPort =
     (case ValidateHost host of
        Some e \<Rightarrow> Some (ProbeHost e)
      | None \<Rightarrow>
          case ValidateUDPPort udpPort of
            Some e \<Rightarrow> Some (ProbeHost e)
          | None \<Rightarrow>
              if \<not> dialled then Some ProbeDial
              else if \<not> written then Some ProbeWrite
              else case reply of
                     (n, err) \<Rightarrow>
                       if err = None \<and> 0 < n then None
                       else if ctxDone \<or> isTimeout uni err then Some ProbeNoReply
                       else case err of Some e \<Rightarrow> Some (ProbeRead (ne_text e)) | None \<Rightarrow> Some ProbeNoReply)"

section \<open>Trust on first use\<close>

definition known_text :: "string option \<Rightarrow> string" where
  "known_text known = (case known of None \<Rightarrow> [] | Some t \<Rightarrow> t)"

definition verdict :: "ssh_env \<Rightarrow> string option \<Rightarrow> string \<Rightarrow> string \<Rightarrow> host_verdict option" where
  "verdict env known addr key = map_option (\<lambda>inner. inner addr key) (se_knownhosts env (known_text known))"

lemma ssh_Dial_Inr:
  assumes "ssh_Dial env host port auth known = (known', Inr (addr, key))"
  shows "known' = Some (known_text known) \<and> se_peer env addr = Inr key \<and> addr = join_host_port host (itoa port) \<and>
    verdict env known addr key = Some KeyFine"
  using assms
  by (auto simp: ssh_Dial_def ssh_dial_def wrapKnownHosts_def verdict_def known_text_def Let_def
      split: option.splits sum.splits if_splits host_verdict.splits)

lemma ssh_Dial_unknown:
  assumes "ssh_Dial env host port auth known = (known', Inl (SUnknownHost addr fp key))"
  shows "known' = Some (known_text known) \<and> addr = join_host_port host (itoa port) \<and> fp = se_fingerprint env key \<and>
    verdict env known addr key = Some (KeyError [])"
proof -
  have "ValidateHost host \<noteq> Some (SUnknownHost addr fp key)"
    by (simp add: ValidateHost_def Let_def split: option.split)
  moreover have "authMethods (se_parseKey env) auth \<noteq> Inl (SUnknownHost addr fp key)"
    by (simp add: authMethods_def Let_def)
  ultimately show ?thesis
    using assms
    by (auto simp: ssh_Dial_def ssh_dial_def wrapKnownHosts_def verdict_def known_text_def Let_def
        split: option.splits sum.splits if_splits host_verdict.splits)
qed

text \<open>
  What the documentation of \<open>knownhosts\<close> says of a line for a host without one, in a file whose
  last line is complete.
\<close>

definition complete_lines :: "string \<Rightarrow> bool" where
  "complete_lines t \<longleftrightarrow> t = [] \<or> last t = CHR 0x0A"

definition learns_keys :: "ssh_env \<Rightarrow> bool" where
  "learns_keys env \<longleftrightarrow>
     (\<forall>t addr k. complete_lines t \<longrightarrow> verdict env (Some t) addr k = Some (KeyError []) \<longrightarrow>
       (\<forall>k'. verdict env (Some (t @ host_line env addr k)) addr k' = Some (if k' = k then KeyFine else KeyError [k])))"


text \<open>A library that knows one host, and a server whose key the user confirms.\<close>

definition one_host :: "string \<Rightarrow> (string \<Rightarrow> string \<Rightarrow> host_verdict) option" where
  "one_host t = Some (\<lambda>h k.
     if t = [] then KeyError []
     else if take (length h) t = h then
       (let w = butlast (drop (Suc (length h)) t) in if w = k then KeyFine else KeyError [w])
     else KeyFailure ''other host'')"

definition demo_ssh :: "string \<Rightarrow> ssh_env" where
  "demo_ssh key = \<lparr>se_mkdir = True, se_write = True, se_parseKey = (\<lambda>_ _. True), se_knownhosts = one_host,
     se_fingerprint = (\<lambda>k. ''SHA256:'' @ k), se_peer = (\<lambda>_. Inr key), se_login = (\<lambda>_ _ _. True),
     se_normalize = (\<lambda>h. h), se_line = (\<lambda>hs k. hd hs @ '' '' @ k)\<rparr>"

definition demo_auth :: auth where
  "demo_auth = \<lparr>au_User = [], au_Password = ''pw'', au_KeyPEM = [], au_KeyPassword = []\<rparr>"

lemma demo_learns: "learns_keys (demo_ssh key)"
  by (auto simp: learns_keys_def verdict_def known_text_def demo_ssh_def one_host_def host_line_def Let_def butlast_append
      split: if_splits)


end
