(* ===== verification/ServiceCLI.thy ===== *)
theory ServiceCLI
  imports Engine
begin

text \<open>
  The console client as a front end of the Windows service (\<open>cmd/vpn-client/svccli_windows.go\<close>):
  the requests it makes of the pipe for its flags. A round trip is a parameter, \<open>rt\<close>.
\<close>

datatype cli_error = CliRead | CliTrip round_trip_error

type_synonym 's round_trip = "ipc_request \<Rightarrow> 's \<Rightarrow> 's \<times> round_trip_error option"

definition no_request :: ipc_request where
  "no_request = \<lparr>iq_ID = 0, iq_Cmd = [], iq_Text = [], iq_Filename = [], iq_CA = [], iq_Cert = [], iq_Key = [],
     iq_Autoconnect = None, iq_KillSwitch = None\<rparr>"

definition readOptional :: "(path \<Rightarrow> string option) \<Rightarrow> path \<Rightarrow> string" where
  "readOptional read p = (case read p of None \<Rightarrow> [] | Some b \<Rightarrow> b)"

definition companion :: "(path \<Rightarrow> string option) \<Rightarrow> path \<Rightarrow> string \<Rightarrow> string" where
  "companion read dir name =
     (let b = readOptional read (dir @ [''certs'', name])
      in if b = [] then readOptional read (dir @ [name]) else b)"

definition import_request :: "(path \<Rightarrow> string option) \<Rightarrow> path \<Rightarrow> string \<Rightarrow> ipc_request" where
  "import_request read importPath text =
     (let r = no_request\<lparr>iq_Cmd := CmdImport, iq_Text := text, iq_Filename := last importPath\<rparr>
      in if str_contains text ''-----BEGIN'' then r
         else let dir = butlast importPath
              in r\<lparr>iq_CA := companion read dir ''ca.crt'', iq_Cert := companion read dir ''client.crt'',
                   iq_Key := companion read dir ''client.key''\<rparr>)"

definition cli_trip :: "'s round_trip \<Rightarrow> ipc_request \<Rightarrow> 's \<Rightarrow> 's \<times> cli_error option" where
  "cli_trip rt req s = (case rt req s of (s, err) \<Rightarrow> (s, map_option CliTrip err))"

definition cli_if :: "bool \<Rightarrow> ('s \<Rightarrow> 's \<times> cli_error option) \<Rightarrow> 's \<times> cli_error option \<Rightarrow> 's \<times> cli_error option" where
  "cli_if b f r = (case r of (s, Some e) \<Rightarrow> (s, Some e) | (s, None) \<Rightarrow> if b then f s else (s, None))"

text \<open>The empty path stands for the empty flag.\<close>

definition runServiceCLI ::
  "(path \<Rightarrow> string option) \<Rightarrow> 's round_trip \<Rightarrow> bool \<Rightarrow> bool \<Rightarrow> bool \<Rightarrow> path \<Rightarrow> 's \<Rightarrow> 's \<times> cli_error option" where
  "runServiceCLI read rt status connect disconnect importPath s =
     cli_if (status \<or> (\<not> connect \<and> \<not> disconnect \<and> importPath = [])) (cli_trip rt (no_request\<lparr>iq_Cmd := CmdStatus\<rparr>))
       (cli_if disconnect (cli_trip rt (no_request\<lparr>iq_Cmd := CmdDisconnect\<rparr>))
         (cli_if connect (cli_trip rt (no_request\<lparr>iq_Cmd := CmdConnect\<rparr>))
           (cli_if (importPath \<noteq> [])
             (\<lambda>s. case read importPath of
                None \<Rightarrow> (s, Some CliRead)
              | Some text \<Rightarrow> cli_trip rt (import_request read importPath text) s)
             (s, None))))"

section \<open>What is asked\<close>

text \<open>The commands of the flags, in the order of the code.\<close>

definition cli_plan :: "bool \<Rightarrow> bool \<Rightarrow> bool \<Rightarrow> path \<Rightarrow> string list" where
  "cli_plan status connect disconnect importPath =
     (if importPath \<noteq> [] then [CmdImport] else []) @ (if connect then [CmdConnect] else []) @
     (if disconnect then [CmdDisconnect] else []) @
     (if status \<or> \<not> connect \<and> \<not> disconnect \<and> importPath = [] then [CmdStatus] else [])"

text \<open>A round trip that writes down what was asked; \<open>answer\<close> gives the error, if any.\<close>

definition logging :: "(nat \<Rightarrow> round_trip_error option) \<Rightarrow> string list round_trip" where
  "logging answer req log = (log @ [iq_Cmd req], answer (length log))"

text \<open>The commands go out in order until the first that fails; without a failure all have gone.\<close>

lemma runServiceCLI_plan:
  assumes "importPath \<noteq> [] \<Longrightarrow> read importPath \<noteq> None"
  shows "case runServiceCLI read (logging answer) status connect disconnect importPath [] of
      (log, None) \<Rightarrow> log = cli_plan status connect disconnect importPath \<and> (\<forall>i < length log. answer i = None)
    | (log, Some e) \<Rightarrow> (\<exists>rest. cli_plan status connect disconnect importPath = log @ rest) \<and> log \<noteq> [] \<and>
        (\<exists>x. answer (length log - 1) = Some x \<and> e = CliTrip x) \<and> (\<forall>i < length log - 1. answer i = None)"
proof -
  have c: "iq_Cmd (import_request read importPath t) = CmdImport" for t
    by (simp add: import_request_def Let_def)
  show ?thesis
    using assms
    by (cases "importPath = []"; cases connect; cases disconnect; cases status)
      (auto simp: runServiceCLI_def cli_if_def cli_trip_def logging_def cli_plan_def c less_Suc_eq numeral_eq_Suc
        split: option.splits)
qed

end
