(* ===== verification/Spec2Isabelle.thy ===== *)
theory Spec2Isabelle
  imports ServerSpec PumpRuns BridgeQueues MobileSpec VpsRevoke VpsPorts EngineClient ConsoleProps Poc VpsSsh ServiceCLI
begin

text \<open>
  A verification library for the MASQUE VPN: a CONNECT-IP (RFC 9484) server over QUIC, its
  clients for Android and iOS, Linux and Windows, and the installer that puts the server on a
  machine. Paths below are relative to \<open>src/android/go-src/masque-vpn\<close> for the server and the
  mobile and console clients, and to \<open>src/windows\<close> for the Windows service and the installer.

  \<^bold>\<open>The program.\<close> The server authenticates a client by its certificate name, leases it an
  address per family from a pool, announces the addresses and routes, and copies packets
  between the CONNECT-IP stream and one TUN device; a router maps addresses to streams, an
  index maps names to their latest session. A client reads a profile, dials one or two UDP
  ports at once, keeps the first QUIC connection, performs the CONNECT-IP handshake and copies
  packets in the other direction, with the headers repaired. A pump keeps the device while
  sessions come and go. The mobile package wraps the pump for the platform, which exchanges
  packets with it through bounded queues. The Windows service runs the pump in a loop that
  brings routes up, with or without a kill switch, and takes requests over a pipe; its store
  imports profiles. The installer drives the server's shell, issues and revokes certificates.

  \<^bold>\<open>Conventions.\<close> Machine words keep their width (packets are lists of 8-bit words, addresses
  32- and 128-bit words); Go's \<open>int\<close> is \<open>int\<close> where no operation can overflow. Errors are the
  left side of a sum, a panic is \<open>None\<close> or an error of its own. Code outside the repository (QUIC,
  CONNECT-IP, TLS, TOML, JSON, the operating system) is an input of the definitions: an
  environment record, a function, or an event. Sockets and connections are numbered resources
  of a \<open>world\<close> that records which are open. A goroutine is a program counter with a step per
  access to shared state, and concurrency is the interleaving of these steps in a list of
  events: the properties quantify over all lists.

  \<^bold>\<open>Shared theories.\<close> \<open>Prelude\<close> has bytes, results and Go maps; \<open>GoStrings\<close> and \<open>GoText\<close> the
  functions of \<open>strings\<close>, \<open>strconv\<close> and \<open>bufio\<close> in use; \<open>Netip\<close> and \<open>NetParse\<close> the addresses and
  prefixes of \<open>net/netip\<close> with their parsers and printers.

  \<^bold>\<open>Server\<close> (\<open>cmd/poc-server\<close>). \<open>IPPool\<close> is \<open>ippool.go\<close>: \<open>NewIPPool\<close>, \<open>AllocateFor\<close>, \<open>Release\<close>,
  \<open>Available\<close>, each one step because of the mutex. \<open>IPPoolSearch\<close> shows that the IPv6 search,
  which looks at most 65536 times, fails only when it has seen every host or that many used
  ones; \<open>IPPoolProps\<close> is the pool over all sequences of calls. \<open>ServerAddr\<close> has the address helpers
  of \<open>main.go\<close>, \<open>Router\<close> its two registries, \<open>ServerConfig\<close> is \<open>config.go\<close> and \<open>blocked.go\<close>. \<open>Server\<close> is
  the rest of \<open>main.go\<close>: the handler of a request, the session's goroutine statement by
  statement with its deferred calls, the TUN reader. \<open>ServerProps\<close> has the invariants,
  \<open>ServerGrants\<close> the argument that every address in use belongs to a session that will release
  it, \<open>ServerSpec\<close> the guarantees: no leak, delivery only to the assignee, cleanup that ends, and
  a reconnect that diverts another client's traffic.

  \<^bold>\<open>Client core\<close> (\<open>internal/clientcore\<close>). \<open>Checksum\<close> and \<open>IPHdr\<close> are \<open>iphdr.go\<close> and \<open>assigned.go\<close>:
  what leaves has the assigned source and a header checksum that verifies. \<open>Profile\<close> is
  \<open>profile.go\<close>. \<open>Client\<close> is \<open>client.go\<close> and \<open>dualport.go\<close>; \<open>ClientProps\<close> and \<open>ClientRun\<close> show that a
  failed connect leaks nothing, that the race keeps the first success, and what a session
  forwards. \<open>Pump\<close> is \<open>pump.go\<close> with its two goroutines; \<open>PumpProps\<close>, \<open>PumpSpec\<close> and \<open>PumpRuns\<close>
  show the accounting of its sessions, its results, its backoff (at most 15 s), that a
  cancelled \<open>Run\<close> is at most 8 moves from its end (\<open>run_rank\<close>), and a lost TUN error. \<open>WinCore\<close> is
  the Windows copy of the core, equal to the shared one but for panics.

  \<^bold>\<open>Mobile package\<close> (\<open>mobile\<close>). \<open>Bridge\<close> is \<open>packet_bridge.go\<close>, \<open>datagram.go\<close> and \<open>memory.go\<close>:
  channels of 64 pooled buffers. \<open>BridgeProps\<close> shows who owns which buffer, \<open>BridgeQueues\<close> that
  the channels are bounded queues. \<open>Mobile\<close> is \<open>masque.go\<close> and \<open>fd_android.go\<close>, \<open>MobileProps\<close> and
  \<open>MobileSpec\<close> what a tunnel releases, how it checks the address after a reconnect, and a race
  of two starts.

  \<^bold>\<open>Windows service\<close> (\<open>internal/engine\<close>, \<open>internal/store\<close>, \<open>internal/ipc\<close>, \<open>internal/winnet\<close>,
  \<open>cmd/vpn-service\<close>). \<open>Store\<close> keeps the settings and imports profiles over a disk whose writes can
  fail half way; \<open>StoreProps\<close> has the round trip. \<open>Winnet\<close> issues the commands of the system and
  parses its tables, \<open>WinnetProps\<close> follows the routes through the log of commands. \<open>EngineLoop\<close> is
  the connection loop of \<open>engine.go\<close>, which extends the state of the pump; \<open>EngineLoopProps\<close> and
  \<open>EngineRuns\<close> show the kill switch, what a loop leaves behind, and that a cancelled loop ends
  within 29 moves (\<open>loop_rank\<close>). \<open>Engine\<close> is the engine around the loops with the requests and
  broadcasts of the pipe, \<open>EngineProps\<close>, \<open>EngineSpec\<close> and \<open>EngineClient\<close> the service over all
  sequences of requests: what \<open>Disconnect\<close> stops, a race of two loops, settings, replies.

  \<^bold>\<open>Console and test clients\<close> (\<open>cmd/vpn-client\<close>, \<open>cmd/poc-client\<close>). \<open>Console\<close> has \<open>run\<close> and the
  platform functions, \<open>ConsoleProps\<close> that the client takes back what it set up, \<open>ServiceCLI\<close> the
  requests it makes of the Windows service instead. \<open>Poc\<close> is the test client with its hand-made
  packets.

  \<^bold>\<open>Installer\<close> (\<open>internal/vpssetup\<close>). \<open>VpsText\<close> has the validation and parsing, \<open>VpsPorts\<close> the round
  trip of the socket table, \<open>VpsDeploy\<close> the operations over an SSH session, which is a function
  from a command to a reply; \<open>VpsHost\<close> is a server's file system under the commands the
  installer sends, the embedded script included, so that \<open>VpsIssue\<close> and \<open>VpsRevoke\<close> can show
  which certificate numbers are ever issued (9 to 261), that the install is always refused,
  and that a revoked client is denied by the modelled VPN server. \<open>VpsSsh\<close> is the dial itself, with
  the host keys it pins, and the UDP probe.

  \<^bold>\<open>Interfaces.\<close> Each is a locale, its client's lemmas are proved in it, and it is interpreted on
  the model: \<open>lease_pool\<close> (the server relies on the pool), \<open>owner_registry\<close> (the router and the
  session index), \<open>session_provider\<close> (pump and tunnel rely on connect and close), \<open>fifo_queue\<close>
  (three channels of the mobile package), \<open>header_rewriter\<close> and \<open>dst_preserving\<close> (the pump relies
  on \<open>normalizeTTL\<close> and \<open>prepareOutgoing\<close>), \<open>tunnel_platform\<close> (the console client relies on Linux or
  Windows).

  \<^bold>\<open>Bounds.\<close> Loops over finite data are structural. The pool's search carries the code's own
  bound of 65536 as fuel, so it is the code's result that may be a failure. A scanner refuses
  lines of 65536 bytes as \<open>bufio\<close> does. Nothing else has fuel: goroutines that may run for ever
  are step functions, and their ends are the rank theorems named above.

  \<^bold>\<open>Not modelled.\<close> The graphical programs (\<open>cmd/vpn-gui\<close>, \<open>cmd/vpn-setup\<close>): widgets that call the
  modelled service and installer, whose order of callbacks is that of a library; only the
  dialogue about an unknown host is taken from them. What a library does inside: QUIC, TLS, SSH,
  TOML, JSON, wintun. The Windows
  copies of \<open>iphdr.go\<close>, \<open>assigned.go\<close>, \<open>pump.go\<close> and of the console client's files are the text of
  the modelled ones but for comments and the \<open>OnRedial\<close> hook, which \<open>EngineLoop\<close> has. Not modelled
  either: logging, flags, timing beyond the order of events, memory limits of the Go runtime,
  tests, build and setup scripts other than \<open>issue-client.sh\<close>.
\<close>

end
